(* ===== verification/MDS_Prelude.thy ===== *)
theory MDS_Prelude
  imports Main "HOL-Library.Word" "HOL-Library.List_Lexorder" "HOL-Library.Char_ord"
    "HOL-Library.AList"
begin

text \<open>
  Shared vocabulary of the development: the machine types of the C++ sources, checked
  \<^verbatim>\<open>int64_t\<close> arithmetic (signed overflow is undefined behaviour in C++ and is the value
  \<^const>\<open>None\<close> here), little-endian byte encodings, overwriting part of a file, the
  decimal formatting of \<^verbatim>\<open>snprintf\<close>, and the generic list and order lemmas the
  components rely on.
\<close>

unbundle bit_operations_syntax

section \<open>Machine types\<close>

type_synonym byte = "8 word"
type_synonym u32 = "32 word"
type_synonym u64 = "64 word"
  \<comment> \<open>an \<open>int64_t\<close> kept at its width; \<open>sint\<close> reads its value\<close>
type_synonym i64 = "64 word"
  \<comment> \<open>the bit pattern of an IEEE-754 \<open>double\<close>\<close>
type_synonym f64 = "64 word"

named_theorems i64_simps \<open>unfolding of the checked 64-bit signed arithmetic\<close>
named_theorems byte_simps \<open>lengths and inverses of the byte encodings\<close>
named_theorems io_simps \<open>unfolding of fault-free input and output\<close>

section \<open>Checked signed 64-bit arithmetic\<close>

abbreviation i64_min :: int where "i64_min \<equiv> - 9223372036854775808"
abbreviation i64_max :: int where "i64_max \<equiv> 9223372036854775807"

definition in_i64 :: "int \<Rightarrow> bool" where
  "in_i64 x \<longleftrightarrow> i64_min \<le> x \<and> x \<le> i64_max"

definition i64_add :: "int \<Rightarrow> int \<Rightarrow> int option" where
  "i64_add a b = (if in_i64 (a + b) then Some (a + b) else None)"

definition i64_sub :: "int \<Rightarrow> int \<Rightarrow> int option" where
  "i64_sub a b = (if in_i64 (a - b) then Some (a - b) else None)"

definition i64_neg :: "int \<Rightarrow> int option" where
  "i64_neg a = (if in_i64 (- a) then Some (- a) else None)"

definition i64_mul :: "int \<Rightarrow> int \<Rightarrow> int option" where
  "i64_mul a b = (if in_i64 (a * b) then Some (a * b) else None)"

lemmas i64_ops_def [i64_simps] = i64_add_def i64_sub_def i64_neg_def i64_mul_def in_i64_def

lemma sint_in_i64 [simp]: "in_i64 (sint (w :: i64))"
  using sint_greater_eq [of w] sint_lt [of w] by (simp add: in_i64_def)

lemma sint_of_in_i64 [simp]: "in_i64 x \<Longrightarrow> sint (word_of_int x :: i64) = x"
  by (simp add: in_i64_def int_word_sint)

section \<open>Exclusive or\<close>

lemma word_xor_eq_0 [simp]: "(a :: 'a::len word) XOR b = 0 \<longleftrightarrow> a = b"
  by (auto simp: bit_eq_iff bit_xor_iff)

lemma word_xor_cancel_right [simp]: "(a :: 'a::len word) XOR c = b XOR c \<longleftrightarrow> a = b"
  by (auto simp: bit_eq_iff bit_xor_iff)

lemma word_xor_cancel_left [simp]: "(c :: 'a::len word) XOR a = c XOR b \<longleftrightarrow> a = b"
  by (auto simp: bit_eq_iff bit_xor_iff)

section \<open>Bytes\<close>

text \<open>\<open>le_bytes n v\<close> is the \<open>n\<close>-byte little-endian representation of \<open>v\<close>.\<close>

primrec le_bytes :: "nat \<Rightarrow> nat \<Rightarrow> byte list" where
  "le_bytes 0 v = []"
| "le_bytes (Suc n) v = of_nat v # le_bytes n (v div 256)"

primrec le_nat :: "byte list \<Rightarrow> nat" where
  "le_nat [] = 0"
| "le_nat (b # bs) = unat b + 256 * le_nat bs"

lemma length_le_bytes [simp, byte_simps]: "length (le_bytes n v) = n"
  by (induction n arbitrary: v) auto

lemma le_nat_le_bytes: "le_nat (le_bytes n v) = v mod 256 ^ n"
proof (induction n arbitrary: v)
  case (Suc n)
  then show ?case by (simp add: unat_of_nat mod_mult2_eq mult.commute)
qed simp

lemma le_nat_bound: "le_nat bs < 256 ^ length bs"
proof (induction bs)
  case (Cons b bs)
  have "unat b < 256" using unsigned_less [of b] by simp
  with Cons show ?case by simp
qed simp

lemma le_bytes_le_nat: "le_bytes (length bs) (le_nat bs) = bs"
proof (induction bs)
  case (Cons b bs)
  have b: "unat b < 256" using unsigned_less [of b] by simp
  have "(of_nat (unat b + 256 * le_nat bs) :: byte) = of_nat (unat b) + of_nat 256 * of_nat (le_nat bs)"
    by (simp only: of_nat_add of_nat_mult)
  also have "\<dots> = b"
  proof -
    have "(of_nat 256 :: byte) = 0" by simp
    then show ?thesis by (simp only: mult_zero_left add_0_right) simp
  qed
  finally show ?case using b Cons by simp
qed simp

definition u64_bytes :: "u64 \<Rightarrow> byte list" where
  "u64_bytes w = le_bytes 8 (unat w)"

definition u32_bytes :: "u32 \<Rightarrow> byte list" where
  "u32_bytes w = le_bytes 4 (unat w)"

definition u64_of :: "byte list \<Rightarrow> u64" where
  "u64_of bs = of_nat (le_nat bs)"

definition u32_of :: "byte list \<Rightarrow> u32" where
  "u32_of bs = of_nat (le_nat bs)"

lemma length_u64_bytes [simp, byte_simps]: "length (u64_bytes w) = 8"
  by (simp add: u64_bytes_def)

lemma length_u32_bytes [simp, byte_simps]: "length (u32_bytes w) = 4"
  by (simp add: u32_bytes_def)

lemma u64_of_bytes [simp, byte_simps]: "u64_of (u64_bytes w) = w"
proof -
  have "unat w < 18446744073709551616" using unsigned_less [of w] by simp
  then show ?thesis by (simp add: u64_of_def u64_bytes_def le_nat_le_bytes)
qed

lemma u32_of_bytes [simp, byte_simps]: "u32_of (u32_bytes w) = w"
proof -
  have "unat w < 4294967296" using unsigned_less [of w] by simp
  then show ?thesis by (simp add: u32_of_def u32_bytes_def le_nat_le_bytes)
qed

lemma u64_bytes_of: "length bs = 8 \<Longrightarrow> u64_bytes (u64_of bs) = bs"
  using le_nat_bound [of bs] le_bytes_le_nat [of bs]
  by (simp add: u64_bytes_def u64_of_def unat_of_nat)

lemma u32_bytes_of: "length bs = 4 \<Longrightarrow> u32_bytes (u32_of bs) = bs"
  using le_nat_bound [of bs] le_bytes_le_nat [of bs]
  by (simp add: u32_bytes_def u32_of_def unat_of_nat)

lemma u32_bytes_inject [simp]: "u32_bytes a = u32_bytes b \<longleftrightarrow> a = b"
  by (metis u32_of_bytes)

lemma u64_bytes_inject [simp]: "u64_bytes a = u64_bytes b \<longleftrightarrow> a = b"
  by (metis u64_of_bytes)

text \<open>The bytes \<open>[off, off + n)\<close> of an object or a file.\<close>

definition slice :: "nat \<Rightarrow> nat \<Rightarrow> 'a list \<Rightarrow> 'a list" where
  "slice off n xs = take n (drop off xs)"

text \<open>Writing \<open>bs\<close> at offset \<open>pos\<close>: bytes are overwritten, the object grows at its end.\<close>

definition overwrite :: "nat \<Rightarrow> 'a list \<Rightarrow> 'a list \<Rightarrow> 'a list" where
  "overwrite pos bs xs = take pos xs @ bs @ drop (pos + length bs) xs"

lemma length_slice [simp]: "off + n \<le> length xs \<Longrightarrow> length (slice off n xs) = n"
  by (simp add: slice_def)

lemma length_overwrite [simp]:
  "pos + length bs \<le> length xs \<Longrightarrow> length (overwrite pos bs xs) = length xs"
  by (simp add: overwrite_def)

lemma overwrite_end [simp]: "overwrite (length xs) bs xs = xs @ bs"
  by (simp add: overwrite_def)

lemma slice_overwrite_same [simp]:
  "pos \<le> length xs \<Longrightarrow> slice pos (length bs) (overwrite pos bs xs) = bs"
  by (simp add: slice_def overwrite_def)

lemma slice_overwrite_before:
  "off + n \<le> pos \<Longrightarrow> pos \<le> length xs \<Longrightarrow> slice off n (overwrite pos bs xs) = slice off n xs"
  by (auto simp: slice_def overwrite_def drop_take min_def)

lemma overwrite_overwrite [simp]:
  "length bs = length cs \<Longrightarrow> pos + length bs \<le> length xs
    \<Longrightarrow> overwrite pos bs (overwrite pos cs xs) = overwrite pos bs xs"
  by (simp add: overwrite_def)

lemma overwrite_slice [simp]:
  "pos + n \<le> length xs \<Longrightarrow> overwrite pos (slice pos n xs) xs = xs"
  by (simp add: overwrite_def slice_def)
    (metis add.commute append_take_drop_id drop_drop)

lemma slice_append_at: "length xs = off \<Longrightarrow> slice off n (xs @ ys) = take n ys"
  by (simp add: slice_def)

section \<open>Lexicographic order on strings of equal length\<close>

lemma append_less_append:
  fixes xs ys :: "'a::linorder list"
  assumes "length xs = length ys"
  shows "xs @ us < ys @ vs \<longleftrightarrow> xs < ys \<or> xs = ys \<and> us < vs"
  using assms by (induction xs ys rule: list_induct2) auto

lemma append_same_less [simp]: "(xs :: 'a::linorder list) @ us < xs @ vs \<longleftrightarrow> us < vs"
  using append_less_append [of xs xs us vs] by simp

section \<open>Decimal formatting\<close>

definition digit_char :: "nat \<Rightarrow> char" where
  "digit_char d = char_of (48 + d)"

definition is_digit :: "char \<Rightarrow> bool" where
  "is_digit c \<longleftrightarrow> 48 \<le> (of_char c :: nat) \<and> (of_char c :: nat) \<le> 57"

definition digit_val :: "char \<Rightarrow> nat" where
  "digit_val c = of_char c - 48"

text \<open>\<^verbatim>\<open>std::to_string\<close> and \<^verbatim>\<open>%d\<close> of a non-negative integer.\<close>

fun show_nat :: "nat \<Rightarrow> string" where
  "show_nat n = (if n < 10 then [digit_char n] else show_nat (n div 10) @ [digit_char (n mod 10)])"

declare show_nat.simps [simp del]

text \<open>\<^verbatim>\<open>%0wd\<close>: at least \<open>w\<close> characters, padded with zeros on the left.\<close>

definition printf_0d :: "nat \<Rightarrow> nat \<Rightarrow> string" where
  "printf_0d w n = (let s = show_nat n in replicate (w - length s) CHR ''0'' @ s)"

text \<open>The last \<open>w\<close> decimal digits, which \<^const>\<open>printf_0d\<close> prints when \<open>n < 10 ^ w\<close>.\<close>

primrec fixdig :: "nat \<Rightarrow> nat \<Rightarrow> string" where
  "fixdig 0 n = []"
| "fixdig (Suc w) n = fixdig w (n div 10) @ [digit_char (n mod 10)]"

lemma of_char_digit_char: "d < 10 \<Longrightarrow> (of_char (digit_char d) :: nat) = 48 + d"
  by (simp add: digit_char_def)

lemma is_digit_digit_char [simp]: "d < 10 \<Longrightarrow> is_digit (digit_char d)"
  by (simp add: is_digit_def of_char_digit_char)

lemma digit_val_digit_char [simp]: "d < 10 \<Longrightarrow> digit_val (digit_char d) = d"
  by (simp add: digit_val_def of_char_digit_char)

lemma digit_char_less [simp]: "a < 10 \<Longrightarrow> b < 10 \<Longrightarrow> digit_char a < digit_char b \<longleftrightarrow> a < b"
  by (simp add: less_char_def of_char_digit_char)

lemma digit_char_inject [simp]: "a < 10 \<Longrightarrow> b < 10 \<Longrightarrow> digit_char a = digit_char b \<longleftrightarrow> a = b"
  by (metis digit_val_digit_char)

lemma length_fixdig [simp]: "length (fixdig w n) = w"
  by (induction w arbitrary: n) auto

lemma fixdig_digits: "c \<in> set (fixdig w n) \<Longrightarrow> is_digit c"
  by (induction w arbitrary: n) auto

lemma digit_char_0 [simp]: "digit_char 0 = CHR ''0''"
  by (simp add: digit_char_def char_of_def bit_Suc bit_0)

lemma digit_char_eval:
  "digit_char 1 = CHR ''1''" "digit_char 2 = CHR ''2''" "digit_char 3 = CHR ''3''"
  "digit_char 4 = CHR ''4''" "digit_char 5 = CHR ''5''" "digit_char 6 = CHR ''6''"
  "digit_char 7 = CHR ''7''" "digit_char 8 = CHR ''8''" "digit_char 9 = CHR ''9''"
  "digit_char (Suc 0) = CHR ''1''"
  by code_simp+

lemma show_nat_eval:
  "n < 10 \<Longrightarrow> show_nat n = [digit_char n]"
  "10 \<le> n \<Longrightarrow> show_nat n = show_nat (n div 10) @ [digit_char (n mod 10)]"
  by (simp_all add: show_nat.simps [of n])

lemma fixdig_0: "fixdig w 0 = replicate w CHR ''0''"
  by (induction w) (simp_all add: replicate_append_same)

lemma fixdig_order:
  assumes "a < 10 ^ w" and "b < 10 ^ w"
  shows "(fixdig w a < fixdig w b \<longleftrightarrow> a < b) \<and> (fixdig w a = fixdig w b \<longleftrightarrow> a = b)"
  using assms
proof (induction w arbitrary: a b)
  case (Suc w)
  have d: "a div 10 < 10 ^ w" "b div 10 < 10 ^ w"
    using Suc.prems by (simp_all add: less_mult_imp_div_less mult.commute)
  have eqs: "a = 10 * (a div 10) + a mod 10" "b = 10 * (b div 10) + b mod 10"
    and ms: "a mod 10 < 10" "b mod 10 < 10" by simp_all
  from eqs ms have "a < b \<longleftrightarrow> a div 10 < b div 10 \<or> a div 10 = b div 10 \<and> a mod 10 < b mod 10"
    by linarith
  moreover from eqs have "a = b \<longleftrightarrow> a div 10 = b div 10 \<and> a mod 10 = b mod 10"
    by metis
  ultimately
  show ?case using Suc.IH [OF d] ms by (simp add: append_less_append)
qed simp

lemmas fixdig_less = fixdig_order [THEN conjunct1]
lemmas fixdig_inject = fixdig_order [THEN conjunct2]

lemma show_nat_fixdig: "\<exists>w. 0 < w \<and> show_nat n = fixdig w n \<and> n < 10 ^ w \<and> (1 < w \<longrightarrow> 10 ^ (w - 1) \<le> n)"
proof (induction n rule: show_nat.induct)
  case (1 n)
  show ?case
  proof (cases "n < 10")
    case True
    then have "show_nat n = fixdig 1 n" by (subst show_nat.simps) simp
    with True show ?thesis by (intro exI [of _ 1]) simp
  next
    case False
    from "1.IH" [OF False] obtain w where
      w: "0 < w" "show_nat (n div 10) = fixdig w (n div 10)" "n div 10 < 10 ^ w"
        "1 < w \<longrightarrow> 10 ^ (w - 1) \<le> n div 10" by blast
    have "show_nat n = fixdig (Suc w) n"
      using False w(2) by (subst show_nat.simps) simp
    moreover have "n < 10 ^ Suc w" using w(3) by (simp add: div_less_iff_less_mult)
    moreover have "10 ^ w \<le> n"
    proof (cases "1 < w")
      case True
      with w(4) have "10 * 10 ^ (w - 1) \<le> n" by simp
      with w(1) show ?thesis by (cases w) simp_all
    next
      case False
      with w(1) \<open>\<not> n < 10\<close> show ?thesis by (cases w) auto
    qed
    ultimately show ?thesis by (intro exI [of _ "Suc w"]) simp
  qed
qed

lemma fixdig_pad: "n < 10 ^ w \<Longrightarrow> fixdig (k + w) n = replicate k CHR ''0'' @ fixdig w n"
proof (induction w arbitrary: n)
  case 0
  then show ?case by (simp add: fixdig_0)
next
  case (Suc w)
  then have "n div 10 < 10 ^ w" by (simp add: less_mult_imp_div_less mult.commute)
  with Suc.IH show ?case by simp
qed

lemma printf_0d_eq:
  assumes "n < 10 ^ w" and "0 < w"
  shows "printf_0d w n = fixdig w n"
proof -
  obtain v where v: "0 < v" "show_nat n = fixdig v n" "n < 10 ^ v" "1 < v \<longrightarrow> 10 ^ (v - 1) \<le> n"
    using show_nat_fixdig by blast
  have "v \<le> w"
  proof (rule ccontr)
    assume "\<not> v \<le> w"
    then have "1 < v" and "w \<le> v - 1" using assms(2) by simp_all
    then have "10 ^ w \<le> (10::nat) ^ (v - 1)" by (intro power_increasing) simp_all
    with v(4) \<open>1 < v\<close> assms(1) show False by (simp del: One_nat_def)
  qed
  then have "fixdig w n = replicate (w - v) CHR ''0'' @ fixdig v n"
    using fixdig_pad [OF v(3), of "w - v"] by simp
  then show ?thesis by (simp add: printf_0d_def v(2))
qed

section \<open>Runs of equal-length chunks\<close>

lemma length_concat_const:
  "(\<forall>x\<in>set xs. length x = n) \<Longrightarrow> length (concat xs) = length xs * n"
  by (induction xs) auto

lemma take_concat_const:
  "(\<forall>x\<in>set xs. length x = n) \<Longrightarrow> take (k * n) (concat xs) = concat (take k xs)"
proof (induction xs arbitrary: k)
  case (Cons x xs)
  then show ?case by (cases k) auto
qed simp

end
