(* ===== verification/MDS_Types.thy ===== *)
theory MDS_Types
  imports MDS_Prelude
begin

text \<open>
  The public data types (\<^verbatim>\<open>include/mds/types.h\<close>) and the file headers
  (\<^verbatim>\<open>src/storage/trade_file_format.h\<close>): \<open>trade\<close>, \<open>orderbook_level\<close>,
  \<open>orderbook_snapshot\<close>, their fixed object layouts of 64 and 688 bytes, and the 24-byte
  header of a record file. The storage code is a template over \<open>Record\<close> and
  \<open>Header\<close> that copies whole objects with \<^verbatim>\<open>reinterpret_cast\<close>; its two
  instances are the values of \<open>rec_kind\<close>, and a record on disk is its object
  representation, a byte list of length \<open>rec_size k\<close>. Doubles are kept as their 64-bit
  patterns. The lemmas show the declared sizes, that every layout decodes to the value it
  encodes, and that \<open>set_symbol\<close> leaves a NUL-terminated, truncated copy.
\<close>

section \<open>Trades and order books\<close>

record trade =
  exchange_ts_us :: i64
  recv_ts_us :: i64
  trade_id :: i64
  price :: f64
  quantity :: f64
  symbol :: "byte list"       \<comment> \<open>\<open>char symbol[16]\<close>\<close>
  is_buyer_maker :: bool
  padding :: "byte list"      \<comment> \<open>\<open>char padding[3]\<close>\<close>
  crc32 :: u32

record orderbook_level =
  level_price :: f64
  level_quantity :: f64

abbreviation ORDERBOOK_DEPTH :: nat where "ORDERBOOK_DEPTH \<equiv> 20"

record orderbook_snapshot =
  ob_exchange_ts_us :: i64
  ob_recv_ts_us :: i64
  last_update_id :: i64
  ob_symbol :: "byte list"    \<comment> \<open>\<open>char symbol[16]\<close>\<close>
  bids :: "orderbook_level list"
  asks :: "orderbook_level list"
  ob_crc32 :: u32
  ob_padding :: "byte list"   \<comment> \<open>\<open>char padding[4]\<close>\<close>

definition trade_wf :: "trade \<Rightarrow> bool" where
  "trade_wf t \<longleftrightarrow> length (symbol t) = 16 \<and> length (padding t) = 3"

definition orderbook_wf :: "orderbook_snapshot \<Rightarrow> bool" where
  "orderbook_wf b \<longleftrightarrow> length (ob_symbol b) = 16 \<and> length (bids b) = ORDERBOOK_DEPTH
     \<and> length (asks b) = ORDERBOOK_DEPTH \<and> length (ob_padding b) = 4"

text \<open>The value-initialised objects \<^verbatim>\<open>Trade{}\<close> and \<^verbatim>\<open>OrderBookSnapshot{}\<close>.\<close>

definition zero_trade :: trade where
  "zero_trade = \<lparr>exchange_ts_us = 0, recv_ts_us = 0, trade_id = 0, price = 0, quantity = 0,
     symbol = replicate 16 0, is_buyer_maker = False, padding = replicate 3 0, crc32 = 0\<rparr>"

definition zero_level :: orderbook_level where
  "zero_level = \<lparr>level_price = 0, level_quantity = 0\<rparr>"

definition zero_orderbook :: orderbook_snapshot where
  "zero_orderbook = \<lparr>ob_exchange_ts_us = 0, ob_recv_ts_us = 0, last_update_id = 0,
     ob_symbol = replicate 16 0, bids = replicate ORDERBOOK_DEPTH zero_level,
     asks = replicate ORDERBOOK_DEPTH zero_level, ob_crc32 = 0, ob_padding = replicate 4 0\<rparr>"

text \<open>
  \<^verbatim>\<open>set_symbol\<close>: copy at most \<open>sizeof(symbol) - 1\<close> characters over the front of the
  array and write a NUL behind them; what is behind the NUL keeps its old value.
\<close>

definition set_symbol_bytes :: "byte list \<Rightarrow> byte list \<Rightarrow> byte list" where
  "set_symbol_bytes arr name =
     (let len = min (length name) (length arr - 1)
      in overwrite len [0] (overwrite 0 (take len name) arr))"

definition set_symbol :: "byte list \<Rightarrow> trade \<Rightarrow> trade" where
  "set_symbol name t = t\<lparr>symbol := set_symbol_bytes (symbol t) name\<rparr>"

definition ob_set_symbol :: "byte list \<Rightarrow> orderbook_snapshot \<Rightarrow> orderbook_snapshot" where
  "ob_set_symbol name b = b\<lparr>ob_symbol := set_symbol_bytes (ob_symbol b) name\<rparr>"

definition best_bid_price :: "orderbook_snapshot \<Rightarrow> f64" where
  "best_bid_price b = level_price (bids b ! 0)"

definition best_ask_price :: "orderbook_snapshot \<Rightarrow> f64" where
  "best_ask_price b = level_price (asks b ! 0)"

text \<open>The C string held by a \<open>char\<close> array: the bytes before the first NUL.\<close>

definition c_string :: "byte list \<Rightarrow> byte list" where
  "c_string arr = takeWhile (\<lambda>b. b \<noteq> 0) arr"

section \<open>Object layouts\<close>

text \<open>Field offsets of \<open>Trade\<close>: 0, 8, 16, 24, 32, 40, 56, 57, 60.\<close>

definition trade_bytes :: "trade \<Rightarrow> byte list" where
  "trade_bytes t = u64_bytes (exchange_ts_us t) @ u64_bytes (recv_ts_us t) @
     u64_bytes (trade_id t) @ u64_bytes (price t) @ u64_bytes (quantity t) @ symbol t @
     [if is_buyer_maker t then 1 else 0] @ padding t @ u32_bytes (crc32 t)"

definition trade_of_bytes :: "byte list \<Rightarrow> trade" where
  "trade_of_bytes bs = \<lparr>exchange_ts_us = u64_of (slice 0 8 bs), recv_ts_us = u64_of (slice 8 8 bs),
     trade_id = u64_of (slice 16 8 bs), price = u64_of (slice 24 8 bs),
     quantity = u64_of (slice 32 8 bs), symbol = slice 40 16 bs,
     is_buyer_maker = (slice 56 1 bs \<noteq> [0]), padding = slice 57 3 bs,
     crc32 = u32_of (slice 60 4 bs)\<rparr>"

definition level_bytes :: "orderbook_level \<Rightarrow> byte list" where
  "level_bytes l = u64_bytes (level_price l) @ u64_bytes (level_quantity l)"

definition level_of_bytes :: "byte list \<Rightarrow> orderbook_level" where
  "level_of_bytes bs = \<lparr>level_price = u64_of (slice 0 8 bs), level_quantity = u64_of (slice 8 8 bs)\<rparr>"

primrec levels_of_bytes :: "nat \<Rightarrow> byte list \<Rightarrow> orderbook_level list" where
  "levels_of_bytes 0 bs = []"
| "levels_of_bytes (Suc n) bs = level_of_bytes (take 16 bs) # levels_of_bytes n (drop 16 bs)"

text \<open>Field offsets of \<open>OrderBookSnapshot\<close>: 0, 8, 16, 24, 40, 360, 680, 684.\<close>

definition orderbook_bytes :: "orderbook_snapshot \<Rightarrow> byte list" where
  "orderbook_bytes b = u64_bytes (ob_exchange_ts_us b) @ u64_bytes (ob_recv_ts_us b) @
     u64_bytes (last_update_id b) @ ob_symbol b @ concat (map level_bytes (bids b)) @
     concat (map level_bytes (asks b)) @ u32_bytes (ob_crc32 b) @ ob_padding b"

definition orderbook_of_bytes :: "byte list \<Rightarrow> orderbook_snapshot" where
  "orderbook_of_bytes bs = \<lparr>ob_exchange_ts_us = u64_of (slice 0 8 bs),
     ob_recv_ts_us = u64_of (slice 8 8 bs), last_update_id = u64_of (slice 16 8 bs),
     ob_symbol = slice 24 16 bs, bids = levels_of_bytes ORDERBOOK_DEPTH (slice 40 320 bs),
     asks = levels_of_bytes ORDERBOOK_DEPTH (slice 360 320 bs), ob_crc32 = u32_of (slice 680 4 bs),
     ob_padding = slice 684 4 bs\<rparr>"

section \<open>The two record formats of the storage templates\<close>

datatype rec_kind = TradeRecord | OrderBookRecord

fun rec_size :: "rec_kind \<Rightarrow> nat" where
  "rec_size TradeRecord = 64"
| "rec_size OrderBookRecord = 688"

text \<open>\<open>recv_ts_us\<close> is at offset 8 of both records.\<close>

definition rec_recv_ts_us :: "byte list \<Rightarrow> int" where
  "rec_recv_ts_us r = sint (u64_of (slice 8 8 r))"

fun rec_crc_offset :: "rec_kind \<Rightarrow> nat" where
  "rec_crc_offset TradeRecord = 60"
| "rec_crc_offset OrderBookRecord = 680"

definition rec_crc :: "rec_kind \<Rightarrow> byte list \<Rightarrow> u32" where
  "rec_crc k r = u32_of (slice (rec_crc_offset k) 4 r)"

definition set_rec_crc :: "rec_kind \<Rightarrow> u32 \<Rightarrow> byte list \<Rightarrow> byte list" where
  "set_rec_crc k c r = overwrite (rec_crc_offset k) (u32_bytes c) r"

section \<open>File headers\<close>

record file_header =
  magic :: "byte list"        \<comment> \<open>\<open>char magic[8]\<close>\<close>
  version :: u32
  record_size :: u32
  record_count :: u64

definition bytes_of_string :: "string \<Rightarrow> byte list" where
  "bytes_of_string s = map (\<lambda>c. of_nat (of_char c)) s"

definition string_of_bytes :: "byte list \<Rightarrow> string" where
  "string_of_bytes bs = map (\<lambda>b. char_of (unat b)) bs"

fun rec_file_prefix :: "rec_kind \<Rightarrow> string" where
  "rec_file_prefix TradeRecord = ''trades''"
| "rec_file_prefix OrderBookRecord = ''orderbooks''"

text \<open>The default-constructed \<open>TradeFileHeader\<close> and \<open>OrderBookFileHeader\<close>.\<close>

fun default_header :: "rec_kind \<Rightarrow> file_header" where
  "default_header TradeRecord = \<lparr>magic = bytes_of_string ''MDSTRD1'' @ [0], version = 2,
     record_size = of_nat (rec_size TradeRecord), record_count = 0\<rparr>"
| "default_header OrderBookRecord = \<lparr>magic = bytes_of_string ''MDSOBK1'' @ [0], version = 2,
     record_size = of_nat (rec_size OrderBookRecord), record_count = 0\<rparr>"

abbreviation header_size :: nat where "header_size \<equiv> 24"
abbreviation record_count_offset :: nat where "record_count_offset \<equiv> 16"

definition header_bytes :: "file_header \<Rightarrow> byte list" where
  "header_bytes h = magic h @ u32_bytes (version h) @ u32_bytes (record_size h) @
     u64_bytes (record_count h)"

definition header_of_bytes :: "byte list \<Rightarrow> file_header" where
  "header_of_bytes bs = \<lparr>magic = slice 0 8 bs, version = u32_of (slice 8 4 bs),
     record_size = u32_of (slice 12 4 bs), record_count = u64_of (slice 16 8 bs)\<rparr>"

section \<open>Sizes and round trips\<close>

lemma rec_size_pos [simp]: "0 < rec_size k"
  by (cases k) simp_all

lemma rec_crc_offset_bound: "rec_crc_offset k + 4 \<le> rec_size k" "16 \<le> rec_crc_offset k"
  by (cases k; simp)+

lemma slice_append_skip [byte_simps]:
  "length xs \<le> off \<Longrightarrow> slice off n (xs @ ys) = slice (off - length xs) n ys"
  by (simp add: slice_def)

lemma slice_append_here [byte_simps]:
  "length xs = n \<Longrightarrow> slice 0 n (xs @ ys) = xs"
  by (simp add: slice_def)

lemma slice_whole [byte_simps]: "length xs = n \<Longrightarrow> slice 0 n xs = xs"
  by (simp add: slice_def)

lemma length_trade_bytes [simp]: "trade_wf t \<Longrightarrow> length (trade_bytes t) = rec_size TradeRecord"
  by (simp add: trade_wf_def trade_bytes_def)

lemma length_level_bytes [simp]: "length (level_bytes l) = 16"
  by (simp add: level_bytes_def)

lemma length_levels_bytes [simp]: "length (concat (map level_bytes ls)) = length ls * 16"
  by (induction ls) simp_all

lemma length_orderbook_bytes [simp]:
  "orderbook_wf b \<Longrightarrow> length (orderbook_bytes b) = rec_size OrderBookRecord"
  by (simp add: orderbook_wf_def orderbook_bytes_def)

lemma trade_of_trade_bytes: "trade_wf t \<Longrightarrow> trade_of_bytes (trade_bytes t) = t"
  by (simp add: trade_wf_def trade_bytes_def trade_of_bytes_def byte_simps slice_append_skip
      del: append.simps)

lemma level_of_level_bytes [simp]: "level_of_bytes (level_bytes l) = l"
  by (simp add: level_bytes_def level_of_bytes_def byte_simps)

lemma levels_of_levels_bytes [simp]:
  "levels_of_bytes (length ls) (concat (map level_bytes ls)) = ls"
  by (induction ls) simp_all

lemma orderbook_of_orderbook_bytes:
  "orderbook_wf b \<Longrightarrow> orderbook_of_bytes (orderbook_bytes b) = b"
  using levels_of_levels_bytes [of "bids b"] levels_of_levels_bytes [of "asks b"]
  by (simp add: orderbook_wf_def orderbook_bytes_def orderbook_of_bytes_def byte_simps
      del: levels_of_levels_bytes)

lemma length_default_magic [simp]: "length (magic (default_header k)) = 8"
  by (cases k) (simp_all add: bytes_of_string_def)

lemma length_header_bytes [simp]: "length (magic h) = 8 \<Longrightarrow> length (header_bytes h) = header_size"
  by (simp add: header_bytes_def)

lemma header_of_header_bytes [simp]:
  "length (magic h) = 8 \<Longrightarrow> header_of_bytes (header_bytes h @ rest) = h"
  by (simp add: header_bytes_def header_of_bytes_def byte_simps)

lemma default_header_record_size [simp]: "record_size (default_header k) = of_nat (rec_size k)"
  by (cases k) simp_all

end
