(* ===== verification/Record_Crc.thy ===== *)
theory Record_Crc
  imports MDS_Types
begin

text \<open>
  The record checksum of \<^verbatim>\<open>src/storage/record_integrity.h\<close>: the bitwise CRC-32,
  the stamp a writer puts on a record and the check a reader makes. The lemmas show that one
  bit step is linear and injective on the 32-bit state, that up to four bytes act on the
  state as one 32-bit word, and hence that damage confined to four consecutive bytes always
  changes the checksum.
\<close>

unbundle bit_operations_syntax

section \<open>The checksum\<close>

text \<open>The inner loop's body: \<^verbatim>\<open>mask = -(crc & 1); crc = (crc >> 1) ^ (0xEDB88320 & mask)\<close>.\<close>

definition crc_bit :: "u32 \<Rightarrow> u32" where
  "crc_bit crc = (let mask = - (crc AND 1) in drop_bit 1 crc XOR (0xEDB88320 AND mask))"

definition crc_byte :: "byte \<Rightarrow> u32 \<Rightarrow> u32" where
  "crc_byte b crc = (crc_bit ^^ 8) (crc XOR ucast b)"

definition crc32_ieee :: "byte list \<Rightarrow> u32" where
  "crc32_ieee data = fold crc_byte data 0xFFFFFFFF XOR 0xFFFFFFFF"

definition compute_record_crc :: "rec_kind \<Rightarrow> byte list \<Rightarrow> u32" where
  "compute_record_crc k r = (let tmp = set_rec_crc k 0 r in crc32_ieee tmp)"

definition stamp_record_crc :: "rec_kind \<Rightarrow> byte list \<Rightarrow> byte list" where
  "stamp_record_crc k r = set_rec_crc k (compute_record_crc k r) r"

definition record_crc_ok :: "rec_kind \<Rightarrow> byte list \<Rightarrow> bool" where
  "record_crc_ok k r =
     (if rec_crc k r = 0 then True else rec_crc k r = compute_record_crc k r)"

section \<open>Linearity and injectivity of the bit step\<close>

lemma crc_bit_alt: "crc_bit c = drop_bit 1 c XOR (if odd c then 0xEDB88320 else 0)"
  by (simp add: crc_bit_def Let_def and_one_eq mod_2_eq_odd)

lemma crc_bit_xor: "crc_bit (a XOR b) = crc_bit a XOR crc_bit b"
  by (auto simp: crc_bit_alt drop_bit_xor even_xor_iff xor.assoc xor.left_commute)

lemma crc_bit_kernel:
  assumes "crc_bit c = 0"
  shows "c = 0"
proof (cases "odd c")
  case True
  with assms have "drop_bit 1 c = 0xEDB88320" by (simp add: crc_bit_alt)
  then have "bit (drop_bit 1 c) 31 = bit (0xEDB88320 :: u32) 31" by simp
  then show ?thesis using bit_imp_le_length [of c 32] by (simp add: bit_drop_bit_eq)
next
  case False
  with assms have "drop_bit 1 c = 0" by (simp add: crc_bit_alt)
  then have "bit (drop_bit 1 c) n = bit 0 n" for n by simp
  then have "bit c (Suc n) = False" for n by (simp add: bit_drop_bit_eq)
  moreover from False have "bit c 0 = False" by (simp add: bit_0)
  ultimately have "bit c n = bit 0 n" for n by (cases n) simp_all
  then show ?thesis by (rule bit_eqI)
qed

lemma crc_bits_xor: "(crc_bit ^^ n) (a XOR b) = (crc_bit ^^ n) a XOR (crc_bit ^^ n) b"
  by (induction n) (simp_all add: crc_bit_xor)

lemma crc_bit_inject [simp]: "crc_bit a = crc_bit b \<longleftrightarrow> a = b"
proof
  assume "crc_bit a = crc_bit b"
  then have "crc_bit (a XOR b) = 0" by (simp add: crc_bit_xor)
  then have "a XOR b = 0" by (rule crc_bit_kernel)
  then show "a = b" by simp
qed simp

lemma crc_bits_inject [simp]: "(crc_bit ^^ n) a = (crc_bit ^^ n) b \<longleftrightarrow> a = b"
  by (induction n) simp_all

lemma crc_bytes_inject [simp]: "fold crc_byte bs a = fold crc_byte bs b \<longleftrightarrow> a = b"
proof (induction bs arbitrary: a b)
  case (Cons x bs)
  then show ?case by (simp add: crc_byte_def)
qed simp

section \<open>Up to four bytes act as one word\<close>

primrec burst_word :: "byte list \<Rightarrow> u32" where
  "burst_word [] = 0"
| "burst_word (b # bs) = ucast b XOR push_bit 8 (burst_word bs)"

lemma crc_bits_push:
  assumes "n \<le> 32" and "take_bit (32 - n) w = w"
  shows "(crc_bit ^^ n) (push_bit n w) = w"
  using assms
proof (induction n)
  case (Suc n)
  have "take_bit (32 - n) w = w"
    using Suc.prems(2) by (metis diff_le_mono2 le_add2 min.absorb2 plus_1_eq_Suc take_bit_take_bit)
  moreover have "crc_bit (push_bit (Suc n) w) = push_bit n w"
  proof -
    have "drop_bit 1 (push_bit (Suc n) w) = push_bit n w"
    proof (rule bit_eqI)
      fix i
      assume "possible_bit TYPE(32 word) i"
      then have i: "i < 32" by simp
      have top: "\<not> bit w (31 - n)"
        using Suc.prems bit_take_bit_iff [of "32 - Suc n" w "31 - n"] by simp
      have "i = 31 \<Longrightarrow> n \<le> 31" using Suc.prems(1) by simp
      with i top show "bit (drop_bit 1 (push_bit (Suc n) w)) i = bit (push_bit n w) i"
        by (cases "i = 31") (auto simp: bit_drop_bit_eq bit_push_bit_iff simp del: push_bit_Suc)
    qed
    then show ?thesis by (simp add: crc_bit_alt)
  qed
  ultimately show ?case using Suc by (simp add: funpow_Suc_right del: funpow.simps)
qed simp

lemma ucast_byte_bits: "bit (ucast (b :: byte) :: u32) i \<Longrightarrow> i < 8"
  using bit_imp_le_length [of b i] by (simp add: bit_ucast_iff)

lemma burst_word_bits: "length bs \<le> 4 \<Longrightarrow> bit (burst_word bs) i \<Longrightarrow> i < 8 * length bs"
proof (induction bs arbitrary: i)
  case (Cons b bs)
  then consider "bit (ucast b :: u32) i" | "8 \<le> i" "bit (burst_word bs) (i - 8)"
    by (auto simp: bit_xor_iff bit_push_bit_iff)
  then show ?case
  proof cases
    case 1
    then show ?thesis using ucast_byte_bits by fastforce
  next
    case 2
    then show ?thesis using Cons.IH [of "i - 8"] Cons.prems(1) by simp
  qed
qed simp

lemma take_bit_burst_word:
  "length bs \<le> 4 \<Longrightarrow> 8 * length bs \<le> n \<Longrightarrow> take_bit n (burst_word bs) = burst_word bs"
  by (rule bit_eqI) (auto simp: bit_take_bit_iff dest: burst_word_bits)

lemma crc_burst:
  "length bs \<le> 4 \<Longrightarrow> fold crc_byte bs s = (crc_bit ^^ (8 * length bs)) (s XOR burst_word bs)"
proof (induction bs arbitrary: s)
  case (Cons b bs)
  have "(crc_bit ^^ 8) (push_bit 8 (burst_word bs)) = burst_word bs"
    using Cons.prems by (intro crc_bits_push) (simp_all add: take_bit_burst_word)
  then have "(crc_bit ^^ 8) (s XOR burst_word (b # bs)) = crc_byte b s XOR burst_word bs"
    by (simp add: crc_byte_def crc_bits_xor flip: xor.assoc)
  then have "(crc_bit ^^ (8 * length bs)) ((crc_bit ^^ 8) (s XOR burst_word (b # bs)))
      = fold crc_byte bs (crc_byte b s)"
    using Cons by simp
  moreover have "8 * length (b # bs) = 8 * length bs + 8" by simp
  ultimately show ?case by (simp only: funpow_add comp_apply fold_simps)
qed simp

lemma burst_word_inject:
  assumes "length as = length bs" and "length as \<le> 4" and "burst_word as = burst_word bs"
  shows "as = bs"
  using assms
proof (induction as bs rule: list_induct2)
  case (Cons a as b bs)
  have drop: "drop_bit 8 (burst_word (c # cs)) = burst_word cs" if "length cs \<le> 3" for c cs
  proof (rule bit_eqI)
    fix i
    assume "possible_bit TYPE(32 word) i"
    have "bit (burst_word cs) i \<Longrightarrow> i < 24" using burst_word_bits [of cs i] that by simp
    moreover have "\<not> bit (ucast c :: u32) (8 + i)" using ucast_byte_bits by fastforce
    ultimately show "bit (drop_bit 8 (burst_word (c # cs))) i = bit (burst_word cs) i"
      by (auto simp: bit_drop_bit_eq bit_xor_iff bit_push_bit_iff)
  qed
  have low: "take_bit 8 (burst_word (c # cs)) = ucast c" for c cs
    by (rule bit_eqI)
      (auto simp: bit_take_bit_iff bit_xor_iff bit_push_bit_iff dest: ucast_byte_bits)
  have "as = bs" using Cons drop [of as a] drop [of bs b] by simp
  moreover have "(ucast a :: u32) = ucast b" using Cons.prems low by metis
  then have "a = b" by (simp add: bit_eq_iff bit_ucast_iff)
  ultimately show ?case by simp
qed simp

lemma crc_burst_detected:
  assumes "length as = length bs" and "length as \<le> 4" and "as \<noteq> bs"
  shows "crc32_ieee (p @ as @ s) \<noteq> crc32_ieee (p @ bs @ s)"
proof -
  have "fold crc_byte as x \<noteq> fold crc_byte bs x" for x
  proof
    assume "fold crc_byte as x = fold crc_byte bs x"
    then have "x XOR burst_word as = x XOR burst_word bs"
      using assms by (simp add: crc_burst)
    then show False using assms burst_word_inject by simp
  qed
  then show ?thesis by (simp add: crc32_ieee_def)
qed

section \<open>Stamping and checking records\<close>

text \<open>
  What the storage templates require of their \<open>Record\<close> argument: a \<open>crc32\<close> field
  inside the object and a \<open>recv_ts_us\<close> field in front of it.
\<close>

locale record_format =
  fixes k :: rec_kind
  assumes crc_inside: "rec_crc_offset k + 4 \<le> rec_size k"
    and recv_before_crc: "16 \<le> rec_crc_offset k"
begin

lemma length_set: "length r = rec_size k \<Longrightarrow> length (set_rec_crc k c r) = rec_size k"
  using crc_inside by (simp add: set_rec_crc_def)

lemma crc_set: "length r = rec_size k \<Longrightarrow> rec_crc k (set_rec_crc k c r) = c"
  using crc_inside slice_overwrite_same [of "rec_crc_offset k" r "u32_bytes c"]
  by (simp add: rec_crc_def set_rec_crc_def)

lemma set_set: "length r = rec_size k \<Longrightarrow> set_rec_crc k c (set_rec_crc k d r) = set_rec_crc k c r"
  using crc_inside by (simp add: set_rec_crc_def)

lemma set_own: "length r = rec_size k \<Longrightarrow> set_rec_crc k (rec_crc k r) r = r"
  using crc_inside by (simp add: set_rec_crc_def rec_crc_def u32_bytes_of)

lemma compute_set:
  "length r = rec_size k \<Longrightarrow> compute_record_crc k (set_rec_crc k c r) = compute_record_crc k r"
  by (simp add: compute_record_crc_def set_set)

lemma length_stamp: "length r = rec_size k \<Longrightarrow> length (stamp_record_crc k r) = rec_size k"
  by (simp add: stamp_record_crc_def length_set)

lemma stamp_ok: "length r = rec_size k \<Longrightarrow> record_crc_ok k (stamp_record_crc k r)"
  by (simp add: record_crc_ok_def stamp_record_crc_def crc_set compute_set)

lemma stamp_stamp:
  "length r = rec_size k \<Longrightarrow> stamp_record_crc k (stamp_record_crc k r) = stamp_record_crc k r"
  by (simp add: stamp_record_crc_def compute_set set_set)

lemma recv_ts_stamp:
  "length r = rec_size k \<Longrightarrow> rec_recv_ts_us (stamp_record_crc k r) = rec_recv_ts_us r"
  using crc_inside recv_before_crc
  by (simp add: rec_recv_ts_us_def stamp_record_crc_def set_rec_crc_def slice_overwrite_before)

end

interpretation fmt: record_format k for k
  by unfold_locales (cases k; simp)+

lemmas stamp_simps [simp] = fmt.length_stamp fmt.stamp_ok fmt.stamp_stamp fmt.recv_ts_stamp

text \<open>Overwriting two disjoint ranges commutes.\<close>

lemma overwrite_disjoint:
  assumes "i + length as \<le> j" and "j + length bs \<le> length xs"
  shows "overwrite i as (overwrite j bs xs) = overwrite j bs (overwrite i as xs)"
proof -
  let ?p = "take i xs" and ?a = "slice i (length as) xs"
    and ?q = "slice (i + length as) (j - (i + length as)) xs" and ?b = "slice j (length bs) xs"
    and ?s = "drop (j + length bs) xs"
  have "xs = ?p @ ?a @ ?q @ ?b @ ?s"
    using assms by (simp add: slice_def) (metis add.commute append_take_drop_id drop_drop
        le_add_diff_inverse)
  moreover have "length ?p = i" "length ?a = length as" "length ?q = j - (i + length as)"
    "length ?b = length bs" using assms by (simp_all add: slice_def)
  ultimately obtain p a q b s where "xs = p @ a @ q @ b @ s" "length p = i"
    "length a = length as" "length q = j - (i + length as)" "length b = length bs" by metis
  with assms(1) show ?thesis by (simp add: overwrite_def)
qed

lemma overwrite_change:
  assumes "i + length bs \<le> length xs" and "overwrite i bs xs \<noteq> xs"
  obtains p as s where "xs = p @ as @ s" "overwrite i bs xs = p @ bs @ s" "length as = length bs" "as \<noteq> bs"
proof
  show "xs = take i xs @ slice i (length bs) xs @ drop (i + length bs) xs"
    by (simp add: slice_def) (metis add.commute append_take_drop_id drop_drop)
  then show "slice i (length bs) xs \<noteq> bs" using assms(2) by (auto simp: overwrite_def)
  show "overwrite i bs xs = take i xs @ bs @ drop (i + length bs) xs" by (simp add: overwrite_def)
  show "length (slice i (length bs) xs) = length bs" using assms(1) by simp
qed


text \<open>The check value of CRC-32 (\<^verbatim>\<open>"123456789"\<close>), and the checksum of an all-zero trade.\<close>

lemma crc_byte_unroll:
  "crc_byte b c = crc_bit (crc_bit (crc_bit (crc_bit (crc_bit (crc_bit (crc_bit (crc_bit
     (c XOR ucast b))))))))"
  by (simp add: crc_byte_def numeral_eq_Suc)

lemmas crc_eval = crc32_ieee_def crc_byte_unroll crc_bit_def

lemma crc32_check_value:
  "crc32_ieee [0x31, 0x32, 0x33, 0x34, 0x35, 0x36, 0x37, 0x38, 0x39] = 0xCBF43926"
  by (simp add: crc_eval)

lemma crc_zero_trade: "compute_record_crc TradeRecord (trade_bytes zero_trade) = 0x758D6336"
proof -
  have "set_rec_crc TradeRecord 0 (trade_bytes zero_trade) =
    [0, 0, 0, 0, 0, 0, 0, 0, 0, 0, 0, 0, 0, 0, 0, 0, 0, 0, 0, 0, 0, 0, 0, 0, 0, 0, 0, 0, 0, 0, 0, 0,
       0, 0, 0, 0, 0, 0, 0, 0, 0, 0, 0, 0, 0, 0, 0, 0, 0, 0, 0, 0, 0, 0, 0, 0, 0, 0, 0, 0, 0, 0, 0, 0]"
    by code_simp
  then show ?thesis by (simp add: compute_record_crc_def crc_eval)
qed

lemma zero_trade_wf [simp]: "trade_wf zero_trade"
  by (simp add: trade_wf_def zero_trade_def)

lemma zero_orderbook_wf [simp]: "orderbook_wf zero_orderbook"
  by (simp add: orderbook_wf_def zero_orderbook_def)


end
