(* ===== verification/File_Roll.thy ===== *)
theory File_Roll
  imports MDS_Types
begin

text \<open>
  Hourly file names and time windows (\<^verbatim>\<open>src/storage/file_roll.h\<close>): \<open>TimeWindow\<close>,
  \<open>hourly_file_name\<close> with the \<^verbatim>\<open>gmtime_r\<close> conversion and the
  \<^verbatim>\<open>snprintf\<close> format it uses, the name test, the window test and the directory
  listing. The lemmas give the closed form of the Gregorian calendar behind the year loop,
  show that for timestamps of the years 1970 to 9999 lexicographic order of the names is the
  order of the UTC hours, and that pruning files by name never loses a record of the window.
\<close>

section \<open>Directories\<close>

text \<open>
  What \<^verbatim>\<open>directory_iterator\<close> enumerates: the entries of one directory, in some order.
\<close>

datatype dir_node = Regular "byte list" | NonRegular

type_synonym directory = "(string \<times> dir_node) list"

section \<open>Time windows\<close>

record time_window =
  from_us :: "int option"
  to_us :: "int option"

definition no_window :: time_window where
  "no_window = \<lparr>from_us = None, to_us = None\<rparr>"

definition window_empty :: "time_window \<Rightarrow> bool" where
  "window_empty tw \<longleftrightarrow> from_us tw = None \<and> to_us tw = None"

definition window_valid :: "time_window \<Rightarrow> bool" where
  "window_valid tw = (case (from_us tw, to_us tw) of (Some a, Some b) \<Rightarrow> \<not> a > b | _ \<Rightarrow> True)"

definition window_contains :: "time_window \<Rightarrow> int \<Rightarrow> bool" where
  "window_contains tw ts =
     (if (case from_us tw of Some a \<Rightarrow> ts < a | None \<Rightarrow> False) then False
      else if (case to_us tw of Some b \<Rightarrow> ts > b | None \<Rightarrow> False) then False
      else True)"

section \<open>UTC calendar\<close>

record tm =
  tm_year :: nat   \<comment> \<open>years since 1900\<close>
  tm_mon :: nat    \<comment> \<open>0 to 11\<close>
  tm_mday :: nat   \<comment> \<open>1 to 31\<close>
  tm_hour :: nat

definition zero_tm :: tm where
  "zero_tm = \<lparr>tm_year = 0, tm_mon = 0, tm_mday = 0, tm_hour = 0\<rparr>"

definition is_leap :: "nat \<Rightarrow> bool" where
  "is_leap y \<longleftrightarrow> 4 dvd y \<and> \<not> 100 dvd y \<or> 400 dvd y"

definition days_in_year :: "nat \<Rightarrow> nat" where
  "days_in_year y = (if is_leap y then 366 else 365)"

definition month_lengths :: "nat \<Rightarrow> nat list" where
  "month_lengths y = [31, if is_leap y then 29 else 28, 31, 30, 31, 30, 31, 31, 30, 31, 30, 31]"

function year_split :: "nat \<Rightarrow> nat \<Rightarrow> nat \<times> nat" where
  "year_split y d = (if d < days_in_year y then (y, d) else year_split (Suc y) (d - days_in_year y))"
  by pat_completeness auto
termination
  by (relation "measure (\<lambda>(y, d). d)") (auto simp: days_in_year_def)

declare year_split.simps [simp del]

fun month_split :: "nat list \<Rightarrow> nat \<Rightarrow> nat \<Rightarrow> nat \<times> nat" where
  "month_split [] m d = (m, d)"
| "month_split (l # ls) m d = (if d < l then (m, d) else month_split ls (Suc m) (d - l))"

text \<open>
  \<^verbatim>\<open>gmtime_r\<close> for a non-negative time: it fails only when the year does not fit the
  \<^verbatim>\<open>int\<close> field \<open>tm_year\<close>.
\<close>

definition gmtime_r :: "nat \<Rightarrow> tm option" where
  "gmtime_r sec =
     (let days = sec div 86400; (y, yd) = year_split 1970 days;
          (m, md) = month_split (month_lengths y) 0 yd
      in if y - 1900 < 2147483648
         then Some \<lparr>tm_year = y - 1900, tm_mon = m, tm_mday = Suc md,
                tm_hour = sec mod 86400 div 3600\<rparr>
         else None)"

section \<open>Hourly file names\<close>

definition hourly_file_name :: "string \<Rightarrow> int \<Rightarrow> string" where
  "hourly_file_name prefix ts_us =
     (let ts_us = (if ts_us < 0 then 0 else ts_us);
          sec = nat (ts_us div 1000000);
          tm = (case gmtime_r sec of Some t \<Rightarrow> t | None \<Rightarrow> zero_tm)
      in take 79 (prefix @ ''_'' @ printf_0d 4 (tm_year tm + 1900) @ printf_0d 2 (tm_mon tm + 1) @
           printf_0d 2 (tm_mday tm) @ ''_'' @ printf_0d 2 (tm_hour tm) @ ''.bin''))"

definition is_hourly_file_name :: "string \<Rightarrow> string \<Rightarrow> bool" where
  "is_hourly_file_name prefix name =
     (let head = prefix @ ''_''; tail = ''.bin'';
          expect = length head + 8 + 1 + 2 + length tail
      in if length name \<noteq> expect then False
         else if take (length head) name \<noteq> head then False
         else if drop (length name - length tail) name \<noteq> tail then False
         else let p = drop (length head) name
              in if \<not> list_all is_digit (take 8 p) then False
                 else if p ! 8 \<noteq> CHR ''_'' then False
                 else is_digit (p ! 9) \<and> is_digit (p ! 10))"

definition hourly_file_in_window :: "string \<Rightarrow> string \<Rightarrow> time_window \<Rightarrow> bool" where
  "hourly_file_in_window prefix name window =
     (if \<not> is_hourly_file_name prefix name then False
      else if (case from_us window of Some a \<Rightarrow> name < hourly_file_name prefix a | None \<Rightarrow> False)
      then False
      else if (case to_us window of Some b \<Rightarrow> name > hourly_file_name prefix b | None \<Rightarrow> False)
      then False
      else True)"

text \<open>\<^const>\<open>None\<close> stands for a path that does not exist or is not a directory.\<close>

definition list_record_files :: "directory option \<Rightarrow> string \<Rightarrow> time_window \<Rightarrow> string list" where
  "list_record_files dir prefix window =
     (case dir of None \<Rightarrow> []
      | Some entries \<Rightarrow>
          sort (map fst (filter (\<lambda>(name, node). node \<noteq> NonRegular
                  \<and> hourly_file_in_window prefix name window) entries)))"

section \<open>The calendar in closed form\<close>

text \<open>Days from the start of year 0 of the proleptic calendar to January 1st of year \<open>y\<close>.\<close>

definition jan1 :: "nat \<Rightarrow> int" where
  "jan1 y = 365 * int y + int ((y + 3) div 4) - int ((y + 99) div 100) + int ((y + 399) div 400)"

lemma div_ceil_step:
  assumes "0 < (k::nat)"
  shows "(x + k) div k = (x + (k - 1)) div k + of_bool (k dvd x)"
proof -
  define q r where "q = x div k" and "r = x mod k"
  have x: "x = k * q + r" and r: "r < k" using assms by (simp_all add: q_def r_def)
  have "(x + (k - 1)) div k = (if r = 0 then q else Suc q)"
    by (rule div_nat_eqI) (use x r in \<open>auto simp: algebra_simps\<close>)
  moreover have "k dvd x \<longleftrightarrow> r = 0" by (simp add: r_def dvd_eq_mod_eq_0)
  moreover have "(x + k) div k = Suc q" using assms by (simp add: q_def div_add_self2)
  ultimately show ?thesis by simp
qed

lemma jan1_Suc: "jan1 (Suc y) = jan1 y + int (days_in_year y)"
proof -
  have "(Suc y + 3) div 4 = (y + 3) div 4 + of_bool (4 dvd y)"
    "(Suc y + 99) div 100 = (y + 99) div 100 + of_bool (100 dvd y)"
    "(Suc y + 399) div 400 = (y + 399) div 400 + of_bool (400 dvd y)"
    using div_ceil_step [of 4 y] div_ceil_step [of 100 y] div_ceil_step [of 400 y] by simp_all
  moreover have "400 dvd y \<Longrightarrow> 100 dvd y" "100 dvd y \<Longrightarrow> 4 dvd y"
    by (rule dvd_trans [rotated], assumption, simp)+
  ultimately show ?thesis
    unfolding jan1_def days_in_year_def is_leap_def by auto
qed

lemma jan1_mono: "a \<le> b \<Longrightarrow> jan1 a \<le> jan1 b"
  by (induction b rule: dec_induct) (auto simp: jan1_Suc)

lemma year_split_jan1:
  "year_split y d = (y', r) \<Longrightarrow> jan1 y + int d = jan1 y' + int r \<and> r < days_in_year y' \<and> y \<le> y'"
proof (induction y d arbitrary: y' r rule: year_split.induct)
  case (1 y d)
  show ?case
  proof (cases "d < days_in_year y")
    case True
    with "1.prems" show ?thesis by (simp add: year_split.simps [of y d])
  next
    case False
    with "1.prems" have "year_split (Suc y) (d - days_in_year y) = (y', r)"
      by (simp add: year_split.simps [of y d])
    from "1.IH" [OF False this] False show ?thesis by (simp add: jan1_Suc)
  qed
qed

lemma year_split_less:
  assumes "year_split y a = (ya, ra)" and "year_split y b = (yb, rb)" and "a < b"
  shows "ya < yb \<or> ya = yb \<and> ra < rb"
proof -
  have a: "jan1 y + int a = jan1 ya + int ra" and b: "jan1 y + int b = jan1 yb + int rb"
    "rb < days_in_year yb" using year_split_jan1 assms(1,2) by blast+
  have "\<not> yb < ya"
  proof
    assume "yb < ya"
    then have "jan1 (Suc yb) \<le> jan1 ya" by (intro jan1_mono) simp
    with a b assms(3) show False by (simp add: jan1_Suc)
  qed
  with a b assms(3) show ?thesis by (cases "ya = yb") auto
qed

lemma month_split_less:
  "month_split ls m a = (ma, ra) \<Longrightarrow> month_split ls m b = (mb, rb) \<Longrightarrow> a < b
    \<Longrightarrow> ma < mb \<or> ma = mb \<and> ra < rb"
  and month_split_ge: "month_split ls m b = (mb, rb) \<Longrightarrow> m \<le> mb"
proof -
  show ge: "month_split ls m b = (mb, rb) \<Longrightarrow> m \<le> mb" for ls m b mb rb
    by (induction ls m b rule: month_split.induct) (auto split: if_splits)
  show "month_split ls m a = (ma, ra) \<Longrightarrow> month_split ls m b = (mb, rb) \<Longrightarrow> a < b
    \<Longrightarrow> ma < mb \<or> ma = mb \<and> ra < rb"
  proof (induction ls m a arbitrary: b rule: month_split.induct)
    case (2 l ls m d)
    show ?case
    proof (cases "d < l")
      case True
      with 2 show ?thesis using ge [of ls "Suc m" "b - l"] by (auto split: if_splits)
    next
      case False
      with 2 show ?thesis by (simp add: diff_less_mono split: if_splits)
    qed
  qed auto
qed

lemma month_split_bounds:
  assumes "month_split ls m d = (m', r)" and "d < sum_list ls"
  shows "m' < m + length ls \<and> r < ls ! (m' - m) \<and> m \<le> m'"
  using assms
proof (induction ls m d rule: month_split.induct)
  case (2 l ls m d)
  show ?case
  proof (cases "d < l")
    case False
    with 2 have "m' < Suc m + length ls \<and> r < ls ! (m' - Suc m) \<and> Suc m \<le> m'" by auto
    moreover from this have "(l # ls) ! (m' - m) = ls ! (m' - Suc m)"
      by (simp add: nth_Cons' Suc_diff_le)
    ultimately show ?thesis by auto
  qed (use 2 in auto)
qed simp

lemma length_month_lengths [simp]: "length (month_lengths y) = 12"
  by (simp add: month_lengths_def)

lemma sum_month_lengths: "sum_list (month_lengths y) = days_in_year y"
  by (simp add: month_lengths_def days_in_year_def)

lemma month_lengths_bound: "i < 12 \<Longrightarrow> month_lengths y ! i \<le> 31"
  by (auto simp: month_lengths_def nth_Cons' less_Suc_eq_le numeral_eq_Suc)

section \<open>File names of the years 1970 to 9999\<close>

text \<open>The first microsecond of the year 10000.\<close>

abbreviation end_of_9999_us :: int where "end_of_9999_us \<equiv> 253402300800000000"

text \<open>The broken-down UTC hour of a non-negative timestamp, and the name it yields.\<close>

definition hour_key :: "int \<Rightarrow> nat \<times> nat \<times> nat \<times> nat" where
  "hour_key ts = (let sec = nat (ts div 1000000); (y, yd) = year_split 1970 (sec div 86400);
      (m, md) = month_split (month_lengths y) 0 yd in (y, Suc m, Suc md, sec mod 86400 div 3600))"

definition key_name :: "nat \<times> nat \<times> nat \<times> nat \<Rightarrow> string" where
  "key_name = (\<lambda>(y, m, d, h). fixdig 4 y @ fixdig 2 m @ fixdig 2 d @ ''_'' @ fixdig 2 h)"

definition key_wf :: "nat \<times> nat \<times> nat \<times> nat \<Rightarrow> bool" where
  "key_wf = (\<lambda>(y, m, d, h). 1970 \<le> y \<and> y < 10000 \<and> m < 100 \<and> d < 100 \<and> h < 100)"

definition key_less :: "nat \<times> nat \<times> nat \<times> nat \<Rightarrow> nat \<times> nat \<times> nat \<times> nat \<Rightarrow> bool" where
  "key_less = (\<lambda>(y, m, d, h) (y', m', d', h').
     y < y' \<or> y = y' \<and> (m < m' \<or> m = m' \<and> (d < d' \<or> d = d' \<and> h < h')))"

lemma key_less_irrefl [simp]: "\<not> key_less k k"
  by (simp add: key_less_def split: prod.split)

lemma key_less_asym: "key_less k l \<Longrightarrow> key_less l k \<Longrightarrow> False"
  by (auto simp: key_less_def split: prod.splits)

lemma hour_key_wf:
  assumes "0 \<le> ts" and "ts < end_of_9999_us"
  shows "key_wf (hour_key ts)"
proof -
  let ?sec = "nat (ts div 1000000)"
  obtain y yd where ys: "year_split 1970 (?sec div 86400) = (y, yd)" by (cases "year_split 1970 (?sec div 86400)")
  obtain m md where ms: "month_split (month_lengths y) 0 yd = (m, md)" by (cases "month_split (month_lengths y) 0 yd")
  have "?sec < 253402300800" using assms by (simp add: nat_less_iff)
  then have days: "?sec div 86400 < 2932897" by simp
  from year_split_jan1 [OF ys] have y: "jan1 1970 + int (?sec div 86400) = jan1 y + int yd"
    "yd < days_in_year y" "1970 \<le> y" by auto
  have "y < 10000"
  proof (rule ccontr)
    assume "\<not> y < 10000"
    then have "jan1 10000 \<le> jan1 y" by (intro jan1_mono) simp
    moreover have "jan1 1970 + 2932897 = jan1 10000" by (simp add: jan1_def)
    ultimately show False using y(1) days by linarith
  qed
  moreover have "m < 12" "md < 31"
    using month_split_bounds [OF ms] y(2) month_lengths_bound [of m y]
    by (auto simp: sum_month_lengths)
  moreover have "?sec mod 86400 div 3600 < 24" by (simp add: less_mult_imp_div_less)
  ultimately show ?thesis using y(3) by (simp add: hour_key_def key_wf_def ys ms)
qed

lemma hourly_file_name_key:
  assumes "0 \<le> ts" and "ts < end_of_9999_us" and "length prefix \<le> 60"
  shows "hourly_file_name prefix ts = prefix @ ''_'' @ key_name (hour_key ts) @ ''.bin''"
proof -
  let ?sec = "nat (ts div 1000000)"
  obtain y yd where ys: "year_split 1970 (?sec div 86400) = (y, yd)" by (cases "year_split 1970 (?sec div 86400)")
  obtain m md where ms: "month_split (month_lengths y) 0 yd = (m, md)" by (cases "month_split (month_lengths y) 0 yd")
  have wf: "1970 \<le> y" "y < 10000" "Suc m < 100" "Suc md < 100" "?sec mod 86400 div 3600 < 100"
    using hour_key_wf [OF assms(1,2)] by (simp_all add: hour_key_def key_wf_def ys ms)
  then have "gmtime_r ?sec = Some \<lparr>tm_year = y - 1900, tm_mon = m, tm_mday = Suc md,
      tm_hour = ?sec mod 86400 div 3600\<rparr>"
    by (simp add: gmtime_r_def ys ms)
  with wf assms(1,3) show ?thesis
    by (simp add: hourly_file_name_def hour_key_def key_name_def ys ms printf_0d_eq Let_def)
qed

lemma length_key_name [simp]: "length (key_name key) = 11"
  by (simp add: key_name_def split: prod.split)

lemma key_name_less:
  "key_wf a \<Longrightarrow> key_wf b \<Longrightarrow> key_name a < key_name b \<longleftrightarrow> key_less a b"
  by (auto simp: key_wf_def key_less_def key_name_def append_less_append fixdig_less fixdig_inject
      split: prod.splits)

lemma key_name_inject: "key_wf a \<Longrightarrow> key_wf b \<Longrightarrow> key_name a = key_name b \<longleftrightarrow> a = b"
  by (auto simp: key_wf_def key_name_def fixdig_inject split: prod.splits)

text \<open>The number of the UTC hour since the epoch.\<close>

definition hour_index :: "int \<Rightarrow> nat" where
  "hour_index ts = nat (ts div 3600000000)"

lemma hour_key_index:
  assumes "0 \<le> ts"
  shows "hour_key ts = (let h = hour_index ts; (y, yd) = year_split 1970 (h div 24);
      (m, md) = month_split (month_lengths y) 0 yd in (y, Suc m, Suc md, h mod 24))"
proof -
  let ?sec = "nat (ts div 1000000)"
  have "ts div 3600000000 = (ts div 1000000) div 3600" by (simp add: zdiv_zmult2_eq [symmetric])
  then have h: "hour_index ts = ?sec div 3600"
    using assms by (simp add: hour_index_def nat_div_distrib pos_imp_zdiv_nonneg_iff)
  have "?sec div 86400 = hour_index ts div 24" by (simp add: h div_mult2_eq [symmetric])
  moreover have "?sec mod 86400 div 3600 = hour_index ts mod 24"
    using mod_mult2_eq [of ?sec 3600 24] by (simp add: h)
  ultimately show ?thesis by (simp add: hour_key_def Let_def)
qed

lemma hour_key_less:
  assumes "0 \<le> a" and "0 \<le> b" and "hour_index a < hour_index b"
  shows "key_less (hour_key a) (hour_key b)"
proof -
  let ?h = "hour_index a" and ?k = "hour_index b"
  obtain ya ra where ya: "year_split 1970 (?h div 24) = (ya, ra)" by force
  obtain yb rb where yb: "year_split 1970 (?k div 24) = (yb, rb)" by force
  obtain ma da where ma: "month_split (month_lengths ya) 0 ra = (ma, da)" by force
  obtain mb db where mb: "month_split (month_lengths yb) 0 rb = (mb, db)" by force
  have keys: "hour_key a = (ya, Suc ma, Suc da, ?h mod 24)" "hour_key b = (yb, Suc mb, Suc db, ?k mod 24)"
    using assms(1,2) by (simp_all add: hour_key_index ya ma yb mb)
  consider "?h div 24 < ?k div 24" | "?h div 24 = ?k div 24" "?h mod 24 < ?k mod 24"
  proof -
    have "?h = 24 * (?h div 24) + ?h mod 24" "?k = 24 * (?k div 24) + ?k mod 24"
      "?h mod 24 < 24" "?k mod 24 < 24" by simp_all
    then have "?h div 24 < ?k div 24 \<or> ?h div 24 = ?k div 24 \<and> ?h mod 24 < ?k mod 24"
      using assms(3) by linarith
    then show thesis using that by blast
  qed
  then show ?thesis
  proof cases
    case 1
    from year_split_less [OF ya yb 1] consider "ya < yb" | "ya = yb" "ra < rb" by blast
    then show ?thesis
    proof cases
      case 2
      with month_split_less [OF ma, of rb mb db] mb show ?thesis by (auto simp: keys key_less_def)
    qed (simp add: keys key_less_def)
  next
    case 2
    with ya yb have "ya = yb" "ra = rb" by simp_all
    with ma mb 2(2) show ?thesis by (simp add: keys key_less_def)
  qed
qed

lemma hour_key_eq: "0 \<le> a \<Longrightarrow> 0 \<le> b \<Longrightarrow> hour_index a = hour_index b \<Longrightarrow> hour_key a = hour_key b"
  by (simp add: hour_key_index)

lemma hourly_name_less:
  assumes "0 \<le> a" "a < end_of_9999_us" "0 \<le> b" "b < end_of_9999_us" "length prefix \<le> 60"
  shows "hourly_file_name prefix a < hourly_file_name prefix b \<longleftrightarrow> hour_index a < hour_index b"
proof -
  have ka: "key_wf (hour_key a)" and kb: "key_wf (hour_key b)"
    using assms hour_key_wf by simp_all
  have "hourly_file_name prefix a < hourly_file_name prefix b \<longleftrightarrow> key_less (hour_key a) (hour_key b)"
    using assms ka kb by (simp add: hourly_file_name_key append_less_append key_name_less)
  also have "\<dots> \<longleftrightarrow> hour_index a < hour_index b"
  proof (rule iffI)
    assume less: "key_less (hour_key a) (hour_key b)"
    show "hour_index a < hour_index b"
    proof (rule ccontr)
      assume "\<not> hour_index a < hour_index b"
      then consider "hour_index b < hour_index a" | "hour_index a = hour_index b" by linarith
      then show False
      proof cases
        case 1
        with hour_key_less assms(1,3) have "key_less (hour_key b) (hour_key a)" by blast
        with less show False by (rule key_less_asym)
      next
        case 2
        then have "hour_key a = hour_key b" using hour_key_eq assms(1,3) by blast
        with less show False by simp
      qed
    qed
  qed (use hour_key_less assms(1,3) in blast)
  finally show ?thesis .
qed

lemma hourly_name_eq:
  assumes "0 \<le> a" "a < end_of_9999_us" "0 \<le> b" "b < end_of_9999_us" "length prefix \<le> 60"
  shows "hourly_file_name prefix a = hourly_file_name prefix b \<longleftrightarrow> hour_index a = hour_index b"
proof
  assume "hourly_file_name prefix a = hourly_file_name prefix b"
  then have "\<not> hour_index a < hour_index b" "\<not> hour_index b < hour_index a"
    using hourly_name_less [OF assms] hourly_name_less [OF assms(3,4,1,2,5)] by simp_all
  then show "hour_index a = hour_index b" by simp
next
  assume "hour_index a = hour_index b"
  then show "hourly_file_name prefix a = hourly_file_name prefix b"
    using assms by (simp add: hourly_file_name_key hour_key_eq [of a b])
qed

lemma hour_index_mono: "0 \<le> a \<Longrightarrow> a \<le> b \<Longrightarrow> hour_index a \<le> hour_index b"
  by (simp add: hour_index_def zdiv_mono1 nat_mono)

lemma hourly_name_mono:
  assumes "0 \<le> a" "a \<le> b" "b < end_of_9999_us" "length prefix \<le> 60"
  shows "hourly_file_name prefix a \<le> hourly_file_name prefix b"
  using hourly_name_less [of b a prefix] hour_index_mono [OF assms(1,2)] assms by (simp add: not_less [symmetric])

lemma is_hourly_hourly_name:
  assumes "0 \<le> ts" "ts < end_of_9999_us" "length prefix \<le> 60"
  shows "is_hourly_file_name prefix (hourly_file_name prefix ts)"
proof -
  obtain y m d h where k: "hour_key ts = (y, m, d, h)" by (cases "hour_key ts")
  have digits: "list_all is_digit (fixdig w n)" for w n
    by (auto simp: list_all_iff dest: fixdig_digits)
  have two: "is_digit (fixdig 2 h ! 0)" "is_digit (fixdig 2 h ! 1)"
    using digits [of 2 h] by (simp_all add: list_all_length)
  show ?thesis
    using assms two digits
    by (simp add: is_hourly_file_name_def hourly_file_name_key k key_name_def Let_def nth_append
        nth_Cons')
qed

lemma hourly_file_name_neg: "ts < 0 \<Longrightarrow> hourly_file_name prefix ts = hourly_file_name prefix 0"
  by (simp add: hourly_file_name_def)

lemma length_prefix [simp]: "length (rec_file_prefix k) \<le> 60"
  by (cases k) simp_all

lemma hour_name_in_window:
  assumes "0 \<le> ts" "ts < end_of_9999_us" and "window_contains tw ts"
    and "\<forall>b. to_us tw = Some b \<longrightarrow> b < end_of_9999_us"
  shows "hourly_file_in_window (rec_file_prefix k) (hourly_file_name (rec_file_prefix k) ts) tw"
proof -
  let ?n = "hourly_file_name (rec_file_prefix k)"
  have lower: "\<not> ?n ts < ?n a" if "a \<le> ts" for a
  proof (cases "a < 0")
    case True
    then have "?n a \<le> ?n ts"
      using hourly_name_mono [of 0 ts] assms(1,2) by (simp add: hourly_file_name_neg)
    then show ?thesis by simp
  next
    case False
    then show ?thesis using hourly_name_mono [of a ts "rec_file_prefix k"] that assms(2) by simp
  qed
  have upper: "\<not> ?n b < ?n ts" if "to_us tw = Some b" "ts \<le> b" for b
    using hourly_name_mono [of ts b "rec_file_prefix k"] that assms(1,4) by simp
  show ?thesis
    using assms(3) lower upper is_hourly_hourly_name [OF assms(1,2), of "rec_file_prefix k"]
    by (auto simp: hourly_file_in_window_def window_contains_def split: option.splits if_splits)
qed

lemma list_record_files_facts:
  assumes "distinct (map fst entries)"
  shows "sorted (list_record_files (Some entries) prefix tw)"
    and "distinct (list_record_files (Some entries) prefix tw)"
    and "name \<in> set (list_record_files (Some entries) prefix tw) \<longleftrightarrow>
          (\<exists>content. map_of entries name = Some (Regular content)) \<and> hourly_file_in_window prefix name tw"
proof -
  show "sorted (list_record_files (Some entries) prefix tw)"
    by (simp add: list_record_files_def)
  show "distinct (list_record_files (Some entries) prefix tw)"
    using assms by (simp add: list_record_files_def distinct_map_filter)
  have "map_of entries name = Some node \<longleftrightarrow> (name, node) \<in> set entries" for node
    using assms by simp
  moreover have "node \<noteq> NonRegular \<longleftrightarrow> (\<exists>content. node = Regular content)" for node
    by (cases node) simp_all
  moreover have "name \<in> set (list_record_files (Some entries) prefix tw) \<longleftrightarrow>
      (\<exists>node. (name, node) \<in> set entries \<and> node \<noteq> NonRegular) \<and> hourly_file_in_window prefix name tw"
    by (force simp: list_record_files_def image_iff)
  ultimately show "name \<in> set (list_record_files (Some entries) prefix tw) \<longleftrightarrow>
      (\<exists>content. map_of entries name = Some (Regular content)) \<and> hourly_file_in_window prefix name tw"
    by metis
qed

section \<open>Properties\<close>

text \<open>hourly file names are in chronological order. For receive timestamps from 1970 to the end
  of 9999, the lexicographic order of two hourly names is the order of their UTC hours, two
  timestamps share a name exactly when they fall into the same hour, and every generated name
  is recognised by \<open>is_hourly_file_name\<close>.
\<close>

theorem hourly_names_chronological:
  assumes "0 \<le> a" "a < end_of_9999_us" "0 \<le> b" "b < end_of_9999_us"
  shows "(hourly_file_name (rec_file_prefix k) a < hourly_file_name (rec_file_prefix k) b
            \<longleftrightarrow> a div 3600000000 < b div 3600000000)
       \<and> (hourly_file_name (rec_file_prefix k) a = hourly_file_name (rec_file_prefix k) b
            \<longleftrightarrow> a div 3600000000 = b div 3600000000)
       \<and> is_hourly_file_name (rec_file_prefix k) (hourly_file_name (rec_file_prefix k) a)"
proof -
  have "hour_index a < hour_index b \<longleftrightarrow> a div 3600000000 < b div 3600000000"
    "hour_index a = hour_index b \<longleftrightarrow> a div 3600000000 = b div 3600000000"
    using assms by (auto simp: hour_index_def nat_less_eq_zless pos_imp_zdiv_nonneg_iff eq_nat_nat_iff)
  then show ?thesis
    using hourly_name_less [OF assms] hourly_name_eq [OF assms] is_hourly_hourly_name [OF assms(1,2)]
    by simp
qed

theorem hourly_names_chronological_witness:
  "hourly_file_name (rec_file_prefix TradeRecord) 3599999999
     < hourly_file_name (rec_file_prefix TradeRecord) 3600000000"
  using hourly_names_chronological [of 3599999999 3600000000 TradeRecord] by simp

text \<open>(C25) pruning by file name keeps every record of the window. If a timestamp up to the end of 9999
  lies in a window whose upper bound, if any, does too, then the hourly file a record with that
  timestamp is stored in passes \<open>hourly_file_in_window\<close>.
\<close>

theorem window_pruning_sound:
  assumes "0 \<le> ts" "ts < end_of_9999_us" and "window_contains tw ts"
    and "\<forall>b. to_us tw = Some b \<longrightarrow> b < end_of_9999_us"
  shows "hourly_file_in_window (rec_file_prefix k) (hourly_file_name (rec_file_prefix k) ts) tw"
  using assms by (rule hour_name_in_window)

theorem window_pruning_sound_witness:
  "hourly_file_in_window (rec_file_prefix TradeRecord)
     (hourly_file_name (rec_file_prefix TradeRecord) 5000000000)
     \<lparr>from_us = Some 4999999999, to_us = Some 5000000000\<rparr>"
  by (rule window_pruning_sound) (simp_all add: window_contains_def)

text \<open>the listing of a directory is exactly the sorted hourly files of the window: sorted,
  without repetition, and holding a name iff the directory has a regular file of that name
  that passes the window test.
\<close>

theorem list_record_files_exact:
  assumes "distinct (map fst entries)"
  shows "sorted (list_record_files (Some entries) prefix tw)
    \<and> distinct (list_record_files (Some entries) prefix tw)
    \<and> (\<forall>name. name \<in> set (list_record_files (Some entries) prefix tw) \<longleftrightarrow>
          (\<exists>content. map_of entries name = Some (Regular content))
          \<and> hourly_file_in_window prefix name tw)"
  using list_record_files_facts [OF assms] by blast

theorem list_record_files_exact_witness:
  "sorted (list_record_files (Some [(''noise.txt'', Regular []), (''trades_20260728_14.bin'', Regular [])])
     ''trades'' no_window)"
  using list_record_files_exact
    [of "[(''noise.txt'', Regular []), (''trades_20260728_14.bin'', Regular [])]" "''trades''" no_window]
  by simp

text \<open>A concrete timestamp: 28 July 2026, 15:00 UTC.\<close>

lemma year_split_eqI:
  assumes "jan1 y + int d = jan1 z + int r" and "r < days_in_year z"
  shows "y \<le> z \<Longrightarrow> year_split y d = (z, r)"
proof -
  obtain z' r' where s: "year_split y d = (z', r')" by force
  from year_split_jan1 [OF this] have z': "jan1 y + int d = jan1 z' + int r'" "r' < days_in_year z'"
    by simp_all
  have "z = z'"
  proof (rule ccontr)
    assume "z \<noteq> z'"
    then have "jan1 (Suc z) \<le> jan1 z' \<or> jan1 (Suc z') \<le> jan1 z"
      using jan1_mono [of "Suc z" z'] jan1_mono [of "Suc z'" z] by linarith
    with assms z' show False by (simp add: jan1_Suc)
  qed
  with s assms z' show ?thesis by simp
qed

lemma year_split_2026: "year_split 1970 20662 = (2026, 208)"
  by (rule year_split_eqI) (simp_all add: jan1_def days_in_year_def is_leap_def)

lemma month_split_2026: "month_split (month_lengths 2026) 0 208 = (6, 27)"
  by (simp add: month_lengths_def is_leap_def)

lemma fixdig_unroll:
  "fixdig 2 n = [digit_char (n div 10 mod 10), digit_char (n mod 10)]"
  "fixdig 4 n = [digit_char (n div 10 div 10 div 10 mod 10), digit_char (n div 10 div 10 mod 10),
     digit_char (n div 10 mod 10), digit_char (n mod 10)]"
proof -
  have "(2::nat) = Suc (Suc 0)" "(4::nat) = Suc (Suc (Suc (Suc 0)))" by simp_all
  then show "fixdig 2 n = [digit_char (n div 10 mod 10), digit_char (n mod 10)]"
    "fixdig 4 n = [digit_char (n div 10 div 10 div 10 mod 10), digit_char (n div 10 div 10 mod 10),
       digit_char (n div 10 mod 10), digit_char (n mod 10)]"
    by (simp_all only: fixdig.simps append.simps)
qed

lemma hourly_file_name_example:
  "hourly_file_name ''trades'' 1785250800000000 = ''trades_20260728_15.bin''"
proof -
  have "hour_key 1785250800000000 = (2026, 7, 28, 15)"
    by (simp add: hour_key_def year_split_2026 month_split_2026)
  moreover have "key_name (2026, 7, 28, 15) = ''20260728_15''"
    by (simp add: key_name_def fixdig_unroll digit_char_eval)
  ultimately show ?thesis using hourly_file_name_key [of 1785250800000000 "''trades''"] by simp
qed

end
