(* ===== verification/File_System.thy ===== *)
theory File_System
  imports File_Roll
begin

text \<open>
  The environment the storage code runs in: directories of files, file streams and the system
  clock. Every stream or file-system call that can fail consults the fault oracle
  \<open>w_fault\<close> of the world with its kind and the number of the call: \<^const>\<open>None\<close>
  means that it succeeds and \<open>Some n\<close> that it fails, for a write after \<open>n\<close> bytes. The put area of a
  stream is written through, so a file always shows what its stream has accepted; reads
  deliver the bytes the file holds.
\<close>

datatype io_op = Io_mkdir | Io_exists | Io_size | Io_resize | Io_open | Io_write | Io_seek | Io_flush | Io_close

record world =
  w_dirs :: "string \<rightharpoonup> directory"
  w_fault :: "io_op \<Rightarrow> nat \<Rightarrow> nat option"
  w_tick :: nat                 \<comment> \<open>number of the next call\<close>
  w_clock :: "nat \<Rightarrow> int"        \<comment> \<open>readings of \<open>system_clock\<close> in microseconds\<close>
  w_reading :: nat              \<comment> \<open>number of the next reading\<close>

definition io_fault :: "io_op \<Rightarrow> world \<Rightarrow> nat option" where
  "io_fault oper w = w_fault w oper (w_tick w)"

definition io_tick :: "world \<Rightarrow> world" where
  "io_tick w = w\<lparr>w_tick := Suc (w_tick w)\<rparr>"

definition wall_us_now :: "world \<Rightarrow> world \<times> int" where
  "wall_us_now w = (w\<lparr>w_reading := Suc (w_reading w)\<rparr>, w_clock w (w_reading w))"

definition no_faults :: "world \<Rightarrow> bool" where
  "no_faults w \<longleftrightarrow> (\<forall>oper n. w_fault w oper n = None)"

section \<open>Files\<close>

definition get_node :: "world \<Rightarrow> string \<Rightarrow> string \<Rightarrow> dir_node option" where
  "get_node w dir name = (case w_dirs w dir of None \<Rightarrow> None | Some es \<Rightarrow> map_of es name)"

definition get_file :: "world \<Rightarrow> string \<Rightarrow> string \<Rightarrow> byte list option" where
  "get_file w dir name =
     (case get_node w dir name of Some (Regular c) \<Rightarrow> Some c | _ \<Rightarrow> None)"

definition put_file :: "world \<Rightarrow> string \<Rightarrow> string \<Rightarrow> byte list \<Rightarrow> world" where
  "put_file w dir name c =
     (case w_dirs w dir of None \<Rightarrow> w
      | Some es \<Rightarrow> w\<lparr>w_dirs := (w_dirs w)(dir \<mapsto> AList.update name (Regular c) es)\<rparr>)"

text \<open>\<^verbatim>\<open>exists\<close> with an error code reports \<open>false\<close> when the query fails.\<close>

definition path_exists :: "world \<Rightarrow> string \<Rightarrow> string \<Rightarrow> world \<times> bool" where
  "path_exists w dir name = (io_tick w, io_fault Io_exists w = None \<and> get_node w dir name \<noteq> None)"

text \<open>\<^verbatim>\<open>file_size\<close>: \<^const>\<open>None\<close> when the error code is set.\<close>

definition file_size :: "world \<Rightarrow> string \<Rightarrow> string \<Rightarrow> world \<times> nat option" where
  "file_size w dir name =
     (io_tick w, if io_fault Io_size w = None then map_option length (get_file w dir name) else None)"

text \<open>\<^verbatim>\<open>create_directories\<close>: the flag tells whether the error code is clear.\<close>

definition create_directories :: "world \<Rightarrow> string \<Rightarrow> world \<times> bool" where
  "create_directories w dir =
     (case io_fault Io_mkdir w of
        Some _ \<Rightarrow> (io_tick w, False)
      | None \<Rightarrow> (case w_dirs w dir of
          Some _ \<Rightarrow> (io_tick w, True)
        | None \<Rightarrow> ((io_tick w)\<lparr>w_dirs := (w_dirs w)(dir \<mapsto> [])\<rparr>, True)))"

text \<open>\<^verbatim>\<open>resize_file\<close> to a smaller size.\<close>

definition resize_file :: "world \<Rightarrow> string \<Rightarrow> string \<Rightarrow> nat \<Rightarrow> world \<times> bool" where
  "resize_file w dir name n =
     (case io_fault Io_resize w of
        Some _ \<Rightarrow> (io_tick w, False)
      | None \<Rightarrow> (case get_file w dir name of
          Some c \<Rightarrow> (put_file (io_tick w) dir name (take n c), True)
        | None \<Rightarrow> (io_tick w, False)))"

section \<open>Streams\<close>

record fstream =
  fs_dir :: string
  fs_name :: string
  fs_pos :: nat
  fs_bad :: bool

text \<open>Opening an existing file for reading and writing; the put position is the start.\<close>

definition open_inout :: "world \<Rightarrow> string \<Rightarrow> string \<Rightarrow> world \<times> fstream option" where
  "open_inout w dir name =
     (case io_fault Io_open w of
        Some _ \<Rightarrow> (io_tick w, None)
      | None \<Rightarrow> (case get_file w dir name of
          None \<Rightarrow> (io_tick w, None)
        | Some _ \<Rightarrow> (io_tick w, Some \<lparr>fs_dir = dir, fs_name = name, fs_pos = 0, fs_bad = False\<rparr>)))"

text \<open>Opening with \<^verbatim>\<open>out | trunc\<close>: the file is created or emptied.\<close>

definition open_trunc :: "world \<Rightarrow> string \<Rightarrow> string \<Rightarrow> world \<times> fstream option" where
  "open_trunc w dir name =
     (case io_fault Io_open w of
        Some _ \<Rightarrow> (io_tick w, None)
      | None \<Rightarrow> if w_dirs w dir = None \<or> get_node w dir name = Some NonRegular then (io_tick w, None)
          else (put_file (io_tick w) dir name [],
                Some \<lparr>fs_dir = dir, fs_name = name, fs_pos = 0, fs_bad = False\<rparr>))"

definition stream_content :: "world \<Rightarrow> fstream \<Rightarrow> byte list" where
  "stream_content w f = (case get_file w (fs_dir f) (fs_name f) of Some c \<Rightarrow> c | None \<Rightarrow> [])"

definition stream_write :: "world \<Rightarrow> fstream \<Rightarrow> byte list \<Rightarrow> world \<times> fstream" where
  "stream_write w f bs =
     (if fs_bad f then (w, f)
      else let sent = (case io_fault Io_write w of None \<Rightarrow> bs | Some n \<Rightarrow> take n bs)
           in (put_file (io_tick w) (fs_dir f) (fs_name f)
                 (overwrite (fs_pos f) sent (stream_content w f)),
               f\<lparr>fs_pos := fs_pos f + length sent, fs_bad := (io_fault Io_write w \<noteq> None)\<rparr>))"

definition stream_seekp :: "world \<Rightarrow> fstream \<Rightarrow> nat option \<Rightarrow> world \<times> fstream" where
  "stream_seekp w f p =
     (if fs_bad f then (w, f)
      else case p of
        None \<Rightarrow> (w, f\<lparr>fs_bad := True\<rparr>)
      | Some n \<Rightarrow> (if io_fault Io_seek w = None then (io_tick w, f\<lparr>fs_pos := n\<rparr>)
                   else (io_tick w, f\<lparr>fs_bad := True\<rparr>)))"

text \<open>\<^verbatim>\<open>tellp\<close> is \<open>-1\<close>, here \<^const>\<open>None\<close>, on a failed stream.\<close>

definition stream_tellp :: "fstream \<Rightarrow> nat option" where
  "stream_tellp f = (if fs_bad f then None else Some (fs_pos f))"

definition stream_clear :: "fstream \<Rightarrow> fstream" where
  "stream_clear f = f\<lparr>fs_bad := False\<rparr>"

definition stream_flush :: "world \<Rightarrow> fstream \<Rightarrow> world \<times> fstream" where
  "stream_flush w f =
     (if fs_bad f then (w, f) else (io_tick w, f\<lparr>fs_bad := (io_fault Io_flush w \<noteq> None)\<rparr>))"

text \<open>\<^verbatim>\<open>close\<close>: the flag is \<open>fail()\<close> of the closed stream.\<close>

definition stream_close :: "world \<Rightarrow> fstream \<Rightarrow> world \<times> bool" where
  "stream_close w f = (io_tick w, fs_bad f \<or> io_fault Io_close w \<noteq> None)"

section \<open>Laws\<close>

lemma io_fault_no_faults [io_simps]: "no_faults w \<Longrightarrow> io_fault oper w = None"
  by (simp add: no_faults_def io_fault_def)

lemma no_faults_tick [simp]: "no_faults (io_tick w) = no_faults w"
  by (simp add: no_faults_def io_tick_def)

lemma no_faults_put [simp]: "no_faults (put_file w dir name c) = no_faults w"
  by (simp add: no_faults_def put_file_def split: option.split)

lemma w_dirs_tick [simp]: "w_dirs (io_tick w) = w_dirs w"
  by (simp add: io_tick_def)

lemma get_node_tick [simp]: "get_node (io_tick w) d n = get_node w d n"
  by (simp add: get_node_def)

lemma get_file_tick [simp]: "get_file (io_tick w) d n = get_file w d n"
  by (simp add: get_file_def)

lemma dir_of_get_file: "get_file w d n = Some c \<Longrightarrow> w_dirs w d \<noteq> None"
  by (auto simp: get_file_def get_node_def split: option.splits)

lemma get_node_put:
  "w_dirs w dir \<noteq> None \<Longrightarrow> get_node (put_file w dir name c) d n =
     (if d = dir \<and> n = name then Some (Regular c) else get_node w d n)"
  by (auto simp: get_node_def put_file_def update_conv' split: option.splits)

lemma get_file_put:
  "w_dirs w dir \<noteq> None \<Longrightarrow> get_file (put_file w dir name c) d n =
     (if d = dir \<and> n = name then Some c else get_file w d n)"
  by (simp add: get_file_def get_node_put)

lemma w_dirs_put_None [simp]: "w_dirs (put_file w dir name c) d = None \<longleftrightarrow> w_dirs w d = None"
  by (auto simp: put_file_def split: option.splits)

text \<open>The file store: what a stream's client relies on, as the laws of an updatable map.\<close>

locale file_store =
  fixes lookup_file :: "world \<Rightarrow> string \<Rightarrow> string \<Rightarrow> byte list option"
    and store_file :: "world \<Rightarrow> string \<Rightarrow> string \<Rightarrow> byte list \<Rightarrow> world"
    and has_dir :: "world \<Rightarrow> string \<Rightarrow> bool"
  assumes lookup_store_same: "has_dir w d \<Longrightarrow> lookup_file (store_file w d n c) d n = Some c"
    and lookup_store_other: "(d', n') \<noteq> (d, n) \<Longrightarrow> lookup_file (store_file w d n c) d' n' = lookup_file w d' n'"
    and has_dir_store: "has_dir (store_file w d n c) d' = has_dir w d'"
begin

lemma lookup_store_twice:
  "has_dir w d \<Longrightarrow> lookup_file (store_file (store_file w d n c) d n c') d' n'
     = lookup_file (store_file w d n c') d' n'"
  by (cases "(d', n') = (d, n)") (simp_all add: lookup_store_same lookup_store_other has_dir_store)

end

interpretation fs: file_store get_file put_file "\<lambda>w d. w_dirs w d \<noteq> None"
proof
  fix w d n c d' n'
  show "(d', n') \<noteq> (d, n) \<Longrightarrow> get_file (put_file w d n c) d' n' = get_file w d' n'"
  proof (cases "w_dirs w d")
    case None
    then show ?thesis by (simp add: put_file_def)
  qed (auto simp: get_file_put)
qed (simp_all add: get_file_put)

text \<open>Which names a directory holds, and that names stay distinct.\<close>

definition distinct_names :: "world \<Rightarrow> string \<Rightarrow> bool" where
  "distinct_names w dir = (case w_dirs w dir of None \<Rightarrow> True | Some es \<Rightarrow> distinct (map fst es))"

lemma distinct_names_put [simp]: "distinct_names w d \<Longrightarrow> distinct_names (put_file w dir n c) d"
  by (auto simp: distinct_names_def put_file_def distinct_update split: option.splits)

lemma distinct_names_tick [simp]: "distinct_names (io_tick w) d = distinct_names w d"
  by (simp add: distinct_names_def)

section \<open>Frame conditions\<close>

text \<open>
  \<open>touches w w' d n\<close>: the step from \<open>w\<close> to \<open>w'\<close> changes no file but \<open>n\<close> in
  directory \<open>d\<close>, and neither the clock nor the fault oracle.
\<close>

definition touches :: "world \<Rightarrow> world \<Rightarrow> string \<Rightarrow> string \<Rightarrow> bool" where
  "touches w w' d n \<longleftrightarrow> (\<forall>d' n'. (d', n') \<noteq> (d, n) \<longrightarrow> get_node w' d' n' = get_node w d' n')
     \<and> (\<forall>d'. w_dirs w' d' = None \<longleftrightarrow> w_dirs w d' = None)
     \<and> (\<forall>d'. distinct_names w d' \<longrightarrow> distinct_names w' d')
     \<and> w_fault w' = w_fault w \<and> w_clock w' = w_clock w \<and> w_reading w' = w_reading w"

lemma touches_refl [simp, intro]: "touches w w d n"
  by (simp add: touches_def)

lemma touches_trans: "touches w w' d n \<Longrightarrow> touches w' w'' d n \<Longrightarrow> touches w w'' d n"
  by (simp add: touches_def)

lemma touches_tick [simp, intro]: "touches w (io_tick w) d n"
  by (simp add: touches_def io_tick_def get_node_def distinct_names_def)

lemma touches_tick_iff [simp]:
  "touches w (io_tick w') d n = touches w w' d n" "touches (io_tick w) w' d n = touches w w' d n"
  by (simp_all add: touches_def io_tick_def get_node_def distinct_names_def)

lemma touches_put [simp, intro]: "touches w (put_file w d n c) d n"
proof (cases "w_dirs w d")
  case None
  then show ?thesis by (simp add: put_file_def)
next
  case (Some es)
  then have "w_dirs w d \<noteq> None" by simp
  moreover from Some have "w_fault (put_file w d n c) = w_fault w"
    "w_clock (put_file w d n c) = w_clock w" "w_reading (put_file w d n c) = w_reading w"
    by (simp_all add: put_file_def)
  ultimately show ?thesis by (simp add: touches_def get_node_put)
qed

lemma touches_put_tick [simp, intro]: "touches w (put_file (io_tick w) d n c) d n"
  by (rule touches_trans [OF touches_tick touches_put])

lemma touches_get_file:
  "touches w w' d n \<Longrightarrow> (d', n') \<noteq> (d, n) \<Longrightarrow> get_file w' d' n' = get_file w d' n'"
  unfolding touches_def get_file_def by presburger

lemma touches_no_faults: "touches w w' d n \<Longrightarrow> no_faults w' = no_faults w"
  by (simp add: touches_def no_faults_def)

lemma touches_stream_write: "stream_write w f bs = (w', f') \<Longrightarrow> touches w w' (fs_dir f) (fs_name f)"
  by (auto simp: stream_write_def Let_def split: if_splits)

lemma touches_stream_seekp: "stream_seekp w f p = (w', f') \<Longrightarrow> touches w w' d n"
  by (auto simp: stream_seekp_def split: if_splits option.splits)

lemma touches_stream_flush: "stream_flush w f = (w', f') \<Longrightarrow> touches w w' d n"
  by (auto simp: stream_flush_def split: if_splits)

lemma touches_stream_close: "stream_close w f = (w', b) \<Longrightarrow> touches w w' d n"
  by (auto simp: stream_close_def)

lemma touches_open_inout: "open_inout w dir name = (w', f) \<Longrightarrow> touches w w' d n"
  by (auto simp: open_inout_def split: option.splits)

lemma touches_open_trunc: "open_trunc w d n = (w', f) \<Longrightarrow> touches w w' d n"
  by (auto simp: open_trunc_def split: option.splits if_splits)

lemma touches_resize_file: "resize_file w d n s = (w', b) \<Longrightarrow> touches w w' d n"
  by (auto simp: resize_file_def split: option.splits)

lemma stream_same_file:
  "stream_write w f bs = (w', f') \<Longrightarrow> fs_dir f' = fs_dir f \<and> fs_name f' = fs_name f"
  "stream_seekp w f p = (w', f') \<Longrightarrow> fs_dir f' = fs_dir f \<and> fs_name f' = fs_name f"
  "stream_flush w f = (w', f') \<Longrightarrow> fs_dir f' = fs_dir f \<and> fs_name f' = fs_name f"
  by (auto simp: stream_write_def stream_seekp_def stream_flush_def Let_def split: if_splits option.splits)

lemma open_inout_Some:
  "open_inout w dir name = (w', Some f) \<Longrightarrow>
     f = \<lparr>fs_dir = dir, fs_name = name, fs_pos = 0, fs_bad = False\<rparr> \<and> w' = io_tick w
     \<and> (\<exists>c. get_file w dir name = Some c)"
  by (auto simp: open_inout_def split: option.splits)

lemma open_inout_ok:
  "no_faults w \<Longrightarrow> get_file w dir name = Some c \<Longrightarrow>
     open_inout w dir name = (io_tick w, Some \<lparr>fs_dir = dir, fs_name = name, fs_pos = 0, fs_bad = False\<rparr>)"
  by (simp add: open_inout_def io_simps)

end
