(* ===== verification/Record_Repair.thy ===== *)
theory Record_Repair
  imports Record_Crc File_System
begin

text \<open>
  \<^verbatim>\<open>repair_record_file\<close> of \<^verbatim>\<open>src/storage/record_integrity.h\<close>: cutting a record
  file back to its last complete record with a valid checksum and refreshing
  \<open>record_count\<close>. The lemmas split any file body into its valid records and the damaged
  tail behind them, give the exact result of a repair when no call fails, and show that no
  failure of a call, wherever it happens, loses a valid record.
\<close>

section \<open>The repair\<close>

record file_repair_result =
  rep_ok :: bool
  valid_records :: u64
  bytes_discarded :: u64

definition no_repair :: file_repair_result where
  "no_repair = \<lparr>rep_ok = False, valid_records = 0, bytes_discarded = 0\<rparr>"

text \<open>Magic, version and record size agree with the default header of the record kind.\<close>

definition header_matches :: "rec_kind \<Rightarrow> file_header \<Rightarrow> bool" where
  "header_matches k h \<longleftrightarrow> magic h = magic (default_header k)
     \<and> version h = version (default_header k) \<and> record_size h = of_nat (rec_size k)"

text \<open>The loop over the records: the count and the end offset of the valid ones.\<close>

function scan_valid :: "rec_kind \<Rightarrow> byte list \<Rightarrow> nat \<Rightarrow> nat \<Rightarrow> nat \<Rightarrow> nat \<times> nat" where
  "scan_valid k c fsize valid valid_end =
     (if valid_end + rec_size k \<le> fsize then
        let rec = slice valid_end (rec_size k) c
        in if length rec \<noteq> rec_size k then (valid, valid_end)
           else if \<not> record_crc_ok k rec then (valid, valid_end)
           else scan_valid k c fsize (Suc valid) (valid_end + rec_size k)
      else (valid, valid_end))"
  by pat_completeness auto
termination
proof (relation "measure (\<lambda>(k, c, fsize, valid, valid_end). fsize - valid_end)", goal_cases)
  case (2 k c fsize valid valid_end r)
  then show ?case using rec_size_pos [of k] by (simp only: in_measure prod.case)
qed simp

declare scan_valid.simps [simp del]

text \<open>Back-filling \<open>record_count\<close>: seek, write, flush.\<close>

definition write_count :: "world \<Rightarrow> fstream \<Rightarrow> u64 \<Rightarrow> world \<times> fstream" where
  "write_count w f n =
     (let (w1, f1) = stream_seekp w (stream_clear f) (Some record_count_offset);
          (w2, f2) = stream_write w1 f1 (u64_bytes n)
      in stream_flush w2 f2)"

text \<open>Cutting the file at \<open>valid_end\<close> when bytes follow it; the stream is closed and opened again.\<close>

definition truncate_tail ::
    "world \<Rightarrow> fstream \<Rightarrow> string \<Rightarrow> string \<Rightarrow> nat \<Rightarrow> nat \<Rightarrow> world \<times> fstream option" where
  "truncate_tail w f dir name valid_end discarded =
     (if 0 < discarded then
        (case resize_file w dir name valid_end of
           (wr, False) \<Rightarrow> (wr, None)
         | (wr, True) \<Rightarrow> open_inout wr dir name)
      else (w, Some f))"

definition repair_record_file ::
    "rec_kind \<Rightarrow> world \<Rightarrow> string \<Rightarrow> string \<Rightarrow> world \<times> file_repair_result" where
  "repair_record_file k w dir name =
     (case open_inout w dir name of
        (w1, None) \<Rightarrow> (w1, no_repair)
      | (w1, Some f) \<Rightarrow>
        let c = stream_content w1 f in
        if length c < header_size then (w1, no_repair)
        else if \<not> header_matches k (header_of_bytes (take header_size c)) then (w1, no_repair)
        else (case file_size w1 dir name of
            (w2, None) \<Rightarrow> (w2, no_repair)
          | (w2, Some fsize) \<Rightarrow>
            if fsize < header_size then (w2, no_repair)
            else
              let (valid, valid_end) = scan_valid k c fsize 0 header_size;
                  discarded = fsize - valid_end;
                  (w3, reopened) = truncate_tail w2 f dir name valid_end discarded
              in (case reopened of
                    None \<Rightarrow> (w3, no_repair)
                  | Some g \<Rightarrow>
                      let (w4, h) = write_count w3 g (of_nat valid)
                      in if fs_bad h then (w4, no_repair)
                         else (w4, \<lparr>rep_ok = True, valid_records = of_nat valid,
                                    bytes_discarded = of_nat discarded\<rparr>))))"

section \<open>Valid records and damaged tails\<close>

definition valid_rec :: "rec_kind \<Rightarrow> byte list \<Rightarrow> bool" where
  "valid_rec k r \<longleftrightarrow> length r = rec_size k \<and> record_crc_ok k r"

text \<open>A tail that does not begin with another valid record.\<close>

definition damaged_tail :: "rec_kind \<Rightarrow> byte list \<Rightarrow> bool" where
  "damaged_tail k t \<longleftrightarrow> length t < rec_size k \<or> \<not> record_crc_ok k (take (rec_size k) t)"

lemma damaged_tail_Nil [simp]: "damaged_tail k []"
  by (simp add: damaged_tail_def)

lemma valid_stamp [simp]: "length r = rec_size k \<Longrightarrow> valid_rec k (stamp_record_crc k r)"
  by (simp add: valid_rec_def)

lemma scan_valid_records:
  assumes "list_all (valid_rec k) rs" and "damaged_tail k t"
  shows "scan_valid k (pre @ concat rs @ t) (length (pre @ concat rs @ t)) v (length pre)
    = (v + length rs, length pre + length rs * rec_size k)"
  using assms(1)
proof (induction rs arbitrary: pre v)
  case Nil
  then show ?case
    using assms(2) scan_valid.simps [of k "pre @ t" "length (pre @ t)" v "length pre"]
    by (auto simp: damaged_tail_def slice_def Let_def)
next
  case (Cons r rs)
  then have r: "length r = rec_size k" "record_crc_ok k r" by (simp_all add: valid_rec_def)
  have "scan_valid k ((pre @ r) @ concat rs @ t) (length ((pre @ r) @ concat rs @ t)) (Suc v) (length (pre @ r))
      = (Suc v + length rs, length (pre @ r) + length rs * rec_size k)"
    by (rule Cons.IH) (use Cons.prems in simp)
  then show ?case
    using r scan_valid.simps [of k "pre @ r @ concat rs @ t" "length (pre @ r @ concat rs @ t)" v "length pre"]
    by (simp add: slice_append_at Let_def add.assoc)
qed

text \<open>Every file body is a run of valid records followed by a damaged tail.\<close>

lemma split_valid:
  obtains rs t where "c = concat rs @ t" "list_all (valid_rec k) rs" "damaged_tail k t"
proof -
  have "\<exists>rs t. c = concat rs @ t \<and> list_all (valid_rec k) rs \<and> damaged_tail k t"
  proof (induction c rule: length_induct)
    case (1 c)
    show ?case
    proof (cases "damaged_tail k c")
      case True
      then show ?thesis by (intro exI [of _ "[]"] exI [of _ c]) simp
    next
      case False
      then have r: "valid_rec k (take (rec_size k) c)" "rec_size k \<le> length c"
        by (simp_all add: damaged_tail_def valid_rec_def)
      then have "length (drop (rec_size k) c) < length c"
        using less_le_trans [OF rec_size_pos r(2)] by (simp add: diff_less)
      with 1 obtain rs t where "drop (rec_size k) c = concat rs @ t" "list_all (valid_rec k) rs"
        "damaged_tail k t" by blast
      with r show ?thesis
        by (intro exI [of _ "take (rec_size k) c # rs"] exI [of _ t])
          (metis append_assoc append_take_drop_id concat.simps(2) list.pred_inject(2))
    qed
  qed
  then show thesis using that by blast
qed

lemma length_concat_valid:
  "list_all (valid_rec k) rs \<Longrightarrow> length (concat rs) = length rs * rec_size k"
  by (intro length_concat_const) (auto simp: list_all_iff valid_rec_def)

section \<open>Fault-free repair\<close>

definition set_count :: "u64 \<Rightarrow> file_header \<Rightarrow> file_header" where
  "set_count n h = h\<lparr>record_count := n\<rparr>"

lemma set_count_twice [simp]: "set_count n (set_count m h) = set_count n h"
  by (simp add: set_count_def)

lemma overwrite_count:
  assumes "length (magic h) = 8"
  shows "overwrite record_count_offset (u64_bytes n) (header_bytes h @ body)
    = header_bytes (set_count n h) @ body"
  using assms by (simp add: overwrite_def header_bytes_def set_count_def)

lemma header_matches_magic: "header_matches k h \<Longrightarrow> length (magic h) = 8"
  by (simp add: header_matches_def)

lemma header_of_own_bytes:
  "length (magic h) = 8 \<Longrightarrow> header_of_bytes (take header_size (header_bytes h @ body)) = h"
  using header_of_header_bytes [of h "[]"] by simp

lemma write_count_touches:
  assumes "write_count w f n = (w', f')"
  shows "touches w w' (fs_dir f) (fs_name f)" "fs_dir f' = fs_dir f" "fs_name f' = fs_name f"
proof -
  obtain w1 f1 w2 f2 where *: "stream_seekp w (stream_clear f) (Some record_count_offset) = (w1, f1)"
    "stream_write w1 f1 (u64_bytes n) = (w2, f2)" "stream_flush w2 f2 = (w', f')"
    using assms by (auto simp: write_count_def split: prod.splits)
  have c: "fs_dir (stream_clear f) = fs_dir f" "fs_name (stream_clear f) = fs_name f"
    by (simp_all add: stream_clear_def)
  note f1 = stream_same_file(2) [OF *(1), unfolded c] and f2 = stream_same_file(1) [OF *(2)]
    and f' = stream_same_file(3) [OF *(3)]
  show "fs_dir f' = fs_dir f" "fs_name f' = fs_name f" using f1 f2 f' by simp_all
  have "touches w1 w2 (fs_dir f) (fs_name f)"
    using touches_stream_write [OF *(2)] f1 by simp
  then show "touches w w' (fs_dir f) (fs_name f)"
    using touches_trans touches_stream_seekp [OF *(1)] touches_stream_flush [OF *(3)] by blast
qed

lemma write_count_ok:
  assumes "no_faults w" and "get_file w (fs_dir f) (fs_name f) = Some (header_bytes h @ body)"
    and "length (magic h) = 8"
  shows "\<exists>w' f'. write_count w f n = (w', f') \<and> \<not> fs_bad f'
    \<and> get_file w' (fs_dir f) (fs_name f) = Some (header_bytes (set_count n h) @ body)"
  using assms dir_of_get_file [OF assms(2)]
  by (auto simp: write_count_def stream_seekp_def stream_clear_def stream_write_def stream_flush_def
      stream_content_def io_simps overwrite_count get_file_put)

lemma touches_truncate_tail:
  "truncate_tail w f dir name e d = (w', g) \<Longrightarrow> touches w w' dir name"
  by (auto simp: truncate_tail_def split: if_splits prod.splits bool.splits
      dest!: touches_resize_file touches_open_inout [of _ _ _ _ _ dir name] intro: touches_trans)

lemma truncate_tail_stream:
  "truncate_tail w f dir name e d = (w', Some h) \<Longrightarrow> fs_dir f = dir \<Longrightarrow> fs_name f = name
     \<Longrightarrow> fs_dir h = dir \<and> fs_name h = name"
  by (auto simp: truncate_tail_def split: if_splits prod.splits bool.splits dest!: open_inout_Some)

lemma repair_touches:
  assumes "repair_record_file k w dir name = (w', r)"
  shows "touches w w' dir name"
proof -
  obtain w1 fo where o: "open_inout w dir name = (w1, fo)" by force
  have t1: "touches w w1 dir name" by (rule touches_open_inout [OF o])
  have "touches w1 w' dir name"
  proof (cases fo)
    case None
    then show ?thesis using assms o by (simp add: repair_record_file_def)
  next
    case (Some f)
    with o open_inout_Some have f: "fs_dir f = dir" "fs_name f = name" by fastforce+
    let ?c = "stream_content w1 f"
    obtain valid valid_end where sc: "scan_valid k ?c (length ?c) 0 header_size = (valid, valid_end)" by force
    obtain w3 g where g: "truncate_tail (io_tick w1) f dir name valid_end (length ?c - valid_end) = (w3, g)"
      by force
    have t3: "touches w1 w3 dir name" using touches_truncate_tail [OF g] touches_tick touches_trans by blast
    have g3: "\<forall>h. g = Some h \<longrightarrow> fs_dir h = dir \<and> fs_name h = name"
      using truncate_tail_stream g f by blast
    show ?thesis
    proof (cases "w' = w1 \<or> w' = io_tick w1 \<or> w' = w3")
      case True
      then show ?thesis using t3 by auto
    next
      case False
      then obtain h w4 i where "g = Some h" "write_count w3 h (of_nat valid) = (w', i)"
        using assms o Some sc g f
        by (auto simp: repair_record_file_def file_size_def Let_def stream_content_def
            split: if_splits option.splits prod.splits)
      then show ?thesis using t3 g3 write_count_touches touches_trans by metis
    qed
  qed
  with t1 show ?thesis by (rule touches_trans)
qed

text \<open>The exact result of a repair when no call fails.\<close>

lemma repair_ok:
  assumes "no_faults w" and "get_file w dir name = Some (header_bytes h @ concat rs @ t)"
    and "header_matches k h" and "list_all (valid_rec k) rs" and "damaged_tail k t"
  obtains w' where "repair_record_file k w dir name
      = (w', \<lparr>rep_ok = True, valid_records = of_nat (length rs), bytes_discarded = of_nat (length t)\<rparr>)"
    "get_file w' dir name = Some (header_bytes (set_count (of_nat (length rs)) h) @ concat rs)"
proof -
  let ?f = "\<lparr>fs_dir = dir, fs_name = name, fs_pos = 0, fs_bad = False\<rparr>"
  let ?n = "length rs"
  define c where "c = header_bytes h @ concat rs @ t"
  note m = header_matches_magic [OF assms(3)]
  have hl: "length (header_bytes h) = header_size" using m by simp
  have sc: "scan_valid k c (length c) 0 header_size = (?n, header_size + ?n * rec_size k)"
    using scan_valid_records [OF assms(4,5), of "header_bytes h" 0] hl by (simp add: c_def)
  have lc: "length c = header_size + (?n * rec_size k + length t)"
    using hl length_concat_valid [OF assms(4)] by (simp add: c_def)
  have tk: "take (header_size + ?n * rec_size k) c = header_bytes h @ concat rs"
    using hl length_concat_valid [OF assms(4)] by (simp add: c_def)
  have gc: "get_file w dir name = Some c" "header_of_bytes (take header_size c) = h"
    using assms(2) header_of_own_bytes [OF m, of "concat rs @ t"]
    by (simp_all del: take_append add: c_def)
  define w3 where "w3 = (if t = [] then io_tick (io_tick w)
     else io_tick (put_file (io_tick (io_tick (io_tick w))) dir name (header_bytes h @ concat rs)))"
  have w3: "no_faults w3" "get_file w3 dir name = Some (header_bytes h @ concat rs)"
    using assms(1,2) dir_of_get_file [OF assms(2)] by (auto simp: w3_def get_file_put)
  have re: "truncate_tail (io_tick (io_tick w)) ?f dir name (header_size + ?n * rec_size k) (length t)
      = (w3, Some ?f)"
    using assms(1) gc dir_of_get_file [OF gc(1)] w3 tk
    by (auto simp: truncate_tail_def resize_file_def io_simps w3_def open_inout_def get_file_put)
  obtain w' f' where wc: "write_count w3 ?f (of_nat ?n) = (w', f')" "\<not> fs_bad f'"
    "get_file w' dir name = Some (header_bytes (set_count (of_nat ?n) h) @ concat rs)"
    using write_count_ok [of w3 ?f h "concat rs" "of_nat ?n"] w3 m by auto
  have "repair_record_file k w dir name
      = (w', \<lparr>rep_ok = True, valid_records = of_nat ?n, bytes_discarded = of_nat (length t)\<rparr>)"
    using assms(1,3) wc(1,2) re sc gc lc
    by (simp add: repair_record_file_def file_size_def open_inout_ok [OF assms(1) gc(1)] stream_content_def
        io_simps Let_def)
  then show thesis using wc(3) by (rule that)
qed

section \<open>Repair under failures\<close>

text \<open>A count field that was written only in part is still a count field.\<close>

lemma overwrite_partial_count:
  assumes "length (magic h) = 8"
  obtains m where "overwrite record_count_offset (take i (u64_bytes n)) (header_bytes h @ body)
    = header_bytes (set_count m h) @ body"
proof -
  let ?b = "take i (u64_bytes n) @ drop i (u64_bytes (record_count h))"
  have "length ?b = 8" by simp
  then have b: "u64_bytes (u64_of ?b) = ?b" by (rule u64_bytes_of)
  have "overwrite record_count_offset (take i (u64_bytes n)) (header_bytes h @ body)
    = header_bytes (set_count (u64_of ?b) h) @ body"
    unfolding header_bytes_def set_count_def using assms b by (simp add: overwrite_def min_def)
  then show thesis by (rule that)
qed

lemma write_count_keeps:
  assumes "write_count w f n = (w', f')" and "get_file w (fs_dir f) (fs_name f) = Some (header_bytes h @ body)"
    and "length (magic h) = 8"
  obtains m where "get_file w' (fs_dir f) (fs_name f) = Some (header_bytes (set_count m h) @ body)"
proof -
  obtain w1 f1 w2 f2 where *: "stream_seekp w (stream_clear f) (Some record_count_offset) = (w1, f1)"
    "stream_write w1 f1 (u64_bytes n) = (w2, f2)" "stream_flush w2 f2 = (w', f')"
    using assms(1) by (auto simp: write_count_def split: prod.splits)
  have 1: "get_file w1 (fs_dir f) (fs_name f) = Some (header_bytes h @ body)"
    "fs_dir f1 = fs_dir f" "fs_name f1 = fs_name f" "fs_bad f1 \<or> fs_pos f1 = record_count_offset"
    using *(1) assms(2) by (auto simp: stream_seekp_def stream_clear_def split: if_splits)
  have w': "get_file w' d n = get_file w2 d n" for d n
    using *(3) by (auto simp: stream_flush_def split: if_splits)
  show thesis
  proof (cases "fs_bad f1")
    case True
    then have "w2 = w1" using *(2) by (simp add: stream_write_def)
    then have "get_file w' (fs_dir f) (fs_name f) = Some (header_bytes (set_count (record_count h) h) @ body)"
      using 1 w' by (simp add: set_count_def)
    then show thesis by (rule that)
  next
    case False
    define sent where "sent = (case io_fault Io_write w1 of None \<Rightarrow> u64_bytes n | Some i \<Rightarrow> take i (u64_bytes n))"
    have "\<exists>i. sent = take i (u64_bytes n)" by (auto simp: sent_def split: option.splits intro: exI [of _ 8])
    then obtain m where "overwrite record_count_offset sent (header_bytes h @ body)
        = header_bytes (set_count m h) @ body"
      using overwrite_partial_count [OF assms(3)] by metis
    moreover have "get_file w2 (fs_dir f) (fs_name f)
        = Some (overwrite record_count_offset sent (header_bytes h @ body))"
      using *(2) False 1 dir_of_get_file [OF 1(1)]
      by (auto simp: stream_write_def Let_def sent_def get_file_put stream_content_def)
    ultimately show thesis using that w' by simp
  qed
qed

lemma truncate_tail_file:
  assumes "truncate_tail w f dir name e d = (w', g)" and "get_file w dir name = Some c"
  shows "get_file w' dir name = Some c \<or> 0 < d \<and> get_file w' dir name = Some (take e c)"
    and "g \<noteq> None \<Longrightarrow> get_file w' dir name = Some (if 0 < d then take e c else c)"
  using assms dir_of_get_file [OF assms(2)]
  by (auto simp: truncate_tail_def resize_file_def open_inout_def get_file_put
      split: if_splits prod.splits bool.splits option.splits)

text \<open>Wherever a repair fails, the file keeps its header up to the count and all its valid records.\<close>

lemma repair_keeps:
  assumes "repair_record_file k w dir name = (w', r)"
    and "get_file w dir name = Some (header_bytes h @ concat rs @ t)"
    and "header_matches k h" and "list_all (valid_rec k) rs" and "damaged_tail k t"
  shows "\<exists>m t'. get_file w' dir name = Some (header_bytes (set_count m h) @ concat rs @ t')
    \<and> (t' = t \<or> t' = [])"
proof -
  define c where "c = header_bytes h @ concat rs @ t"
  note m = header_matches_magic [OF assms(3)]
  have hl: "length (header_bytes h) = header_size" using m by simp
  let ?e = "header_size + length rs * rec_size k"
  have sc: "scan_valid k c (length c) 0 header_size = (length rs, ?e)"
    using scan_valid_records [OF assms(4,5), of "header_bytes h" 0] hl by (simp add: c_def)
  have lc: "length c = header_size + (length rs * rec_size k + length t)"
    and tk: "take ?e c = header_bytes h @ concat rs"
    using hl length_concat_valid [OF assms(4)] by (simp_all add: c_def)
  have id: "header_bytes h = header_bytes (set_count (record_count h) h)"
    by (simp add: set_count_def)
  obtain w1 fo where o: "open_inout w dir name = (w1, fo)" by force
  then have w1: "w1 = io_tick w" by (auto simp: open_inout_def split: option.splits)
  have g1: "get_file w1 dir name = Some c" using assms(2) w1 by (simp add: c_def)
  let ?f = "\<lparr>fs_dir = dir, fs_name = name, fs_pos = 0, fs_bad = False\<rparr> :: fstream"
  obtain w3 g where tt: "truncate_tail (io_tick w1) ?f dir name ?e (length t) = (w3, g)" by force
  note t3 = truncate_tail_file [OF tt, of c]
  consider "get_file w' dir name = Some c" | "w' = w3"
    | h' f' where "g = Some h'" "write_count w3 h' (of_nat (length rs)) = (w', f')"
    using assms(1) g1 o open_inout_Some [of w dir name w1] sc lc tt
    by (cases fo) (auto simp: repair_record_file_def file_size_def Let_def stream_content_def
        split: if_splits option.splits prod.splits)
  then show ?thesis
  proof cases
    case 1
    then show ?thesis using id by (auto simp: c_def)
  next
    case 2
    with t3(1) g1 have "get_file w' dir name = Some c
        \<or> get_file w' dir name = Some (header_bytes h @ concat rs @ [])" using tk by auto
    then show ?thesis unfolding c_def by (subst (asm) (1 2) id) blast
  next
    case 3
    have d: "fs_dir h' = dir \<and> fs_name h' = name" using truncate_tail_stream tt 3(1) by auto
    let ?t = "if 0 < length t then [] else t"
    have "get_file w3 (fs_dir h') (fs_name h') = Some (header_bytes h @ concat rs @ ?t)"
      using t3(2) g1 3(1) tk d by (auto simp: c_def)
    then obtain j where "get_file w' dir name = Some (header_bytes (set_count j h) @ concat rs @ ?t)"
      using write_count_keeps [OF 3(2) _ m] d by metis
    then show ?thesis by (intro exI [of _ j] exI [of _ ?t]) simp
  qed
qed

section \<open>Properties\<close>

text \<open>(C7) A repair in which no call fails keeps exactly the longest run of valid records behind a good
  header: it reports their number and the number of bytes cut off, sets \<open>record_count\<close> to
  that number, leaves nothing behind the last valid record and touches no other file.
\<close>
theorem repair_exact:
  assumes "no_faults w" and "get_file w dir name = Some (header_bytes h @ concat rs @ t)"
    and "header_matches k h" and "list_all (valid_rec k) rs" and "damaged_tail k t"
  shows "\<exists>w'. repair_record_file k w dir name
      = (w', \<lparr>rep_ok = True, valid_records = of_nat (length rs), bytes_discarded = of_nat (length t)\<rparr>)
    \<and> get_file w' dir name = Some (header_bytes (set_count (of_nat (length rs)) h) @ concat rs)
    \<and> touches w w' dir name"
  using repair_ok [OF assms] repair_touches by metis

text \<open>A file shorter than a header, or whose magic, version or record size is not that of the record
  kind, is refused and left as it is, whichever calls fail.
\<close>
theorem repair_refuses:
  assumes "get_file w dir name = Some c"
    and "length c < header_size \<or> \<not> header_matches k (header_of_bytes (take header_size c))"
  shows "\<exists>w'. repair_record_file k w dir name = (w', no_repair) \<and> get_file w' dir name = Some c
    \<and> touches w w' dir name"
proof -
  obtain w' r where r: "repair_record_file k w dir name = (w', r)" by force
  then have "r = no_repair \<and> get_file w' dir name = Some c"
    using assms by (auto simp: repair_record_file_def open_inout_def stream_content_def Let_def split: option.splits if_splits)
  then show ?thesis using r repair_touches [OF r] by blast
qed


text \<open>A trade file with one valid record followed by three stray bytes.\<close>

definition torn_trade_file :: "byte list" where
  "torn_trade_file = header_bytes (default_header TradeRecord)
     @ stamp_record_crc TradeRecord (trade_bytes zero_trade) @ [1, 2, 3]"

definition torn_world :: "(io_op \<Rightarrow> nat \<Rightarrow> nat option) \<Rightarrow> world" where
  "torn_world flt = \<lparr>w_dirs = [''data'' \<mapsto> [(''t.bin'', Regular torn_trade_file)]], w_fault = flt,
     w_tick = 0, w_clock = \<lambda>_. 0, w_reading = 0\<rparr>"

lemma torn_world_file:
  "get_file (torn_world flt) ''data'' ''t.bin'' = Some (header_bytes (default_header TradeRecord)
     @ concat [stamp_record_crc TradeRecord (trade_bytes zero_trade)] @ [1, 2, 3])"
  by (simp add: torn_world_def torn_trade_file_def get_file_def get_node_def)

lemma header_matches_default [simp]: "header_matches k (default_header k)"
  by (simp add: header_matches_def)

lemma torn_valid: "list_all (valid_rec TradeRecord) [stamp_record_crc TradeRecord (trade_bytes zero_trade)]"
  by simp

lemma torn_damaged: "damaged_tail TradeRecord [1, 2, 3]"
  by (simp add: damaged_tail_def)

theorem repair_exact_witness:
  "\<exists>w'. repair_record_file TradeRecord (torn_world (\<lambda>_ _. None)) ''data'' ''t.bin''
     = (w', \<lparr>rep_ok = True, valid_records = 1, bytes_discarded = 3\<rparr>)"
  using repair_exact [OF _ torn_world_file [of "\<lambda>_ _. None"] header_matches_default torn_valid torn_damaged]
  by (auto simp: no_faults_def torn_world_def)

theorem repair_refuses_witness:
  "\<exists>w'. repair_record_file OrderBookRecord (torn_world (\<lambda>_ _. Some 0)) ''data'' ''t.bin'' = (w', no_repair)"
proof -
  let ?c = "header_bytes (default_header TradeRecord)
     @ concat [stamp_record_crc TradeRecord (trade_bytes zero_trade)] @ [1, 2, 3]"
  have "\<not> header_matches OrderBookRecord (header_of_bytes (take header_size ?c))"
    by (subst header_of_own_bytes, rule length_default_magic) (simp add: header_matches_def)
  then show ?thesis using repair_refuses [OF torn_world_file [of "\<lambda>_ _. Some 0"]] by blast
qed


end
