(* ===== verification/Record_Writer.thy ===== *)
theory Record_Writer
  imports Record_Repair
begin

text \<open>
  The asynchronous writer \<^verbatim>\<open>BinaryRecordWriter\<close> of
  \<^verbatim>\<open>src/storage/binary_record_writer.h\<close>. Producers put records in a bounded queue;
  a worker thread takes batches of at most 1024 under the mutex and writes them, outside the
  mutex, to the file of each record's hour. Each member function is a definition; the sections
  of \<open>open\<close>, \<open>write\<close>, \<open>close\<close> and \<open>writer_loop\<close> between two lock operations are the
  steps of the relation \<open>wstep\<close>, which interleaves the threads. Files are those of
  the world of theory \<open>File_System\<close>, with failures of every call.
\<close>

section \<open>State\<close>

text \<open>
  The worker thread: not started, waiting for records, writing a batch, on its way to the
  failure section with a number of unwritten records of its batch, ended but not yet joined.
\<close>

datatype worker =
  NoThread | Waiting | Writing "byte list list" | Failing nat | Finished

record writer =
  wr_file :: "fstream option"
  data_dir :: string
  current_name :: string
  file_record_count :: u64
  queue :: "byte list list"
  worker :: worker
  running :: bool
  accepting :: bool
  queue_capacity :: nat
  records_written :: u64
  records_dropped :: u64
  tail_bytes_discarded :: u64
  write_error :: bool
  queue_depth_max :: u64
  closing :: bool               \<comment> \<open>a call of \<open>close\<close> holds the lifecycle mutex\<close>

definition new_writer :: writer where
  "new_writer = \<lparr>wr_file = None, data_dir = [], current_name = [], file_record_count = 0,
     queue = [], worker = NoThread, running = False, accepting = False, queue_capacity = 100000,
     records_written = 0, records_dropped = 0, tail_bytes_discarded = 0, write_error = False,
     queue_depth_max = 0, closing = False\<rparr>"

section \<open>File handling of the worker\<close>

definition record_ts_us :: "world \<Rightarrow> byte list \<Rightarrow> world \<times> int" where
  "record_ts_us w r = (if 0 < rec_recv_ts_us r then (w, rec_recv_ts_us r) else wall_us_now w)"

definition persist_header_count :: "world \<Rightarrow> writer \<Rightarrow> world \<times> writer \<times> bool" where
  "persist_header_count w s =
     (case wr_file s of
        None \<Rightarrow> (w, s, True)
      | Some f \<Rightarrow>
        if write_error s then (w, s, False)
        else
          let pos = stream_tellp f;
              (w1, f1) = stream_seekp w (stream_clear f) (Some record_count_offset);
              (w2, f2) = stream_write w1 f1 (u64_bytes (file_record_count s));
              (w3, f3) = stream_seekp w2 f2 pos;
              (w4, f4) = stream_flush w3 f3
          in if fs_bad f4 then (w4, s\<lparr>wr_file := Some f4, write_error := True\<rparr>, False)
             else (w4, s\<lparr>wr_file := Some f4\<rparr>, True))"

definition close_current_file :: "world \<Rightarrow> writer \<Rightarrow> world \<times> writer \<times> bool" where
  "close_current_file w s =
     (case wr_file s of
        None \<Rightarrow> (w, s\<lparr>current_name := [], file_record_count := 0\<rparr>, True)
      | Some f \<Rightarrow>
        let (w1, s1, ok) = persist_header_count w s;
            (w2, f2) = stream_flush w1 (case wr_file s1 of Some g \<Rightarrow> g | None \<Rightarrow> f);
            (w3, failed) = stream_close w2 f2;
            s2 = s1\<lparr>wr_file := None, current_name := [], file_record_count := 0\<rparr>
        in if failed then (w3, s2\<lparr>write_error := True\<rparr>, False) else (w3, s2, ok))"

definition open_file :: "rec_kind \<Rightarrow> world \<Rightarrow> writer \<Rightarrow> string \<Rightarrow> world \<times> writer \<times> bool" where
  "open_file k w s name =
     (let (w1, exists) = path_exists w (data_dir s) name
      in if exists then
           let (w2, repaired) = repair_record_file k w1 (data_dir s) name
           in if \<not> rep_ok repaired then (w2, s, False)
              else
                let s1 = s\<lparr>tail_bytes_discarded := tail_bytes_discarded s + bytes_discarded repaired\<rparr>
                in (case open_inout w2 (data_dir s) name of
                      (w3, None) \<Rightarrow> (w3, s1, False)
                    | (w3, Some f) \<Rightarrow>
                      let s2 = s1\<lparr>file_record_count := valid_records repaired\<rparr>;
                          (w4, f4) = stream_seekp w3 (stream_clear f) (Some (length (stream_content w3 f)))
                      in if fs_bad f4 then (fst (stream_close w4 f4), s2, False)
                         else (w4, s2\<lparr>wr_file := Some f4, current_name := name\<rparr>, True))
         else
           (case open_trunc w1 (data_dir s) name of
              (w2, None) \<Rightarrow> (w2, s, False)
            | (w2, Some f) \<Rightarrow>
              let (w3, f3) = stream_write w2 f (header_bytes (default_header k))
              in if fs_bad f3 then (fst (stream_close w3 f3), s, False)
                 else (w3, s\<lparr>wr_file := Some f3, file_record_count := 0, current_name := name\<rparr>, True)))"

text \<open>The file of the record's hour is made the current one.\<close>

definition select_file :: "rec_kind \<Rightarrow> world \<Rightarrow> writer \<Rightarrow> string \<Rightarrow> world \<times> writer \<times> bool" where
  "select_file k w s name =
     (if name \<noteq> current_name s then
        (case close_current_file w s of
           (w1, s1, False) \<Rightarrow> (w1, s1, False)
         | (w1, s1, True) \<Rightarrow> open_file k w1 s1 name)
      else (w, s, True))"

definition write_to_file :: "rec_kind \<Rightarrow> world \<Rightarrow> writer \<Rightarrow> byte list \<Rightarrow> world \<times> writer \<times> bool" where
  "write_to_file k w s r =
     (let (w1, ts) = record_ts_us w r
      in case select_file k w1 s (hourly_file_name (rec_file_prefix k) ts) of
           (w2, s2, False) \<Rightarrow> (w2, s2, False)
         | (w2, s2, True) \<Rightarrow>
           (case wr_file s2 of
              None \<Rightarrow> (w2, s2, False)
            | Some f \<Rightarrow>
              let (w3, f3) = stream_write w2 f (stamp_record_crc k r)
              in if fs_bad f3 then (w3, s2\<lparr>wr_file := Some f3\<rparr>, False)
                 else (w3, s2\<lparr>wr_file := Some f3, file_record_count := file_record_count s2 + 1\<rparr>, True)))"

text \<open>The loop over a batch; the number is that of the records written.\<close>

fun write_batch :: "rec_kind \<Rightarrow> world \<Rightarrow> writer \<Rightarrow> byte list list \<Rightarrow> world \<times> writer \<times> nat" where
  "write_batch k w s [] = (w, s, 0)"
| "write_batch k w s (r # rs) =
     (case write_to_file k w s r of
        (w1, s1, False) \<Rightarrow> (w1, s1, 0)
      | (w1, s1, True) \<Rightarrow> (case write_batch k w1 s1 rs of (w2, s2, n) \<Rightarrow> (w2, s2, Suc n)))"

section \<open>The sections of the worker's loop\<close>

definition take_batch :: "writer \<Rightarrow> writer" where
  "take_batch s = s\<lparr>queue := drop 1024 (queue s), worker := Writing (take 1024 (queue s))\<rparr>"

definition process_batch :: "rec_kind \<Rightarrow> world \<Rightarrow> writer \<Rightarrow> byte list list \<Rightarrow> world \<times> writer" where
  "process_batch k w s batch =
     (let (w1, s1, written) = write_batch k w s batch;
          s2 = s1\<lparr>records_written := records_written s1 + of_nat written\<rparr>
      in if written < length batch
         then (w1, s2\<lparr>worker := Failing (length batch - written)\<rparr>)
         else if 0 < written then
           (case persist_header_count w1 s2 of
              (w3, s3, True) \<Rightarrow> (w3, s3\<lparr>worker := Waiting\<rparr>)
            | (w3, s3, False) \<Rightarrow> (w3, s3\<lparr>worker := Failing 0\<rparr>))
         else (w1, s2\<lparr>worker := Waiting\<rparr>))"

definition fail_section :: "writer \<Rightarrow> nat \<Rightarrow> writer" where
  "fail_section s unwritten =
     s\<lparr>write_error := True, accepting := False, running := False,
       records_dropped := records_dropped s + of_nat (unwritten + length (queue s)),
       queue := [], worker := Finished\<rparr>"

section \<open>Public operations\<close>

text \<open>
  Assigning to the joinable thread of a worker that ended after a failure ends the program:
  \<^verbatim>\<open>std::thread::operator=\<close> calls \<open>std::terminate\<close>.
\<close>

datatype open_result = Refused | Opened | Terminated

definition open_writer :: "world \<Rightarrow> writer \<Rightarrow> string \<Rightarrow> nat \<Rightarrow> world \<times> writer \<times> open_result" where
  "open_writer w s dir capacity =
     (if running s then (w, s, Refused)
      else if capacity = 0 then (w, s, Refused)
      else case create_directories w dir of
        (w1, False) \<Rightarrow> (w1, s, Refused)
      | (w1, True) \<Rightarrow>
        let s1 = s\<lparr>data_dir := dir, current_name := [], file_record_count := 0,
              queue_capacity := capacity, records_written := 0, records_dropped := 0,
              tail_bytes_discarded := 0, write_error := False, queue_depth_max := 0,
              running := True, accepting := True\<rparr>
        in if worker s1 \<noteq> NoThread then (w1, s1, Terminated)
           else (w1, s1\<lparr>worker := Waiting\<rparr>, Opened))"

definition write_record :: "writer \<Rightarrow> byte list \<Rightarrow> writer \<times> bool" where
  "write_record s r =
     (if \<not> accepting s \<or> \<not> running s then (s, False)
      else if queue_capacity s \<le> length (queue s)
      then (s\<lparr>records_dropped := records_dropped s + 1\<rparr>, False)
      else
        let s1 = s\<lparr>queue := queue s @ [r]\<rparr>;
            depth_after_push = of_nat (length (queue s1))
        in (if queue_depth_max s1 < depth_after_push then s1\<lparr>queue_depth_max := depth_after_push\<rparr> else s1,
            True))"

definition close_begin :: "writer \<Rightarrow> writer" where
  "close_begin s = s\<lparr>accepting := False, running := False, closing := True\<rparr>"

definition close_end :: "world \<Rightarrow> writer \<Rightarrow> world \<times> writer" where
  "close_end w s =
     (case close_current_file w (s\<lparr>worker := NoThread\<rparr>) of
        (w1, s1, _) \<Rightarrow> (w1, s1\<lparr>closing := False\<rparr>))"

definition queue_depth_current :: "writer \<Rightarrow> u64" where
  "queue_depth_current s = of_nat (length (queue s))"

section \<open>Interleaved executions\<close>

text \<open>
  The events of a session, from a successful \<open>open\<close> on. An event of \<open>write\<close> carries
  whether the writer was accepting records and the result of the call.
\<close>

datatype wevent =
  EvWrite "byte list" bool bool
| EvCloseBegin
| EvCloseEnd
| EvTake
| EvProcess "byte list list"
| EvFail
| EvExit

inductive wstep :: "rec_kind \<Rightarrow> world \<times> writer \<Rightarrow> wevent \<Rightarrow> world \<times> writer \<Rightarrow> bool" for k where
  Write: "write_record s r = (s', ok) \<Longrightarrow>
    wstep k (w, s) (EvWrite r (accepting s \<and> running s) ok) (w, s')"
| CloseBegin: "\<not> closing s \<Longrightarrow> wstep k (w, s) EvCloseBegin (w, close_begin s)"
| CloseEnd: "closing s \<Longrightarrow> worker s \<in> {NoThread, Finished} \<Longrightarrow> close_end w s = (w', s') \<Longrightarrow>
    wstep k (w, s) EvCloseEnd (w', s')"
| Take: "worker s = Waiting \<Longrightarrow> queue s \<noteq> [] \<Longrightarrow> wstep k (w, s) EvTake (w, take_batch s)"
| Process: "worker s = Writing batch \<Longrightarrow> process_batch k w s batch = (w', s') \<Longrightarrow>
    wstep k (w, s) (EvProcess batch) (w', s')"
| Fail: "worker s = Failing n \<Longrightarrow> wstep k (w, s) EvFail (w, fail_section s n)"
| Exit: "worker s = Waiting \<Longrightarrow> \<not> running s \<Longrightarrow> queue s = [] \<Longrightarrow>
    wstep k (w, s) EvExit (w, s\<lparr>worker := Finished\<rparr>)"

inductive_cases wstep_elim: "wstep k c e c'"

inductive wrun :: "rec_kind \<Rightarrow> world \<times> writer \<Rightarrow> wevent list \<Rightarrow> world \<times> writer \<Rightarrow> bool" for k c where
  Start: "wrun k c [] c"
| Step: "wrun k c es c' \<Longrightarrow> wstep k c' e c'' \<Longrightarrow> wrun k c (es @ [e]) c''"

text \<open>The writer of a session that has just been opened.\<close>

definition opened :: "world \<Rightarrow> writer \<Rightarrow> string \<Rightarrow> nat \<Rightarrow> world \<Rightarrow> writer \<Rightarrow> bool" where
  "opened w s dir capacity w' s' \<longleftrightarrow> open_writer w s dir capacity = (w', s', Opened)"

section \<open>Queue discipline and accounting\<close>

text \<open>What the file handling leaves alone.\<close>

definition same_control :: "writer \<Rightarrow> writer \<Rightarrow> bool" where
  "same_control s s' \<longleftrightarrow> queue s' = queue s \<and> worker s' = worker s \<and> running s' = running s
     \<and> accepting s' = accepting s \<and> queue_capacity s' = queue_capacity s
     \<and> records_written s' = records_written s \<and> records_dropped s' = records_dropped s
     \<and> queue_depth_max s' = queue_depth_max s \<and> closing s' = closing s \<and> data_dir s' = data_dir s"

lemma same_control_refl [simp]: "same_control s s"
  by (simp add: same_control_def)

lemma same_control_trans: "same_control s s' \<Longrightarrow> same_control s' s'' \<Longrightarrow> same_control s s''"
  by (simp add: same_control_def)

lemma same_control_upd [simp]:
  "same_control s (s'\<lparr>wr_file := f\<rparr>) = same_control s s'"
  "same_control s (s'\<lparr>current_name := n\<rparr>) = same_control s s'"
  "same_control s (s'\<lparr>file_record_count := c\<rparr>) = same_control s s'"
  "same_control s (s'\<lparr>write_error := e\<rparr>) = same_control s s'"
  "same_control s (s'\<lparr>tail_bytes_discarded := t\<rparr>) = same_control s s'"
  by (simp_all add: same_control_def)

lemma persist_control: "persist_header_count w s = (w', s', ok) \<Longrightarrow> same_control s s'"
  by (auto simp: persist_header_count_def Let_def split: option.splits if_splits prod.splits)

lemma close_file_control: "close_current_file w s = (w', s', ok) \<Longrightarrow> same_control s s'"
  by (auto simp: close_current_file_def Let_def dest: persist_control
      split: option.splits if_splits prod.splits)

lemma open_file_control: "open_file k w s name = (w', s', ok) \<Longrightarrow> same_control s s'"
  by (auto simp: open_file_def Let_def split: option.splits if_splits prod.splits)

lemma select_file_control: "select_file k w s name = (w', s', ok) \<Longrightarrow> same_control s s'"
  by (auto simp: select_file_def dest!: close_file_control open_file_control
      split: if_splits prod.splits bool.splits intro: same_control_trans)

lemma write_to_file_control: "write_to_file k w s r = (w', s', ok) \<Longrightarrow> same_control s s'"
  by (auto simp: write_to_file_def Let_def dest!: select_file_control
      split: option.splits if_splits prod.splits bool.splits)

lemma write_batch_control:
  "write_batch k w s rs = (w', s', n) \<Longrightarrow> same_control s s' \<and> n \<le> length rs"
proof (induction rs arbitrary: w s n)
  case (Cons r rs)
  then show ?case
    by (auto split: prod.splits bool.splits dest!: write_to_file_control intro: same_control_trans)
qed simp

text \<open>Records taken from the queue whose fate is not yet counted.\<close>

fun in_flight :: "worker \<Rightarrow> nat" where
  "in_flight (Writing batch) = length batch"
| "in_flight (Failing n) = n"
| "in_flight _ = 0"

text \<open>The effect of a batch on the fields the threads share, for \<open>n\<close> records written.\<close>

definition batch_effect :: "writer \<Rightarrow> nat \<Rightarrow> byte list list \<Rightarrow> writer \<Rightarrow> bool" where
  "batch_effect s n batch s' \<longleftrightarrow> n \<le> length batch
     \<and> same_control (s\<lparr>records_written := records_written s + of_nat n, worker := worker s'\<rparr>) s'
     \<and> (worker s' = Waiting \<and> n = length batch \<or> worker s' = Failing (length batch - n))"

lemma same_control_worker: "same_control s s' \<Longrightarrow> same_control (s\<lparr>worker := p\<rparr>) (s'\<lparr>worker := p\<rparr>)"
  by (simp add: same_control_def)

lemma process_batch_effect:
  assumes "process_batch k w s batch = (w', s')"
  shows "\<exists>n. batch_effect s n batch s'"
proof -
  obtain w1 s1 n where b: "write_batch k w s batch = (w1, s1, n)" by (metis prod_cases3)
  define s2 where "s2 = s1\<lparr>records_written := records_written s1 + of_nat n\<rparr>"
  have c: "same_control (s\<lparr>records_written := records_written s + of_nat n\<rparr>) s2" "n \<le> length batch"
    using write_batch_control [OF b] by (simp_all add: s2_def same_control_def)
  obtain w3 s3 ok where p: "persist_header_count w1 s2 = (w3, s3, ok)" by (metis prod_cases3)
  have "same_control (s\<lparr>records_written := records_written s + of_nat n\<rparr>) s3"
    using c(1) persist_control [OF p] by (rule same_control_trans)
  moreover have "s' = s2\<lparr>worker := Failing (length batch - n)\<rparr> \<or> s' = s3\<lparr>worker := Failing (length batch - n)\<rparr>
      \<or> n = length batch \<and> (s' = s2\<lparr>worker := Waiting\<rparr> \<or> s' = s3\<lparr>worker := Waiting\<rparr>)"
    using assms b p c(2) by (auto simp: process_batch_def s2_def [symmetric] split: if_splits bool.splits)
  ultimately show ?thesis
    using c by (intro exI [of _ n]) (auto simp: batch_effect_def intro: same_control_worker)
qed

text \<open>The well-formedness of a session, whatever fails.\<close>

definition session_inv :: "writer \<Rightarrow> bool" where
  "session_inv s \<longleftrightarrow> length (queue s) \<le> queue_capacity s \<and> accepting s = running s
     \<and> (worker s \<in> {NoThread, Finished} \<longrightarrow> queue s = [] \<and> \<not> running s)
     \<and> (closing s \<longrightarrow> \<not> running s)
     \<and> (\<forall>batch. worker s = Writing batch \<longrightarrow> batch \<noteq> [] \<and> length batch \<le> 1024)
     \<and> length (queue s) \<le> unat (queue_depth_max s) \<and> unat (queue_depth_max s) \<le> queue_capacity s
     \<and> queue_capacity s < 2 ^ 64"

lemma length_word_le: "n \<le> m \<Longrightarrow> m < 2 ^ 64 \<Longrightarrow> unat (of_nat n :: u64) = n"
  by (simp add: unat_of_nat)

lemma write_record_inv:
  assumes "session_inv s" and "write_record s r = (s', ok)"
  shows "session_inv s'"
proof -
  have "unat (of_nat (Suc (length (queue s))) :: u64) = Suc (length (queue s))"
    if "length (queue s) < queue_capacity s"
    using that assms(1) by (intro length_word_le [of _ "queue_capacity s"]) (auto simp: session_inv_def)
  then show ?thesis
    using assms unfolding write_record_def session_inv_def
    by (auto simp: Let_def word_less_nat_alt split: if_splits)
qed

lemma wstep_inv: "wstep k c e c' \<Longrightarrow> session_inv (snd c) \<Longrightarrow> session_inv (snd c')"
proof (induction rule: wstep.induct)
  case (Write s r s' ok w)
  then show ?case using write_record_inv by simp
next
  case (CloseEnd s w w' s')
  then show ?case
    by (auto simp: close_end_def session_inv_def same_control_def dest!: close_file_control
        split: prod.splits)
next
  case (Take s w)
  then show ?case by (auto simp: take_batch_def session_inv_def)
next
  case (Process s batch w w' s')
  then show ?case
    using process_batch_effect [OF Process(2)] by (auto simp: session_inv_def batch_effect_def same_control_def)
qed (auto simp: session_inv_def close_begin_def fail_section_def)

lemma wrun_inv: "wrun k c es c' \<Longrightarrow> session_inv (snd c) \<Longrightarrow> session_inv (snd c')"
  by (induction rule: wrun.induct) (auto dest: wstep_inv)

text \<open>Calls of \<open>write\<close> made while the writer was accepting.\<close>

fun offered :: "wevent list \<Rightarrow> nat" where
  "offered [] = 0"
| "offered (EvWrite r True ok # es) = Suc (offered es)"
| "offered (e # es) = offered es"

lemma offered_append [simp]: "offered (es @ fs) = offered es + offered fs"
  by (induction es rule: offered.induct) auto

definition accounted :: "writer \<Rightarrow> u64" where
  "accounted s = records_written s + records_dropped s + of_nat (length (queue s) + in_flight (worker s))"

lemma wstep_accounted:
  "wstep k c e c' \<Longrightarrow> session_inv (snd c) \<Longrightarrow> accounted (snd c') = accounted (snd c) + of_nat (offered [e])"
proof (induction rule: wstep.induct)
  case (Write s r s' ok w)
  then show ?case by (auto simp: write_record_def accounted_def Let_def split: if_splits)
next
  case (CloseEnd s w w' s')
  then show ?case
    by (auto simp: close_end_def accounted_def same_control_def dest!: close_file_control
        split: prod.splits)
next
  case (Take s w)
  have "length (queue s) = length (drop 1024 (queue s)) + length (take 1024 (queue s))" by simp
  then show ?case using Take by (simp only: accounted_def take_batch_def) simp
next
  case (Process s batch w w' s')
  then show ?case
    using process_batch_effect [OF Process(2)]
    by (auto simp: accounted_def batch_effect_def same_control_def of_nat_diff)
qed (auto simp: accounted_def close_begin_def fail_section_def session_inv_def)

lemma wrun_accounted:
  "wrun k c es c' \<Longrightarrow> session_inv (snd c) \<Longrightarrow> accounted (snd c') = accounted (snd c) + of_nat (offered es)"
proof (induction rule: wrun.induct)
  case (Step es c' e c'')
  then show ?case using wstep_accounted [OF Step(2)] wrun_inv [OF Step(1)] by simp
qed simp

section \<open>First in, first out\<close>

fun accepted :: "wevent list \<Rightarrow> byte list list" where
  "accepted [] = []"
| "accepted (EvWrite r open_now True # es) = r # accepted es"
| "accepted (e # es) = accepted es"

fun processed :: "wevent list \<Rightarrow> byte list list" where
  "processed [] = []"
| "processed (EvProcess batch # es) = batch @ processed es"
| "processed (e # es) = processed es"

fun pending :: "worker \<Rightarrow> byte list list" where
  "pending (Writing batch) = batch"
| "pending _ = []"

lemma accepted_append [simp]: "accepted (es @ fs) = accepted es @ accepted fs"
  by (induction es rule: accepted.induct) auto

lemma processed_append [simp]: "processed (es @ fs) = processed es @ processed fs"
  by (induction es rule: processed.induct) auto

text \<open>Accepted records that a failure section threw away.\<close>

definition fifo :: "wevent list \<Rightarrow> byte list list \<Rightarrow> writer \<Rightarrow> bool" where
  "fifo es lost s \<longleftrightarrow> accepted es = processed es @ pending (worker s) @ queue s @ lost
     \<and> (lost \<noteq> [] \<longrightarrow> write_error s \<and> worker s \<in> {NoThread, Finished})"

lemma close_file_error: "close_current_file w s = (w', s', ok) \<Longrightarrow> write_error s \<Longrightarrow> write_error s'"
  by (auto simp: close_current_file_def persist_header_count_def Let_def
      split: option.splits if_splits prod.splits)

lemma close_file_error_control:
  "close_current_file w s = (w', s', ok) \<Longrightarrow> same_control s s' \<and> (write_error s \<longrightarrow> write_error s')"
  using close_file_error close_file_control by blast

lemma wstep_fifo:
  "wstep k c e c' \<Longrightarrow> session_inv (snd c) \<Longrightarrow> fifo es lost (snd c) \<Longrightarrow> \<exists>lost'. fifo (es @ [e]) lost' (snd c')"
proof (induction rule: wstep.induct)
  case (Write s r s' ok w)
  then show ?case
    by (intro exI [of _ lost]) (auto simp: write_record_def fifo_def session_inv_def Let_def split: if_splits)
next
  case (CloseEnd s w w' s')
  then show ?case
    by (intro exI [of _ lost])
      (auto simp: close_end_def fifo_def same_control_def dest: close_file_control
        dest!: close_file_error_control split: prod.splits)
next
  case (Take s w)
  then show ?case by (intro exI [of _ lost]) (auto simp: take_batch_def fifo_def)
next
  case (Process s batch w w' s')
  then show ?case
    using process_batch_effect [OF Process(2)]
    by (intro exI [of _ lost]) (auto simp: fifo_def batch_effect_def same_control_def)
next
  case (Fail s n w)
  then show ?case by (intro exI [of _ "queue s @ lost"]) (auto simp: fifo_def fail_section_def)
qed (auto simp: fifo_def close_begin_def intro!: exI [of _ lost])

lemma wrun_fifo:
  "wrun k c es c' \<Longrightarrow> session_inv (snd c) \<Longrightarrow> queue (snd c) = [] \<Longrightarrow> pending (worker (snd c)) = []
     \<Longrightarrow> \<exists>lost. fifo es lost (snd c')"
proof (induction rule: wrun.induct)
  case Start
  then show ?case by (intro exI [of _ "[]"]) (simp add: fifo_def)
next
  case (Step es c' e c'')
  then show ?case using wstep_fifo wrun_inv by blast
qed

section \<open>Files of a session without failures\<close>

text \<open>What a file holds after \<open>record_count\<close> was brought up to date.\<close>

definition file_image :: "rec_kind \<Rightarrow> byte list list \<Rightarrow> byte list" where
  "file_image k rs = header_bytes (set_count (of_nat (length rs)) (default_header k)) @ concat rs"

lemma header_matches_eq: "header_matches k h \<Longrightarrow> set_count n h = set_count n (default_header k)"
  by (intro file_header.equality) (simp_all add: header_matches_def set_count_def)

lemma set_count_magic [simp]: "magic (set_count n h) = magic h"
  by (simp add: set_count_def)

lemma header_matches_set_count [simp]: "header_matches k (set_count n h) = header_matches k h"
  by (simp add: header_matches_def set_count_def)

lemma persist_ok:
  assumes "no_faults w" and "wr_file s = Some f" and "\<not> write_error s" and "\<not> fs_bad f"
    and "get_file w (fs_dir f) (fs_name f) = Some (header_bytes h @ body)" and "length (magic h) = 8"
  shows "\<exists>w'. persist_header_count w s = (w', s, True) \<and> touches w w' (fs_dir f) (fs_name f)
    \<and> get_file w' (fs_dir f) (fs_name f) = Some (header_bytes (set_count (file_record_count s) h) @ body)"
proof -
  let ?w2 = "put_file (io_tick (io_tick w)) (fs_dir f) (fs_name f)
    (header_bytes (set_count (file_record_count s) h) @ body)"
  have "w_dirs w (fs_dir f) \<noteq> None" using assms(5) by (rule dir_of_get_file)
  moreover have "s\<lparr>wr_file := Some f\<rparr> = s" using assms(2) by (metis writer.surjective writer.update_convs(1))
  moreover have "touches w ?w2 (fs_dir f) (fs_name f)"
    by (rule touches_trans [OF touches_tick touches_put_tick])
  ultimately show ?thesis
    using assms
    by (intro exI [of _ "io_tick (io_tick ?w2)"])
      (auto simp: persist_header_count_def stream_tellp_def stream_seekp_def stream_clear_def stream_write_def
        stream_flush_def stream_content_def io_simps overwrite_count get_file_put intro: touches_trans)
qed

lemma close_file_ok:
  assumes "no_faults w" and "wr_file s = Some f" and "\<not> write_error s" and "\<not> fs_bad f"
    and "get_file w (fs_dir f) (fs_name f) = Some (header_bytes h @ body)" and "length (magic h) = 8"
  shows "\<exists>w'. close_current_file w s
      = (w', s\<lparr>wr_file := None, current_name := [], file_record_count := 0\<rparr>, True)
    \<and> touches w w' (fs_dir f) (fs_name f)
    \<and> get_file w' (fs_dir f) (fs_name f) = Some (header_bytes (set_count (file_record_count s) h) @ body)"
proof -
  obtain w1 where p: "persist_header_count w s = (w1, s, True)" "touches w w1 (fs_dir f) (fs_name f)"
    "get_file w1 (fs_dir f) (fs_name f) = Some (header_bytes (set_count (file_record_count s) h) @ body)"
    using persist_ok [OF assms] by blast
  have "no_faults w1" using touches_no_faults [OF p(2)] assms(1) by simp
  then show ?thesis
    using assms p
    by (intro exI [of _ "io_tick (io_tick w1)"])
      (auto simp: close_current_file_def stream_flush_def stream_close_def io_simps intro: touches_trans)
qed

definition file_stream :: "string \<Rightarrow> string \<Rightarrow> nat \<Rightarrow> fstream" where
  "file_stream dir name pos = \<lparr>fs_dir = dir, fs_name = name, fs_pos = pos, fs_bad = False\<rparr>"

text \<open>A closed hour file: a good header, valid records, possibly a damaged tail.\<close>

definition hour_file :: "rec_kind \<Rightarrow> world \<Rightarrow> string \<Rightarrow> string \<Rightarrow> byte list list \<Rightarrow> bool" where
  "hour_file k w dir name rs \<longleftrightarrow> (\<exists>h t. get_file w dir name = Some (header_bytes h @ concat rs @ t)
     \<and> header_matches k h \<and> list_all (valid_rec k) rs \<and> damaged_tail k t)"

lemma file_image_hour_file:
  "get_file w dir name = Some (file_image k rs) \<Longrightarrow> list_all (valid_rec k) rs \<Longrightarrow> hour_file k w dir name rs"
  unfolding hour_file_def
  by (intro exI [of _ "set_count (of_nat (length rs)) (default_header k)"] exI [of _ "[]"])
    (simp add: file_image_def)

lemma open_file_existing:
  assumes "no_faults w" and "hour_file k w (data_dir s) name rs"
  shows "\<exists>w' s'. open_file k w s name = (w', s', True)
    \<and> s' = s\<lparr>wr_file := Some (file_stream (data_dir s) name (length (file_image k rs))), current_name := name,
        file_record_count := of_nat (length rs), tail_bytes_discarded := tail_bytes_discarded s'\<rparr>
    \<and> get_file w' (data_dir s) name = Some (file_image k rs) \<and> touches w w' (data_dir s) name"
proof -
  obtain h t where f: "get_file w (data_dir s) name = Some (header_bytes h @ concat rs @ t)"
    "header_matches k h" "list_all (valid_rec k) rs" "damaged_tail k t"
    using assms(2) by (auto simp: hour_file_def)
  then have ex: "get_node w (data_dir s) name \<noteq> None" by (auto simp: get_file_def split: option.splits)
  have "no_faults (io_tick w)" "get_file (io_tick w) (data_dir s) name = Some (header_bytes h @ concat rs @ t)"
    using assms(1) f(1) by simp_all
  from repair_ok [OF this f(2-4)] obtain w2 where r: "repair_record_file k (io_tick w) (data_dir s) name
      = (w2, \<lparr>rep_ok = True, valid_records = of_nat (length rs), bytes_discarded = of_nat (length t)\<rparr>)"
    "get_file w2 (data_dir s) name = Some (file_image k rs)"
    using header_matches_eq [OF f(2)] unfolding file_image_def by metis
  have t2: "touches w w2 (data_dir s) name"
    using repair_touches [OF r(1)] touches_tick touches_trans by blast
  have nf2: "no_faults w2" using touches_no_faults [OF t2] assms(1) by simp
  show ?thesis
    using assms(1) r nf2 ex t2
    by (auto simp: open_file_def path_exists_def io_simps open_inout_ok [OF nf2 r(2)] stream_seekp_def
        stream_clear_def stream_content_def file_stream_def intro: touches_trans)
qed

lemma open_file_new:
  assumes "no_faults w" and "get_node w (data_dir s) name = None" and "w_dirs w (data_dir s) \<noteq> None"
  shows "\<exists>w'. open_file k w s name
      = (w', s\<lparr>wr_file := Some (file_stream (data_dir s) name (length (file_image k []))), current_name := name,
           file_record_count := 0\<rparr>, True)
    \<and> get_file w' (data_dir s) name = Some (file_image k []) \<and> touches w w' (data_dir s) name"
proof -
  let ?w2 = "put_file (io_tick (io_tick w)) (data_dir s) name []"
  let ?w3 = "put_file (io_tick ?w2) (data_dir s) name (header_bytes (default_header k))"
  have im: "header_bytes (default_header k) = file_image k []"
    by (cases k) (simp_all add: file_image_def set_count_def)
  have "touches w ?w2 (data_dir s) name" by (rule touches_trans [OF touches_tick touches_put_tick])
  then have "touches w ?w3 (data_dir s) name" using touches_put_tick touches_trans by blast
  then show ?thesis
    using assms im
    by (intro exI [of _ ?w3])
      (auto simp: open_file_def path_exists_def open_trunc_def io_simps stream_write_def stream_content_def
        get_file_put file_stream_def overwrite_def Let_def)
qed

end
