(* ===== verification/Writer_Session.thy ===== *)
theory Writer_Session
  imports Record_Writer
begin

text \<open>
  What a session of the writer leaves on disk. The specification of the store is a map from
  hour names to the records of that hour, in the order in which they were accepted. The
  refinement invariant \<open>files_inv\<close> relates it to the files, the open stream and the counters of
  the writer; every file operation of the worker refines an operation of the map. Sessions in
  which calls fail keep the records that were in the files before.
\<close>

section \<open>The abstract store\<close>

type_synonym store = "string \<rightharpoonup> byte list list"

definition hour_names :: "rec_kind \<Rightarrow> string set" where
  "hour_names k = range (hourly_file_name (rec_file_prefix k))"

definition hour_of :: "rec_kind \<Rightarrow> byte list \<Rightarrow> string" where
  "hour_of k r = hourly_file_name (rec_file_prefix k) (rec_recv_ts_us r)"

definition records_of :: "store \<Rightarrow> string \<Rightarrow> byte list list" where
  "records_of A n = (case A n of None \<Rightarrow> [] | Some rs \<Rightarrow> rs)"

definition store_record :: "rec_kind \<Rightarrow> store \<Rightarrow> byte list \<Rightarrow> store" where
  "store_record k A r = A(hour_of k r \<mapsto> records_of A (hour_of k r) @ [stamp_record_crc k r])"

definition store_records :: "rec_kind \<Rightarrow> store \<Rightarrow> byte list list \<Rightarrow> store" where
  "store_records k A rs = foldl (store_record k) A rs"

lemma store_records_simps [simp]:
  "store_records k A [] = A" "store_records k A (r # rs) = store_records k (store_record k A r) rs"
  "store_records k A (rs @ rs') = store_records k (store_records k A rs) rs'"
  by (simp_all add: store_records_def)

text \<open>The records of an hour are the old ones followed by the accepted ones of that hour.\<close>

lemma records_of_store_records:
  "records_of (store_records k A rs) n
     = records_of A n @ map (stamp_record_crc k) (filter (\<lambda>r. hour_of k r = n) rs)"
proof (induction rs arbitrary: A)
  case (Cons r rs)
  have "records_of (store_record k A r) n = records_of A n @ (if hour_of k r = n then [stamp_record_crc k r] else [])"
    by (simp add: records_of_def store_record_def)
  then show ?case using Cons [of "store_record k A r"] by simp
qed simp

lemma dom_store_records: "dom (store_records k A rs) = dom A \<union> hour_of k ` set rs"
  by (induction rs arbitrary: A) (auto simp: store_record_def)

lemma hourly_file_name_not_Nil: "hourly_file_name p ts \<noteq> []"
  by (simp add: hourly_file_name_def Let_def)

lemma hour_of_names [simp]: "hour_of k r \<in> hour_names k"
  by (simp add: hour_of_def hour_names_def)

section \<open>The refinement invariant\<close>

text \<open>
  Hour files outside \<open>X\<close> hold the records of the store; those in \<open>C\<close> have no damaged tail
  and a header whose count is right.
\<close>

definition closed_file :: "rec_kind \<Rightarrow> world \<Rightarrow> string \<Rightarrow> byte list list option \<Rightarrow> bool \<Rightarrow> string \<Rightarrow> bool" where
  "closed_file k w dir a clean n = (case a of None \<Rightarrow> get_node w dir n = None
     | Some rs \<Rightarrow> hour_file k w dir n rs \<and> (clean \<longrightarrow> get_file w dir n = Some (file_image k rs)))"

definition closed_files ::
    "rec_kind \<Rightarrow> world \<Rightarrow> string \<Rightarrow> store \<Rightarrow> string set \<Rightarrow> string set \<Rightarrow> bool" where
  "closed_files k w dir A C X \<longleftrightarrow> (\<forall>n \<in> hour_names k - X. closed_file k w dir (A n) (n \<in> C) n)"

definition open_stream :: "rec_kind \<Rightarrow> world \<Rightarrow> writer \<Rightarrow> byte list list \<Rightarrow> bool" where
  "open_stream k w s rs \<longleftrightarrow> list_all (valid_rec k) rs
     \<and> (\<exists>c. get_file w (data_dir s) (current_name s) = Some (header_bytes (set_count c (default_header k)) @ concat rs))
     \<and> wr_file s = Some (file_stream (data_dir s) (current_name s) (length (file_image k rs)))
     \<and> file_record_count s = of_nat (length rs)"

definition files_inv :: "rec_kind \<Rightarrow> world \<Rightarrow> writer \<Rightarrow> store \<Rightarrow> string set \<Rightarrow> bool" where
  "files_inv k w s A C \<longleftrightarrow> no_faults w \<and> w_dirs w (data_dir s) \<noteq> None \<and> \<not> write_error s
     \<and> (if wr_file s = None then current_name s = [] \<and> closed_files k w (data_dir s) A C {}
        else current_name s \<in> hour_names k \<and> current_name s \<in> C
          \<and> closed_files k w (data_dir s) A C {current_name s}
          \<and> (\<exists>rs. A (current_name s) = Some rs \<and> open_stream k w s rs))"

lemma hour_file_cong: "get_file w' d n = get_file w d n \<Longrightarrow> hour_file k w' d n rs = hour_file k w d n rs"
  by (simp add: hour_file_def)

lemma closed_files_touches:
  assumes "touches w w' dir m" and "m \<in> X"
  shows "closed_files k w' dir A C X = closed_files k w dir A C X"
proof -
  have "closed_file k w' dir a cl n = closed_file k w dir a cl n" if "n \<notin> X" for n a cl
  proof -
    have ne: "(dir, n) \<noteq> (dir, m)" using assms(2) that by auto
    then have "get_node w' dir n = get_node w dir n" using assms(1) unfolding touches_def by blast
    moreover have "get_file w' dir n = get_file w dir n" by (rule touches_get_file [OF assms(1) ne])
    ultimately show ?thesis by (simp add: closed_file_def hour_file_def split: option.split)
  qed
  then show ?thesis by (auto simp: closed_files_def)
qed

lemma closed_files_add:
  assumes "closed_files k w dir A C {m}" and "get_file w dir m = Some (file_image k rs)"
    and "list_all (valid_rec k) rs" and "A m = Some rs"
  shows "closed_files k w dir A C {}"
proof -
  have "closed_file k w dir (A m) cl m" for cl
    using assms(2,4) file_image_hour_file [OF assms(2,3)] by (simp add: closed_file_def)
  then show ?thesis using assms(1) by (auto simp: closed_files_def)
qed

lemma closed_files_other:
  "closed_files k w dir A C {} \<Longrightarrow> closed_files k w dir (A(m \<mapsto> rs)) (insert m C) {m}"
  "closed_files k w dir A C {m} \<Longrightarrow> closed_files k w dir (A(m \<mapsto> rs)) (insert m C) {m}"
  by (auto simp: closed_files_def)

lemma touches_dirs: "touches w w' d n \<Longrightarrow> w_dirs w' d' = None \<longleftrightarrow> w_dirs w d' = None"
  by (simp add: touches_def)

lemma persist_refines:
  assumes "files_inv k w s A C"
  shows "\<exists>w'. persist_header_count w s = (w', s, True) \<and> files_inv k w' s A C"
proof (cases "wr_file s")
  case None
  then show ?thesis using assms by (simp add: persist_header_count_def)
next
  case (Some f)
  with assms obtain rs c where a: "A (current_name s) = Some rs" "list_all (valid_rec k) rs"
    "get_file w (data_dir s) (current_name s) = Some (header_bytes (set_count c (default_header k)) @ concat rs)"
    "f = file_stream (data_dir s) (current_name s) (length (file_image k rs))"
    "file_record_count s = of_nat (length rs)"
    by (auto simp: files_inv_def open_stream_def)
  have "\<exists>w'. persist_header_count w s = (w', s, True) \<and> touches w w' (fs_dir f) (fs_name f)
    \<and> get_file w' (fs_dir f) (fs_name f)
      = Some (header_bytes (set_count (file_record_count s) (set_count c (default_header k))) @ concat rs)"
    using assms Some a by (intro persist_ok) (simp_all add: files_inv_def file_stream_def)
  then obtain w' where w': "persist_header_count w s = (w', s, True)" "touches w w' (data_dir s) (current_name s)"
    "get_file w' (data_dir s) (current_name s) = Some (header_bytes (set_count (of_nat (length rs)) (default_header k)) @ concat rs)"
    using a by (auto simp: file_stream_def)
  have "files_inv k w' s A C"
    using assms Some a w'(3) touches_no_faults [OF w'(2)] touches_dirs [OF w'(2)] closed_files_touches [OF w'(2)]
    by (auto simp: files_inv_def open_stream_def)
  then show ?thesis using w'(1) by blast
qed

lemma close_file_refines:
  assumes "files_inv k w s A C"
  shows "\<exists>w'. close_current_file w s
      = (w', s\<lparr>wr_file := None, current_name := [], file_record_count := 0\<rparr>, True)
    \<and> files_inv k w' (s\<lparr>wr_file := None, current_name := [], file_record_count := 0\<rparr>) A C"
proof (cases "wr_file s")
  case None
  then have "s\<lparr>wr_file := None, current_name := [], file_record_count := 0\<rparr> = s\<lparr>current_name := [], file_record_count := 0\<rparr>"
    by simp
  with None show ?thesis using assms by (simp add: close_current_file_def files_inv_def)
next
  case (Some f)
  with assms obtain rs c where a: "A (current_name s) = Some rs" "list_all (valid_rec k) rs"
    "get_file w (data_dir s) (current_name s) = Some (header_bytes (set_count c (default_header k)) @ concat rs)"
    "f = file_stream (data_dir s) (current_name s) (length (file_image k rs))"
    "file_record_count s = of_nat (length rs)"
    by (auto simp: files_inv_def open_stream_def)
  have "\<exists>w'. close_current_file w s
      = (w', s\<lparr>wr_file := None, current_name := [], file_record_count := 0\<rparr>, True)
    \<and> touches w w' (fs_dir f) (fs_name f) \<and> get_file w' (fs_dir f) (fs_name f)
      = Some (header_bytes (set_count (file_record_count s) (set_count c (default_header k))) @ concat rs)"
    using assms Some a by (intro close_file_ok) (simp_all add: files_inv_def file_stream_def)
  then obtain w' where w': "close_current_file w s
      = (w', s\<lparr>wr_file := None, current_name := [], file_record_count := 0\<rparr>, True)"
    "touches w w' (data_dir s) (current_name s)"
    "get_file w' (data_dir s) (current_name s) = Some (file_image k rs)"
    using a by (auto simp: file_stream_def file_image_def)
  have "closed_files k w' (data_dir s) A C {current_name s}"
    using assms Some closed_files_touches [OF w'(2)] by (simp add: files_inv_def)
  from closed_files_add [OF this w'(3) a(2,1)] show ?thesis
    using assms Some w'(1) touches_no_faults [OF w'(2)] touches_dirs [OF w'(2), of "data_dir s"]
    by (auto simp: files_inv_def)
qed

lemma open_file_refines:
  assumes "files_inv k w s A C" and "wr_file s = None" and "name \<in> hour_names k"
  shows "\<exists>w' s'. open_file k w s name = (w', s', True) \<and> current_name s' = name \<and> wr_file s' \<noteq> None
    \<and> files_inv k w' s' (A(name \<mapsto> records_of A name)) (insert name C)"
proof -
  have i: "no_faults w" "w_dirs w (data_dir s) \<noteq> None" "closed_files k w (data_dir s) A C {}" "\<not> write_error s"
    using assms by (simp_all add: files_inv_def)
  obtain w' s' where o: "open_file k w s name = (w', s', True)" "touches w w' (data_dir s) name"
    "\<exists>t. s' = s\<lparr>wr_file := Some (file_stream (data_dir s) name (length (file_image k (records_of A name)))),
       current_name := name, file_record_count := of_nat (length (records_of A name)), tail_bytes_discarded := t\<rparr>"
    "get_file w' (data_dir s) name = Some (file_image k (records_of A name))"
    "list_all (valid_rec k) (records_of A name)"
  proof (cases "A name")
    case None
    with i(3) assms(3) have "get_node w (data_dir s) name = None"
      by (auto simp: closed_files_def closed_file_def split: option.splits)
    then obtain w1 where "open_file k w s name
        = (w1, s\<lparr>wr_file := Some (file_stream (data_dir s) name (length (file_image k []))), current_name := name,
           file_record_count := 0\<rparr>, True)"
      "get_file w1 (data_dir s) name = Some (file_image k [])" "touches w w1 (data_dir s) name"
      using open_file_new [OF i(1) _ i(2)] by blast
    with None show thesis
      by (intro that) (auto simp: records_of_def intro!: exI [of _ "tail_bytes_discarded s"])
  next
    case (Some rs)
    with i(3) assms(3) have h: "hour_file k w (data_dir s) name rs"
      by (auto simp: closed_files_def closed_file_def split: option.splits)
    then have "list_all (valid_rec k) rs" by (auto simp: hour_file_def)
    moreover from open_file_existing [OF i(1) h] obtain w1 s1 where "open_file k w s name = (w1, s1, True)"
      "s1 = s\<lparr>wr_file := Some (file_stream (data_dir s) name (length (file_image k rs))), current_name := name,
        file_record_count := of_nat (length rs), tail_bytes_discarded := tail_bytes_discarded s1\<rparr>"
      "get_file w1 (data_dir s) name = Some (file_image k rs)" "touches w w1 (data_dir s) name" by blast
    moreover have "records_of A name = rs" using Some by (simp add: records_of_def)
    ultimately show thesis by (intro that [of w1 s1]) auto
  qed
  have "closed_files k w' (data_dir s) (A(name \<mapsto> records_of A name)) (insert name C) {name}"
    using closed_files_touches [OF o(2)] closed_files_other(1) [OF i(3)] by blast
  moreover have s': "data_dir s' = data_dir s" "current_name s' = name" "write_error s' = write_error s"
    "wr_file s' = Some (file_stream (data_dir s) name (length (file_image k (records_of A name))))"
    "file_record_count s' = of_nat (length (records_of A name))"
    using o(3) by auto
  moreover have "open_stream k w' s' (records_of A name)"
    using o(4,5) s' by (auto simp: open_stream_def file_image_def)
  ultimately have "files_inv k w' s' (A(name \<mapsto> records_of A name)) (insert name C)"
    using i assms(3) touches_no_faults [OF o(2)] touches_dirs [OF o(2)] by (auto simp: files_inv_def)
  then show ?thesis using o(1) s' by auto
qed

text \<open>The clock is read only for records without a receive time.\<close>

definition good_rec :: "rec_kind \<Rightarrow> byte list \<Rightarrow> bool" where
  "good_rec k r \<longleftrightarrow> length r = rec_size k \<and> 0 < rec_recv_ts_us r"

lemma select_file_refines:
  assumes "files_inv k w s A C" and "name \<in> hour_names k"
  shows "\<exists>w' s'. select_file k w s name = (w', s', True) \<and> current_name s' = name \<and> wr_file s' \<noteq> None
    \<and> files_inv k w' s' (A(name \<mapsto> records_of A name)) (insert name C)"
proof (cases "name = current_name s")
  case False
  let ?s = "s\<lparr>wr_file := None, current_name := [], file_record_count := 0\<rparr>"
  obtain w1 where c: "close_current_file w s = (w1, ?s, True)" "files_inv k w1 ?s A C"
    using close_file_refines [OF assms(1)] by blast
  then show ?thesis using open_file_refines [OF c(2) _ assms(2)] False by (simp add: select_file_def)
next
  case True
  have "name \<noteq> []" using assms(2) hourly_file_name_not_Nil by (auto simp: hour_names_def)
  with True assms(1) have f: "wr_file s \<noteq> None" by (auto simp: files_inv_def split: if_splits)
  with True assms(1) obtain rs where rs: "A name = Some rs" "name \<in> C" by (auto simp: files_inv_def)
  then have "A(name \<mapsto> records_of A name) = A" "insert name C = C" by (auto simp: records_of_def)
  with True f assms(1) show ?thesis by (simp add: select_file_def)
qed

lemma append_refines:
  assumes "files_inv k w s A C" and "wr_file s = Some f" and "A (current_name s) = Some rs" and "valid_rec k r"
  shows "\<exists>w' f'. stream_write w f r = (w', f') \<and> \<not> fs_bad f'
    \<and> files_inv k w' (s\<lparr>wr_file := Some f', file_record_count := file_record_count s + 1\<rparr>)
        (A(current_name s \<mapsto> rs @ [r])) C"
proof -
  let ?d = "data_dir s" and ?n = "current_name s"
  have o: "open_stream k w s rs" "closed_files k w ?d A C {?n}" "?n \<in> C" using assms by (auto simp: files_inv_def)
  then obtain c where f: "get_file w ?d ?n = Some (header_bytes (set_count c (default_header k)) @ concat rs)"
    "f = file_stream ?d ?n (length (file_image k rs))" "list_all (valid_rec k) rs"
    "file_record_count s = of_nat (length rs)"
    using assms(2) by (auto simp: open_stream_def)
  let ?w = "put_file (io_tick w) ?d ?n (header_bytes (set_count c (default_header k)) @ concat (rs @ [r]))"
  let ?f = "file_stream ?d ?n (length (file_image k (rs @ [r])))"
  have "overwrite (length (file_image k rs)) r (header_bytes (set_count c (default_header k)) @ concat rs)
      = header_bytes (set_count c (default_header k)) @ concat (rs @ [r])"
    by (simp add: overwrite_def file_image_def)
  then have sw: "stream_write w f r = (?w, ?f)"
    using assms(1) f by (simp add: stream_write_def files_inv_def io_simps file_stream_def stream_content_def
        file_image_def)
  have t: "touches w ?w ?d ?n" by simp
  have "open_stream k ?w (s\<lparr>wr_file := Some ?f, file_record_count := file_record_count s + 1\<rparr>) (rs @ [r])"
    using f assms(4) dir_of_get_file [OF f(1)] by (auto simp: open_stream_def get_file_put)
  moreover have "closed_files k ?w ?d (A(?n \<mapsto> rs @ [r])) C {?n}"
    using closed_files_touches [OF t] closed_files_other(2) [OF o(2)] o(3) by (simp add: insert_absorb)
  ultimately show ?thesis
    using sw assms(1,2) touches_no_faults [OF t] touches_dirs [OF t, of ?d]
    by (intro exI [of _ ?w] exI [of _ ?f]) (auto simp: files_inv_def file_stream_def)
qed

lemma write_refines:
  assumes "files_inv k w s A C" and "good_rec k r"
  shows "\<exists>w' s'. write_to_file k w s r = (w', s', True)
    \<and> files_inv k w' s' (store_record k A r) (insert (hour_of k r) C)"
proof -
  let ?n = "hour_of k r"
  have ts: "record_ts_us w r = (w, rec_recv_ts_us r)" using assms(2) by (simp add: record_ts_us_def good_rec_def)
  obtain w2 s2 where s: "select_file k w s ?n = (w2, s2, True)" "current_name s2 = ?n"
    "wr_file s2 \<noteq> None" "files_inv k w2 s2 (A(?n \<mapsto> records_of A ?n)) (insert ?n C)"
    using select_file_refines [OF assms(1) hour_of_names] by blast
  then obtain f where f: "wr_file s2 = Some f" by blast
  have "valid_rec k (stamp_record_crc k r)" using assms(2) by (simp add: good_rec_def)
  from append_refines [OF s(4) f _ this] s(2) obtain w3 f3 where
    "stream_write w2 f (stamp_record_crc k r) = (w3, f3)" "\<not> fs_bad f3"
    "files_inv k w3 (s2\<lparr>wr_file := Some f3, file_record_count := file_record_count s2 + 1\<rparr>)
      (store_record k A r) (insert ?n C)"
    by (auto simp: store_record_def)
  then show ?thesis
    using s(1) f ts by (simp add: write_to_file_def hour_of_def [symmetric])
qed

lemma write_batch_refines:
  "files_inv k w s A C \<Longrightarrow> list_all (good_rec k) rs \<Longrightarrow>
     \<exists>w' s'. write_batch k w s rs = (w', s', length rs)
       \<and> files_inv k w' s' (store_records k A rs) (C \<union> hour_of k ` set rs)"
proof (induction rs arbitrary: w s A C)
  case (Cons r rs)
  from Cons.prems have "good_rec k r" by simp
  with write_refines Cons.prems(1) obtain w1 s1 where 1: "write_to_file k w s r = (w1, s1, True)"
    "files_inv k w1 s1 (store_record k A r) (insert (hour_of k r) C)" by blast
  with Cons.IH [OF 1(2)] Cons.prems show ?case by auto
qed simp

lemma files_inv_control [simp]:
  "files_inv k w (s\<lparr>worker := p\<rparr>) A C = files_inv k w s A C"
  "files_inv k w (s\<lparr>records_written := n\<rparr>) A C = files_inv k w s A C"
  "files_inv k w (s\<lparr>records_dropped := n\<rparr>) A C = files_inv k w s A C"
  "files_inv k w (s\<lparr>queue := q\<rparr>) A C = files_inv k w s A C"
  "files_inv k w (s\<lparr>queue_depth_max := m\<rparr>) A C = files_inv k w s A C"
  "files_inv k w (s\<lparr>closing := b\<rparr>) A C = files_inv k w s A C"
  "files_inv k w (s\<lparr>running := b\<rparr>) A C = files_inv k w s A C"
  "files_inv k w (s\<lparr>accepting := b\<rparr>) A C = files_inv k w s A C"
  by (simp_all add: files_inv_def open_stream_def)

lemma process_batch_refines:
  assumes "files_inv k w s A C" and "list_all (good_rec k) batch"
  shows "\<exists>w' s'. process_batch k w s batch = (w', s') \<and> worker s' = Waiting
    \<and> records_written s' = records_written s + of_nat (length batch)
    \<and> files_inv k w' s' (store_records k A batch) (C \<union> hour_of k ` set batch)"
proof -
  obtain w1 s1 where b: "write_batch k w s batch = (w1, s1, length batch)"
    "files_inv k w1 s1 (store_records k A batch) (C \<union> hour_of k ` set batch)"
    using write_batch_refines [OF assms] by blast
  define s2 where "s2 = s1\<lparr>records_written := records_written s1 + of_nat (length batch)\<rparr>"
  have "files_inv k w1 s2 (store_records k A batch) (C \<union> hour_of k ` set batch)"
    using b(2) by (simp add: s2_def)
  then obtain w3 where p: "persist_header_count w1 s2 = (w3, s2, True)"
    "files_inv k w3 s2 (store_records k A batch) (C \<union> hour_of k ` set batch)"
    using persist_refines by blast
  have rw: "records_written s2 = records_written s + of_nat (length batch)"
    using write_batch_control [OF b(1)] by (simp add: same_control_def s2_def)
  have "process_batch k w s batch = (if batch = [] then w1 else w3, s2\<lparr>worker := Waiting\<rparr>)"
    using b(1) p(1) by (simp add: process_batch_def s2_def [symmetric])
  moreover have "files_inv k w1 s2 (store_records k A batch) (C \<union> hour_of k ` set batch)"
    using b(2) by (simp add: s2_def)
  ultimately show ?thesis using p(2) rw by (cases "batch = []") simp_all
qed

section \<open>Runs in an environment\<close>

text \<open>
  The trade and the order book writer share a directory, so between two sections of one writer
  the file system may change. \<open>srun\<close> are the runs of a writer in an environment that keeps the
  writer's own hour files.
\<close>

definition own_name :: "rec_kind \<Rightarrow> string \<Rightarrow> bool" where
  "own_name k n \<longleftrightarrow> is_hourly_file_name (rec_file_prefix k) n \<or> n \<in> hour_names k"

definition others :: "rec_kind \<Rightarrow> string \<Rightarrow> world \<Rightarrow> world \<Rightarrow> bool" where
  "others k dir w w' \<longleftrightarrow> (\<forall>n. own_name k n \<longrightarrow> get_node w' dir n = get_node w dir n)
     \<and> (w_dirs w' dir = None \<longleftrightarrow> w_dirs w dir = None)
     \<and> (distinct_names w dir \<longrightarrow> distinct_names w' dir) \<and> w_fault w' = w_fault w"

lemma others_refl [simp]: "others k dir w w"
  by (simp add: others_def)

inductive srun :: "rec_kind \<Rightarrow> world \<times> writer \<Rightarrow> wevent list \<Rightarrow> world \<times> writer \<Rightarrow> bool" for k c where
  Start: "srun k c [] c"
| Own: "srun k c es c' \<Longrightarrow> wstep k c' e c'' \<Longrightarrow> srun k c (es @ [e]) c''"
| Other: "srun k c es (w, s) \<Longrightarrow> others k (data_dir s) w w' \<Longrightarrow> srun k c es (w', s)"

lemma files_inv_others:
  assumes "files_inv k w s A C" and "others k (data_dir s) w w'"
  shows "files_inv k w' s A C"
proof -
  let ?d = "data_dir s"
  have n: "get_node w' ?d n = get_node w ?d n" if "n \<in> hour_names k" for n
    using assms(2) that by (simp add: others_def own_name_def)
  then have f: "get_file w' ?d n = get_file w ?d n" if "n \<in> hour_names k" for n
    using that by (simp add: get_file_def)
  then have "closed_file k w' ?d a cl n = closed_file k w ?d a cl n" if "n \<in> hour_names k" for a cl n
    using that n by (simp add: closed_file_def hour_file_def split: option.split)
  then have "closed_files k w' ?d A C X = closed_files k w ?d A C X" for X by (simp add: closed_files_def)
  moreover have "no_faults w' = no_faults w" "w_dirs w' ?d = None \<longleftrightarrow> w_dirs w ?d = None"
    using assms(2) by (simp_all add: others_def no_faults_def)
  ultimately show ?thesis using assms(1) f by (auto simp: files_inv_def open_stream_def)
qed

lemma wrun_srun: "wrun k c es c' \<Longrightarrow> srun k c es c'"
  by (induction rule: wrun.induct) (auto intro: srun.intros)

lemma srun_inv: "srun k c es c' \<Longrightarrow> session_inv (snd c) \<Longrightarrow> session_inv (snd c')"
  by (induction rule: srun.induct) (auto dest: wstep_inv)

lemma srun_accounted:
  "srun k c es c' \<Longrightarrow> session_inv (snd c) \<Longrightarrow> accounted (snd c') = accounted (snd c) + of_nat (offered es)"
proof (induction rule: srun.induct)
  case (Own es c' e c'')
  then show ?case using wstep_accounted [OF Own(2)] srun_inv [OF Own(1)] by simp
qed simp_all

section \<open>Sessions without failures\<close>

definition clean_session ::
    "rec_kind \<Rightarrow> store \<Rightarrow> string set \<Rightarrow> wevent list \<Rightarrow> world \<times> writer \<Rightarrow> bool" where
  "clean_session k A C es c \<longleftrightarrow>
     files_inv k (fst c) (snd c) (store_records k A (processed es)) (C \<union> hour_of k ` set (processed es))
     \<and> (\<forall>n. worker (snd c) \<noteq> Failing n)
     \<and> (worker (snd c) = NoThread \<longrightarrow> wr_file (snd c) = None)
     \<and> records_written (snd c) = of_nat (length (processed es))"

lemma write_record_files:
  "write_record s r = (s', ok) \<Longrightarrow> files_inv k w s' A C = files_inv k w s A C \<and> worker s' = worker s
     \<and> wr_file s' = wr_file s \<and> records_written s' = records_written s"
  by (auto simp: write_record_def Let_def split: if_splits)

lemma wstep_clean:
  assumes "wstep k c e c'" and "clean_session k A C es c" and "fifo es [] (snd c)"
    and "list_all (good_rec k) (accepted es)"
  shows "clean_session k A C (es @ [e]) c'"
  using assms
proof (induction rule: wstep.induct)
  case (Write s r s' ok w)
  then show ?case using write_record_files [OF Write(1)] by (simp add: clean_session_def)
next
  case (CloseEnd s w w' s')
  let ?s = "s\<lparr>worker := NoThread\<rparr>"
  let ?A = "store_records k A (processed es)" and ?C = "C \<union> hour_of k ` set (processed es)"
  have "files_inv k w ?s ?A ?C" using CloseEnd(4) by (simp add: clean_session_def)
  from close_file_refines [OF this] obtain w1 where "close_current_file w ?s
      = (w1, ?s\<lparr>wr_file := None, current_name := [], file_record_count := 0\<rparr>, True)"
    "files_inv k w1 (?s\<lparr>wr_file := None, current_name := [], file_record_count := 0\<rparr>) ?A ?C" by blast
  with CloseEnd show ?case by (auto simp: clean_session_def close_end_def)
next
  case (Process s batch w w' s')
  then have "list_all (good_rec k) batch" by (simp add: fifo_def)
  with process_batch_refines [of k w s "store_records k A (processed es)" "C \<union> hour_of k ` set (processed es)" batch]
  show ?case using Process by (auto simp: clean_session_def image_Un Un_assoc)
qed (auto simp: clean_session_def close_begin_def take_batch_def)

lemma srun_clean:
  assumes "srun k c es c'" and "session_inv (snd c)" and "clean_session k A C [] c"
    and "queue (snd c) = []" and "worker (snd c) = Waiting" and "list_all (good_rec k) (accepted es)"
  shows "clean_session k A C es c' \<and> fifo es [] (snd c')"
  using assms
proof (induction rule: srun.induct)
  case Start
  then show ?case by (simp add: fifo_def)
next
  case (Own es c' e c'')
  then have IH: "clean_session k A C es c'" "fifo es [] (snd c')" by simp_all
  then have cl: "clean_session k A C (es @ [e]) c''" using wstep_clean [OF Own(2)] Own.prems by simp
  obtain lost where "fifo (es @ [e]) lost (snd c'')"
    using wstep_fifo [OF Own(2) srun_inv [OF Own(1)] IH(2)] Own.prems by blast
  moreover have "\<not> write_error (snd c'')" using cl by (simp add: clean_session_def files_inv_def)
  ultimately show ?case using cl by (cases "lost = []") (auto simp: fifo_def)
next
  case (Other es w s w')
  then show ?case using files_inv_others by (auto simp: clean_session_def)
qed

section \<open>Sessions with failures\<close>

text \<open>The file \<open>n\<close> still begins with the records \<open>rs\<close>.\<close>

definition keeps :: "rec_kind \<Rightarrow> world \<Rightarrow> string \<Rightarrow> string \<Rightarrow> byte list list \<Rightarrow> bool" where
  "keeps k w dir n rs \<longleftrightarrow> list_all (valid_rec k) rs
     \<and> (\<exists>m u. get_file w dir n = Some (header_bytes (set_count m (default_header k)) @ concat rs @ u))"

definition exists_reliable :: "world \<Rightarrow> bool" where
  "exists_reliable w \<longleftrightarrow> (\<forall>n. w_fault w Io_exists n = None)"

text \<open>The stream of the file \<open>n\<close> writes behind its records.\<close>

definition behind :: "rec_kind \<Rightarrow> writer \<Rightarrow> string \<Rightarrow> byte list list \<Rightarrow> fstream \<Rightarrow> bool" where
  "behind k s n rs f \<longleftrightarrow> fs_dir f = data_dir s \<and> fs_name f = current_name s
     \<and> (fs_name f = n \<longrightarrow> fs_bad f \<or> length (file_image k rs) \<le> fs_pos f)"

definition safe :: "rec_kind \<Rightarrow> string \<Rightarrow> byte list list \<Rightarrow> world \<Rightarrow> writer \<Rightarrow> bool" where
  "safe k n rs w s \<longleftrightarrow> keeps k w (data_dir s) n rs \<and> exists_reliable w
     \<and> (\<forall>f. wr_file s = Some f \<longrightarrow> behind k s n rs f)"

definition good_stream :: "writer \<Rightarrow> bool" where
  "good_stream s \<longleftrightarrow> (\<forall>f. wr_file s = Some f \<longrightarrow> fs_bad f \<longrightarrow> write_error s)"

lemma keeps_touches: "touches w w' dir m \<Longrightarrow> m \<noteq> n \<Longrightarrow> keeps k w' dir n rs = keeps k w dir n rs"
  using touches_get_file [of w w' dir m dir n] by (auto simp: keeps_def)

lemma exists_reliable_touches: "touches w w' d m \<Longrightarrow> exists_reliable w' = exists_reliable w"
  by (simp add: touches_def exists_reliable_def)

lemma length_file_image: "list_all (valid_rec k) rs \<Longrightarrow> length (file_image k rs) = header_size + length (concat rs)"
  by (simp add: file_image_def)

lemma overwrite_behind:
  "length a \<le> pos \<Longrightarrow> overwrite pos bs (a @ x) = a @ overwrite (pos - length a) bs x"
  by (simp add: overwrite_def)

lemma stream_write_keeps:
  assumes "keeps k w dir n rs" and "stream_write w f bs = (w', f')"
    and "fs_dir f = dir" and "fs_name f = n \<longrightarrow> fs_bad f \<or> length (file_image k rs) \<le> fs_pos f"
  shows "keeps k w' dir n rs"
    and "fs_name f = n \<longrightarrow> fs_bad f' \<or> length (file_image k rs) \<le> fs_pos f'"
proof -
  obtain m u where u: "get_file w dir n = Some (header_bytes (set_count m (default_header k)) @ concat rs @ u)"
    and v: "list_all (valid_rec k) rs" using assms(1) by (auto simp: keeps_def)
  let ?a = "header_bytes (set_count m (default_header k)) @ concat rs"
  show "fs_name f = n \<longrightarrow> fs_bad f' \<or> length (file_image k rs) \<le> fs_pos f'"
    using assms(2,4) by (auto simp: stream_write_def Let_def split: if_splits)
  show "keeps k w' dir n rs"
  proof (cases "fs_name f = n \<and> \<not> fs_bad f")
    case True
    then have "length ?a \<le> fs_pos f" using assms(4) length_file_image [OF v] by simp
    then have "overwrite (fs_pos f) b (header_bytes (set_count m (default_header k)) @ concat rs @ u)
        = header_bytes (set_count m (default_header k)) @ concat rs @ overwrite (fs_pos f - length ?a) b u" for b
      using overwrite_behind [of ?a "fs_pos f" b u] by simp
    then show ?thesis
      using True assms(2,3) u v dir_of_get_file [OF u]
      by (auto simp: stream_write_def Let_def keeps_def get_file_put stream_content_def)
  next
    case False
    then show ?thesis
      using assms(1,2) keeps_touches [OF touches_stream_write [OF assms(2)]] assms(3)
      by (auto simp: stream_write_def)
  qed
qed

text \<open>The four stream operations of \<^verbatim>\<open>persist_header_count\<close>: the file they leave is that of a count written to the header.\<close>

lemma persist_sections:
  assumes "stream_seekp w (stream_clear f) (Some record_count_offset) = (w1, f1)" and "stream_write w1 f1 (u64_bytes c) = (w2, f2)"
    and "stream_seekp w2 f2 (Some (fs_pos f)) = (w3, f3)" and "stream_flush w3 f3 = (w4, f4)"
  shows "fs_dir f4 = fs_dir f" "fs_name f4 = fs_name f" "fs_bad f4 \<or> fs_pos f4 = fs_pos f" "touches w w4 (fs_dir f) (fs_name f)"
    and "get_file w (fs_dir f) (fs_name f) = Some (header_bytes (set_count m (default_header k)) @ u)
      \<Longrightarrow> \<exists>j. get_file w4 (fs_dir f) (fs_name f) = Some (header_bytes (set_count j (default_header k)) @ u)"
proof -
  show "fs_dir f4 = fs_dir f" "fs_name f4 = fs_name f" "fs_bad f4 \<or> fs_pos f4 = fs_pos f"
    using assms stream_same_file(2) [OF assms(1)] stream_same_file(1) [OF assms(2)] stream_same_file(2) [OF assms(3)]
      stream_same_file(3) [OF assms(4)]
    by (auto simp: stream_clear_def stream_seekp_def stream_flush_def split: if_splits)
  show "touches w w4 (fs_dir f) (fs_name f)"
    using touches_stream_seekp [OF assms(1)] touches_stream_write [OF assms(2)] touches_stream_seekp [OF assms(3)]
      touches_stream_flush [OF assms(4)] stream_same_file(2) [OF assms(1)]
    by (metis fstream.select_convs(1,2) fstream.surjective fstream.update_convs(4) stream_clear_def touches_trans)
  have wc: "write_count w f c = stream_flush w2 f2" using assms by (simp add: write_count_def)
  obtain w5 f5 where wc5: "stream_flush w2 f2 = (w5, f5)" by force
  have g: "get_file w4 a b = get_file w5 a b" for a b
    using assms(3,4) wc5 by (auto simp: stream_seekp_def stream_flush_def split: if_splits)
  show "\<exists>j. get_file w4 (fs_dir f) (fs_name f) = Some (header_bytes (set_count j (default_header k)) @ u)"
    if "get_file w (fs_dir f) (fs_name f) = Some (header_bytes (set_count m (default_header k)) @ u)"
    unfolding g by (rule write_count_keeps [OF wc [unfolded wc5] that]) auto
qed

lemma persist_keeps:
  assumes "safe k n rs w s" and "good_stream s" and "persist_header_count w s = (w', s', ok)"
  shows "safe k n rs w' s'" "good_stream s'" "current_name s' = current_name s"
proof -
  have "safe k n rs w' s' \<and> good_stream s' \<and> current_name s' = current_name s"
  proof (cases "wr_file s = None \<or> write_error s")
    case True
    then have "w' = w \<and> s' = s" using assms(3) by (auto simp: persist_header_count_def split: option.splits)
    then show ?thesis using assms by simp
  next
    case False
    then obtain f where f: "wr_file s = Some f" by auto
    have nb: "\<not> fs_bad f" using f False assms(2) by (simp add: good_stream_def)
    obtain w1 f1 w2 f2 w3 f3 w4 f4 where st:
      "stream_seekp w (stream_clear f) (Some record_count_offset) = (w1, f1)"
      "stream_write w1 f1 (u64_bytes (file_record_count s)) = (w2, f2)"
      "stream_seekp w2 f2 (Some (fs_pos f)) = (w3, f3)" "stream_flush w3 f3 = (w4, f4)"
      by (metis prod.exhaust)
    have "stream_tellp f = Some (fs_pos f)" using nb by (simp add: stream_tellp_def)
    then have r: "w' = w4" "s' = s\<lparr>wr_file := Some f4\<rparr> \<or> s' = s\<lparr>wr_file := Some f4, write_error := True\<rparr>"
      "fs_bad f4 \<longrightarrow> write_error s'"
      using assms(3) f False st by (auto simp: persist_header_count_def split: if_splits)
    have d: "fs_dir f = data_dir s" "fs_name f = current_name s"
      using assms(1) f by (auto simp: safe_def behind_def)
    note p = persist_sections [OF st, unfolded d]
    have "keeps k w4 (data_dir s) n rs"
    proof (cases "current_name s = n")
      case True
      obtain m u where "get_file w (data_dir s) (current_name s) = Some (header_bytes (set_count m (default_header k)) @ concat rs @ u)"
        "list_all (valid_rec k) rs" using assms(1) True by (auto simp: safe_def keeps_def)
      with p(5) [of m k "concat rs @ u"] True show ?thesis by (auto simp: keeps_def)
    next
      case False
      then show ?thesis using keeps_touches [OF p(4) False] assms(1) by (simp add: safe_def)
    qed
    then show ?thesis
      using assms(1) f nb r p(1-3) d exists_reliable_touches [OF p(4)] by (auto simp: safe_def good_stream_def behind_def)
  qed
  then show "safe k n rs w' s'" "good_stream s'" "current_name s' = current_name s" by simp_all
qed

lemma keeps_tick [simp]: "keeps k (io_tick w) d n rs = keeps k w d n rs"
  by (simp add: keeps_def)

lemma exists_reliable_tick [simp]: "exists_reliable (io_tick w) = exists_reliable w"
  by (simp add: exists_reliable_def io_tick_def)

lemma safe_tick [simp]: "safe k n rs (io_tick w) s = safe k n rs w s"
  by (simp add: safe_def)

lemma close_file_keeps:
  assumes "safe k n rs w s" and "good_stream s" and "close_current_file w s = (w', s', ok)"
  shows "safe k n rs w' s'" "wr_file s' = None" "current_name s' = []"
proof -
  have "safe k n rs w' s' \<and> wr_file s' = None \<and> current_name s' = []"
  proof (cases "wr_file s")
    case None
    then show ?thesis using assms by (auto simp: close_current_file_def safe_def)
  next
    case (Some f)
    obtain w1 s1 ok1 where p: "persist_header_count w s = (w1, s1, ok1)" by (metis prod_cases3)
    note s1 = persist_keeps [OF assms(1,2) p]
    have "w' = io_tick w1 \<or> w' = io_tick (io_tick w1)"
      using assms(3) Some p
      by (auto simp: close_current_file_def stream_flush_def stream_close_def Let_def split: if_splits)
    moreover have "wr_file s' = None \<and> current_name s' = [] \<and> data_dir s' = data_dir s1"
      using assms(3) Some p by (auto simp: close_current_file_def Let_def split: if_splits prod.splits)
    ultimately show ?thesis using s1(1) by (auto simp: safe_def)
  qed
  then show "safe k n rs w' s'" "wr_file s' = None" "current_name s' = []" by simp_all
qed

lemma repair_keeps_prefix:
  assumes "keeps k w dir n rs" and "repair_record_file k w dir n = (w', r)"
  shows "keeps k w' dir n rs"
proof -
  obtain m u where u: "get_file w dir n = Some (header_bytes (set_count m (default_header k)) @ concat rs @ u)"
    "list_all (valid_rec k) rs" using assms(1) by (auto simp: keeps_def)
  obtain rs' t where t: "u = concat rs' @ t" "list_all (valid_rec k) rs'" "damaged_tail k t"
    by (rule split_valid)
  have "get_file w dir n = Some (header_bytes (set_count m (default_header k)) @ concat (rs @ rs') @ t)"
    using u(1) t(1) by simp
  from repair_keeps [OF assms(2) this _ _ t(3)] u(2) t(2) show ?thesis by (auto simp: keeps_def)
qed

lemma open_new_file_keeps:
  assumes "safe k n rs w s" and "wr_file s = None" and "open_file k w s name = (w', s', ok)" and "get_node w (data_dir s) name = None"
  shows "safe k n rs w' s' \<and> good_stream s' \<and> (ok \<longrightarrow> current_name s' = name)"
proof -
  let ?d = "data_dir s"
  have ks: "keeps k w ?d n rs" "exists_reliable w" using assms(1) by (auto simp: safe_def)
  have ne: "name \<noteq> n" using ks(1) assms(4) by (auto simp: keeps_def get_file_def)
  obtain w2 fo where o: "open_trunc (io_tick w) ?d name = (w2, fo)" by force
  have t2: "touches w w2 ?d name" using touches_open_trunc [OF o] by simp
  show ?thesis
  proof (cases fo)
    case None
    then show ?thesis
      using assms o keeps_touches [OF t2 ne] exists_reliable_touches [OF t2] ks
      by (auto simp: open_file_def path_exists_def safe_def good_stream_def)
  next
    case (Some f)
    then have f: "fs_dir f = ?d" "fs_name f = name" using o by (auto simp: open_trunc_def split: option.splits if_splits)
    obtain w3 f3 where w3: "stream_write w2 f (header_bytes (default_header k)) = (w3, f3)" by force
    have t3: "touches w w3 ?d name" using touches_trans [OF t2] touches_stream_write [OF w3] f by simp
    show ?thesis
      using assms o Some w3 keeps_touches [OF t3 ne] exists_reliable_touches [OF t3] ks ne f stream_same_file(1) [OF w3]
      by (auto simp: open_file_def path_exists_def safe_def good_stream_def behind_def stream_close_def
          split: if_splits)
  qed
qed

lemma open_old_file_keeps:
  assumes "safe k n rs w s" and "wr_file s = None" and "open_file k w s name = (w', s', ok)" and "get_node w (data_dir s) name \<noteq> None"
  shows "safe k n rs w' s' \<and> good_stream s' \<and> (ok \<longrightarrow> current_name s' = name)"
proof -
  let ?d = "data_dir s"
  have ks: "keeps k w ?d n rs" "exists_reliable w" using assms(1) by (auto simp: safe_def)
  have ex: "path_exists w ?d name = (io_tick w, True)"
    using ks(2) assms(4) by (auto simp: path_exists_def exists_reliable_def io_fault_def)
  obtain w2 r where r: "repair_record_file k (io_tick w) ?d name = (w2, r)" by force
  have t: "touches w w2 ?d name" using repair_touches [OF r] by simp
  have "keeps k (io_tick w) ?d n rs" using ks(1) by (simp add: keeps_def)
  then have k2: "keeps k w2 ?d n rs" "exists_reliable w2"
    using repair_keeps_prefix [of k "io_tick w" ?d n rs] keeps_touches [OF t] r ks exists_reliable_touches [OF t]
    by (cases "name = n"; auto)+
  show ?thesis
  proof (cases "rep_ok r \<and> (\<exists>f. snd (open_inout w2 ?d name) = Some f)")
    case False
    then show ?thesis
      using assms ex r k2 by (auto simp: open_file_def safe_def good_stream_def open_inout_def split: option.splits if_splits)
  next
    case True
    then obtain f where o: "open_inout w2 ?d name = (io_tick w2, Some f)"
      "f = \<lparr>fs_dir = ?d, fs_name = name, fs_pos = 0, fs_bad = False\<rparr>"
      using open_inout_Some by (metis prod.collapse)
    have "length (file_image k rs) \<le> length (stream_content w2 f)" if "name = n"
      using k2 that o(2) by (auto simp: keeps_def stream_content_def file_image_def)
    moreover have "stream_content (io_tick w2) f = stream_content w2 f" by (simp add: stream_content_def)
    ultimately show ?thesis
      using assms ex r True o k2
      by (auto simp: open_file_def safe_def good_stream_def behind_def stream_seekp_def stream_clear_def
          stream_close_def split: if_splits)
  qed
qed

lemma open_file_keeps:
  assumes "safe k n rs w s" and "wr_file s = None" and "open_file k w s name = (w', s', ok)"
  shows "safe k n rs w' s'" "good_stream s'" "ok \<Longrightarrow> current_name s' = name"
  using open_new_file_keeps [OF assms] open_old_file_keeps [OF assms] by blast+

lemma select_file_keeps:
  assumes "safe k n rs w s" and "good_stream s" and "select_file k w s name = (w', s', ok)"
  shows "safe k n rs w' s' \<and> good_stream s'"
proof (cases "name = current_name s")
  case True
  then show ?thesis using assms by (simp add: select_file_def)
next
  case False
  obtain w1 s1 ok1 where c: "close_current_file w s = (w1, s1, ok1)" by (metis prod_cases3)
  note k1 = close_file_keeps [OF assms(1,2) c]
  show ?thesis
  proof (cases ok1)
    case True
    with False c assms(3) have "open_file k w1 s1 name = (w', s', ok)" by (simp add: select_file_def)
    then show ?thesis using open_file_keeps [OF k1(1,2)] by blast
  next
    case False
    with \<open>name \<noteq> current_name s\<close> c assms(3) show ?thesis
      using k1 by (auto simp: select_file_def good_stream_def)
  qed
qed

lemma write_to_file_keeps:
  assumes "safe k n rs w s" and "good_stream s" and "write_to_file k w s r = (w', s', ok)"
  shows "safe k n rs w' s' \<and> (ok \<longrightarrow> good_stream s')"
proof -
  obtain w1 ts where ts: "record_ts_us w r = (w1, ts)" by force
  have "safe k n rs w1 s"
    using assms(1) ts by (auto simp: record_ts_us_def wall_us_now_def safe_def keeps_def exists_reliable_def
        get_file_def get_node_def split: if_splits)
  moreover obtain w2 s2 ok2 where
    s2: "select_file k w1 s (hourly_file_name (rec_file_prefix k) ts) = (w2, s2, ok2)" by (metis prod_cases3)
  ultimately have k2: "safe k n rs w2 s2" "good_stream s2" using select_file_keeps assms(2) by blast+
  show ?thesis
  proof (cases "ok2 \<and> wr_file s2 \<noteq> None")
    case False
    then show ?thesis using assms(3) ts s2 k2 by (auto simp: write_to_file_def split: option.splits bool.splits)
  next
    case True
    then obtain f where f: "wr_file s2 = Some f" and ok2 by auto
    obtain w3 f3 where w3: "stream_write w2 f (stamp_record_crc k r) = (w3, f3)" by force
    have b: "behind k s2 n rs f" "keeps k w2 (data_dir s2) n rs" "exists_reliable w2"
      using k2(1) f by (simp_all add: safe_def)
    have "keeps k w3 (data_dir s2) n rs \<and> behind k s2 n rs f3"
      using stream_write_keeps [OF b(2) w3] b(1) stream_same_file(1) [OF w3] by (simp add: behind_def)
    moreover have "exists_reliable w3" using exists_reliable_touches [OF touches_stream_write [OF w3]] b(3) by simp
    ultimately show ?thesis
      using assms(3) ts s2 \<open>ok2\<close> f w3
      by (auto simp: write_to_file_def safe_def good_stream_def behind_def split: if_splits)
  qed
qed

lemma write_batch_keeps:
  "safe k n rs w s \<Longrightarrow> good_stream s \<Longrightarrow> write_batch k w s bs = (w', s', j)
     \<Longrightarrow> safe k n rs w' s' \<and> (j = length bs \<longrightarrow> good_stream s')"
proof (induction bs arbitrary: w s w' s' j)
  case (Cons r bs)
  obtain w1 s1 ok where 1: "write_to_file k w s r = (w1, s1, ok)" by (metis prod_cases3)
  note k1 = write_to_file_keeps [OF Cons.prems(1,2) 1]
  obtain w2 s2 i where 2: "write_batch k w1 s1 bs = (w2, s2, i)" by (metis prod_cases3)
  show ?case using Cons.prems(3) 1 2 k1 Cons.IH [OF _ _ 2] by (cases ok) auto
qed simp

lemma safe_control [simp]:
  "safe k n rs w (s\<lparr>worker := p\<rparr>) = safe k n rs w s"
  "safe k n rs w (s\<lparr>records_written := c\<rparr>) = safe k n rs w s"
  "safe k n rs w (s\<lparr>records_dropped := c\<rparr>) = safe k n rs w s"
  "safe k n rs w (s\<lparr>queue := q\<rparr>) = safe k n rs w s"
  "safe k n rs w (s\<lparr>queue_depth_max := m\<rparr>) = safe k n rs w s"
  "safe k n rs w (s\<lparr>closing := b\<rparr>) = safe k n rs w s"
  "safe k n rs w (s\<lparr>running := b\<rparr>) = safe k n rs w s"
  "safe k n rs w (s\<lparr>accepting := b\<rparr>) = safe k n rs w s"
  "safe k n rs w (s\<lparr>write_error := b\<rparr>) = safe k n rs w s"
  by (simp_all add: safe_def behind_def)

lemma good_stream_control [simp]:
  "good_stream (s\<lparr>worker := p\<rparr>) = good_stream s"
  "good_stream (s\<lparr>records_written := c\<rparr>) = good_stream s"
  "good_stream (s\<lparr>records_dropped := c\<rparr>) = good_stream s"
  "good_stream (s\<lparr>queue := q\<rparr>) = good_stream s"
  "good_stream (s\<lparr>queue_depth_max := m\<rparr>) = good_stream s"
  "good_stream (s\<lparr>closing := b\<rparr>) = good_stream s"
  "good_stream (s\<lparr>running := b\<rparr>) = good_stream s"
  "good_stream (s\<lparr>accepting := b\<rparr>) = good_stream s"
  by (simp_all add: good_stream_def)

text \<open>Only a worker on its way to the failure section holds a failed stream that is not flagged.\<close>

definition safe_session :: "rec_kind \<Rightarrow> string \<Rightarrow> byte list list \<Rightarrow> world \<times> writer \<Rightarrow> bool" where
  "safe_session k n rs c \<longleftrightarrow> safe k n rs (fst c) (snd c)
     \<and> ((\<exists>j. worker (snd c) = Failing j) \<or> good_stream (snd c))"

lemma process_batch_keeps:
  assumes "safe k n rs w s" and "good_stream s" and "process_batch k w s batch = (w', s')"
  shows "safe_session k n rs (w', s')"
proof -
  obtain w1 s1 j where b: "write_batch k w s batch = (w1, s1, j)" by (metis prod_cases3)
  define s2 where "s2 = s1\<lparr>records_written := records_written s1 + of_nat j\<rparr>"
  have k1: "safe k n rs w1 s2" "j = length batch \<longrightarrow> good_stream s2" "j \<le> length batch"
    using write_batch_keeps [OF assms(1,2) b] write_batch_control [OF b] by (simp_all add: s2_def)
  show ?thesis
  proof (cases "j = length batch \<and> 0 < j")
    case False
    then show ?thesis
      using assms(3) b k1 by (auto simp: process_batch_def s2_def [symmetric] safe_session_def split: if_splits)
  next
    case True
    obtain w3 s3 ok where p: "persist_header_count w1 s2 = (w3, s3, ok)" by (metis prod_cases3)
    have "safe k n rs w3 s3" "good_stream s3" using persist_keeps [OF k1(1) _ p] k1 True by simp_all
    moreover have "s' = s3\<lparr>worker := (if ok then Waiting else Failing 0)\<rparr>" "w' = w3"
      using assms(3) b p True by (cases ok, simp_all add: process_batch_def s2_def)+
    ultimately show ?thesis by (simp add: safe_session_def)
  qed
qed

lemma wstep_keeps:
  assumes "wstep k c e c'" and "safe_session k n rs c"
  shows "safe_session k n rs c'"
  using assms
proof (induction rule: wstep.induct)
  case (Write s r s' ok w)
  then show ?case by (auto simp: write_record_def safe_session_def Let_def split: if_splits)
next
  case (CloseEnd s w w' s')
  then have *: "safe k n rs w (s\<lparr>worker := NoThread\<rparr>)" "good_stream (s\<lparr>worker := NoThread\<rparr>)"
    by (auto simp: safe_session_def)
  obtain w1 s1 ok where c: "close_current_file w (s\<lparr>worker := NoThread\<rparr>) = (w1, s1, ok)" by (metis prod_cases3)
  show ?case
    using close_file_keeps [OF * c] CloseEnd(3) c by (auto simp: close_end_def safe_session_def good_stream_def)
next
  case (Process s batch w w' s')
  then show ?case using process_batch_keeps [of k n rs w s batch] by (auto simp: safe_session_def)
qed (auto simp: safe_session_def close_begin_def take_batch_def fail_section_def good_stream_def)

lemma wrun_keeps: "wrun k c es c' \<Longrightarrow> safe_session k n rs c \<Longrightarrow> safe_session k n rs c'"
  by (induction rule: wrun.induct) (auto dest: wstep_keeps)

section \<open>Opening and closing\<close>

definition writer_idle :: "writer \<Rightarrow> bool" where
  "writer_idle s \<longleftrightarrow> worker s = NoThread \<and> queue s = [] \<and> wr_file s = None \<and> \<not> running s
     \<and> \<not> accepting s \<and> \<not> closing s"

lemma new_writer_idle: "writer_idle new_writer"
  by (simp add: writer_idle_def new_writer_def)

lemma create_directories_nodes:
  "create_directories w dir = (w', ok) \<Longrightarrow> get_node w' = get_node w \<and> w_fault w' = w_fault w
     \<and> (ok \<longrightarrow> w_dirs w' dir \<noteq> None)"
  by (auto simp: create_directories_def get_node_def io_tick_def fun_eq_iff split: option.splits if_splits)

lemma open_writer_opened:
  assumes "open_writer w s dir cap = (w0, s0, Opened)" and "writer_idle s"
  shows "worker s0 = Waiting" "queue s0 = []" "wr_file s0 = None" "data_dir s0 = dir" "current_name s0 = []"
    "queue_capacity s0 = cap" "records_written s0 = 0" "records_dropped s0 = 0" "\<not> write_error s0"
    "running s0" "accepting s0" "\<not> closing s0" "queue_depth_max s0 = 0"
    "get_node w0 = get_node w" "w_fault w0 = w_fault w" "w_dirs w0 dir \<noteq> None"
proof -
  obtain w1 ok where c: "create_directories w dir = (w1, ok)" by force
  then have ok "w0 = w1"
    using assms by (auto simp: open_writer_def Let_def split: if_splits bool.splits)
  then show "get_node w0 = get_node w" "w_fault w0 = w_fault w" "w_dirs w0 dir \<noteq> None"
    using create_directories_nodes [OF c] by simp_all
  show "worker s0 = Waiting" "queue s0 = []" "wr_file s0 = None" "data_dir s0 = dir" "current_name s0 = []"
    "queue_capacity s0 = cap" "records_written s0 = 0" "records_dropped s0 = 0" "\<not> write_error s0"
    "running s0" "accepting s0" "\<not> closing s0" "queue_depth_max s0 = 0"
    using assms c \<open>ok\<close> by (auto simp: open_writer_def writer_idle_def Let_def split: if_splits)
qed

lemma opened_session_inv:
  "open_writer w s dir cap = (w0, s0, Opened) \<Longrightarrow> writer_idle s \<Longrightarrow> cap < 2 ^ 64 \<Longrightarrow> session_inv s0"
  using open_writer_opened by (simp add: session_inv_def)

text \<open>How far the worker is from its end once no record is accepted any more.\<close>

fun worker_rank :: "worker \<Rightarrow> nat" where
  "worker_rank (Writing _) = 2"
| "worker_rank Waiting = 1"
| "worker_rank (Failing _) = 1"
| "worker_rank _ = 0"

definition work_left :: "writer \<Rightarrow> nat" where
  "work_left s = 2 * length (queue s) + worker_rank (worker s)"

lemma worker_step_decreases:
  assumes "wstep k c e c'" and "e \<in> {EvTake, EvFail, EvExit} \<or> (\<exists>batch. e = EvProcess batch)"
  shows "work_left (snd c') < work_left (snd c)"
  using assms
proof (induction rule: wstep.induct)
  case (Take s w)
  then obtain r q where "queue s = r # q" by (cases "queue s") auto
  then show ?case using Take by (simp add: take_batch_def work_left_def)
next
  case (Process s batch w w' s')
  then show ?case
    using process_batch_effect [OF Process(2)] by (auto simp: work_left_def batch_effect_def same_control_def)
qed (auto simp: work_left_def fail_section_def)

lemma worker_not_stuck:
  assumes "session_inv s" and "\<not> running s" and "worker s \<notin> {NoThread, Finished}"
  shows "\<exists>e c'. wstep k (w, s) e c' \<and> (e \<in> {EvTake, EvFail, EvExit} \<or> (\<exists>batch. e = EvProcess batch))"
proof (cases "worker s")
  case Waiting
  then show ?thesis using assms wstep.Take wstep.Exit by (cases "queue s = []") blast+
next
  case (Writing batch)
  then show ?thesis using wstep.Process by (metis prod.exhaust)
next
  case (Failing j)
  then show ?thesis using wstep.Fail by blast
qed (use assms in auto)

lemma worker_step_flags:
  "wstep k c e c' \<Longrightarrow> e \<in> {EvTake, EvFail, EvExit} \<or> (\<exists>batch. e = EvProcess batch) \<Longrightarrow>
     \<not> running (snd c) \<Longrightarrow> closing (snd c) \<Longrightarrow> \<not> running (snd c') \<and> closing (snd c')"
proof (induction rule: wstep.induct)
  case (Process s batch w w' s')
  then show ?case using process_batch_effect [OF Process(2)] by (auto simp: batch_effect_def same_control_def)
qed (auto simp: take_batch_def fail_section_def)

lemma wrun_trans: "wrun k c' fs c'' \<Longrightarrow> wrun k c es c' \<Longrightarrow> wrun k c (es @ fs) c''"
proof (induction rule: wrun.induct)
  case (Step fs c1 e c2)
  then show ?case using wrun.Step [of k c "es @ fs" c1 e c2] by simp
qed simp

lemma wrun_Cons: "wstep k c e c' \<Longrightarrow> wrun k c' fs c'' \<Longrightarrow> wrun k c (e # fs) c''"
  using wrun_trans [of k c' fs c'' c "[e]"] wrun.Step [OF wrun.Start, of k c e c'] by simp

lemma close_end_idle:
  assumes "session_inv s" and "closing s" and "worker s \<in> {NoThread, Finished}" and "close_end w s = (w', s')"
  shows "writer_idle s'"
proof -
  obtain w1 s1 ok where c: "close_current_file w (s\<lparr>worker := NoThread\<rparr>) = (w1, s1, ok)" by (metis prod_cases3)
  then have "wr_file s1 = None"
    by (auto simp: close_current_file_def Let_def split: option.splits if_splits prod.splits)
  with close_file_control [OF c] c assms show ?thesis
    by (auto simp: close_end_def writer_idle_def session_inv_def same_control_def)
qed

lemma close_completes_run:
  "session_inv s \<Longrightarrow> closing s \<Longrightarrow> \<not> running s
     \<Longrightarrow> \<exists>es w' s'. wrun k (w, s) es (w', s') \<and> writer_idle s' \<and> length es \<le> Suc (work_left s)
       \<and> accepted es = [] \<and> offered es = 0"
proof (induction "work_left s" arbitrary: w s rule: less_induct)
  case less
  show ?case
  proof (cases "worker s \<in> {NoThread, Finished}")
    case True
    obtain w' s' where c: "close_end w s = (w', s')" by force
    have "wrun k (w, s) ([] @ [EvCloseEnd]) (w', s')"
      by (rule wrun.Step [OF wrun.Start wstep.CloseEnd]) (use less True c in auto)
    then show ?thesis using close_end_idle [OF less(2,3) True c] by force
  next
    case False
    obtain e w1 s1 where st: "wstep k (w, s) e (w1, s1)"
      "e \<in> {EvTake, EvFail, EvExit} \<or> (\<exists>batch. e = EvProcess batch)"
      using worker_not_stuck [OF less(2,4) False] by (metis prod.exhaust)
    have d: "work_left s1 < work_left s" using worker_step_decreases [OF st] by simp
    have i: "session_inv s1" "closing s1" "\<not> running s1"
      using wstep_inv [OF st(1)] worker_step_flags [OF st] less by simp_all
    from less(1) [OF d i] obtain es w' s' where
      "wrun k (w1, s1) es (w', s')" "writer_idle s'" "length es \<le> Suc (work_left s1)" "accepted es = []"
      "offered es = 0" by blast
    moreover have "accepted [e] = []" "offered [e] = 0" using st(2) by auto
    ultimately show ?thesis
      using wrun_Cons [OF st(1)] d accepted_append [of "[e]" es] offered_append [of "[e]" es]
      by (intro exI [of _ "e # es"] exI [of _ w'] exI [of _ s']) auto
  qed
qed

lemma wstep_data_dir: "wstep k c e c' \<Longrightarrow> data_dir (snd c') = data_dir (snd c) \<and> queue_capacity (snd c') = queue_capacity (snd c)"
proof (induction rule: wstep.induct)
  case (Process s batch w w' s')
  then show ?case using process_batch_effect [OF Process(2)] by (auto simp: batch_effect_def same_control_def)
next
  case (CloseEnd s w w' s')
  then show ?case
    by (auto simp: close_end_def same_control_def dest!: close_file_control split: prod.splits)
qed (auto simp: write_record_def take_batch_def fail_section_def close_begin_def Let_def split: if_splits)

lemma wrun_data_dir: "wrun k c es c' \<Longrightarrow> data_dir (snd c') = data_dir (snd c)"
  by (induction rule: wrun.induct) (auto dest: wstep_data_dir)

lemma wrun_capacity: "wrun k c es c' \<Longrightarrow> queue_capacity (snd c') = queue_capacity (snd c)"
  by (induction rule: wrun.induct) (auto dest: wstep_data_dir)

lemma srun_data_dir: "srun k c es c' \<Longrightarrow> data_dir (snd c') = data_dir (snd c)"
  by (induction rule: srun.induct) (auto dest: wstep_data_dir)

lemma srun_store:
  assumes "open_writer w s dir cap = (w0, s0, Opened)" and "writer_idle s" and "cap < 2 ^ 64"
    and "no_faults w" and "closed_files k w dir A C {}"
    and "srun k (w0, s0) es (w', s')" and "list_all (good_rec k) (accepted es)" and "worker s' = NoThread"
  shows "closed_files k w' dir (store_records k A (accepted es)) (C \<union> hour_of k ` set (accepted es)) {}
    \<and> records_written s' = of_nat (length (accepted es)) \<and> \<not> write_error s' \<and> no_faults w'"
proof -
  note o = open_writer_opened [OF assms(1,2)]
  have i0: "session_inv s0" by (rule opened_session_inv [OF assms(1-3)])
  have g: "get_file w0 = get_file w" using o(14) by (simp add: get_file_def fun_eq_iff)
  have "closed_files k w0 dir A C {}"
    using assms(5) unfolding closed_files_def closed_file_def hour_file_def g o(14) .
  then have "clean_session k A C [] (w0, s0)"
    using assms(4) o by (auto simp: clean_session_def files_inv_def no_faults_def)
  from srun_clean [OF assms(6) _ this] i0 o assms(7)
  have c: "clean_session k A C es (w', s')" "fifo es [] s'" by simp_all
  have "queue s' = []" using srun_inv [OF assms(6)] i0 assms(8) by (simp add: session_inv_def)
  then have p: "processed es = accepted es" using c(2) assms(8) by (simp add: fifo_def)
  have "data_dir s' = dir" using srun_data_dir [OF assms(6)] o(4) by simp
  with c(1) p assms(8) show ?thesis by (auto simp: clean_session_def files_inv_def)
qed

section \<open>Properties\<close>

text \<open>(C6) Refinement of the store. Take a session without failures, from \<open>open\<close> on an idle writer to the
  end of \<open>close\<close>, under any interleaving of producers, worker and the closing thread. Then
  every hour file holds the records it held at \<open>open\<close> followed by the accepted records of that
  hour, checksummed and in the order of acceptance; the files that were written have no damaged
  tail and a correct count, and \<open>records_written\<close> is the number of accepted records.
\<close>
theorem session_refines_store:
  assumes "open_writer w s dir cap = (w0, s0, Opened)" and "writer_idle s" and "cap < 2 ^ 64"
    and "no_faults w" and "closed_files k w dir A C {}"
    and "wrun k (w0, s0) es (w', s')" and "list_all (good_rec k) (accepted es)" and "worker s' = NoThread"
  shows "closed_files k w' dir (store_records k A (accepted es)) (C \<union> hour_of k ` set (accepted es)) {}
    \<and> records_written s' = of_nat (length (accepted es)) \<and> \<not> write_error s'"
  using srun_store [OF assms(1-5) wrun_srun [OF assms(6)] assms(7,8)] by blast

text \<open>(C9) Accounting, whatever fails and however the threads interleave: every \<open>write\<close> call made
  while the writer accepts records is counted as written, counted as dropped, still in the queue
  or in the hands of the worker; once the worker is gone, written and dropped add up to the calls.
\<close>
theorem writer_accounting:
  assumes "open_writer w s dir cap = (w0, s0, Opened)" and "writer_idle s" and "cap < 2 ^ 64"
    and "wrun k (w0, s0) es (w', s')"
  shows "records_written s' + records_dropped s' + of_nat (length (queue s') + in_flight (worker s'))
      = of_nat (offered es)
    \<and> (worker s' \<in> {NoThread, Finished} \<longrightarrow> records_written s' + records_dropped s' = of_nat (offered es))"
proof -
  have i: "session_inv s0" by (rule opened_session_inv [OF assms(1-3)])
  have "accounted s0 = 0" using open_writer_opened(1,2,7,8) [OF assms(1,2)] by (simp add: accounted_def)
  then have eq: "accounted s' = of_nat (offered es)" using wrun_accounted [OF assms(4)] i by simp
  have "session_inv s'" using wrun_inv [OF assms(4)] i by simp
  then have "length (queue s') + in_flight (worker s') = 0" if "worker s' \<in> {NoThread, Finished}"
    using that by (auto simp: session_inv_def)
  then have "worker s' \<in> {NoThread, Finished} \<longrightarrow> accounted s' = records_written s' + records_dropped s'"
    by (simp add: accounted_def)
  with eq show ?thesis unfolding accounted_def by metis
qed



text \<open>The existence query ignores its error code: when it fails, the file of the hour is opened for
  truncation and every record in it is lost, although the writer reports success.
\<close>
theorem failed_exists_truncates:
  assumes "io_fault Io_exists w \<noteq> None" and "get_file w (data_dir s) n = Some c"
    and "\<forall>oper m. w_tick w < m \<longrightarrow> w_fault w oper m = None"
  shows "\<exists>w' s'. open_file k w s n = (w', s', True)
    \<and> get_file w' (data_dir s) n = Some (header_bytes (default_header k))"
proof -
  have nf: "io_fault oper (io_tick w) = None" "io_fault oper (io_tick (io_tick w)) = None" for oper
    using assms(3) by (simp_all add: io_fault_def io_tick_def)
  have tick_put: "io_fault oper (put_file v d m b) = io_fault oper v" for oper v d m b
    by (simp add: io_fault_def put_file_def split: option.split)
  have "get_node w (data_dir s) n = Some (Regular c)"
    using assms(2) by (auto simp: get_file_def split: option.splits dir_node.splits)
  then show ?thesis
    using assms(1) dir_of_get_file [OF assms(2)]
    by (auto simp: open_file_def path_exists_def open_trunc_def nf tick_put stream_write_def stream_content_def
        get_file_put Let_def overwrite_def)
qed

text \<open>(C10) Closing always ends. Once \<open>close\<close> has stopped the intake, the worker is never stuck, each
  of its steps reduces the work left, and the steps it needs lead to an idle writer that can
  be opened again, in at most as many steps as the work left and the final one.
\<close>
theorem close_completes:
  assumes "open_writer w s dir cap = (w0, s0, Opened)" and "writer_idle s" and "cap < 2 ^ 64"
    and "wrun k (w0, s0) es (w1, s1)" and "closing s1"
  shows "(\<exists>fs w2 s2. wrun k (w1, s1) fs (w2, s2) \<and> writer_idle s2 \<and> length fs \<le> Suc (work_left s1))
    \<and> (\<forall>e c. wstep k (w1, s1) e c \<and> (e \<in> {EvTake, EvFail, EvExit} \<or> (\<exists>batch. e = EvProcess batch))
         \<longrightarrow> work_left (snd c) < work_left s1)"
proof -
  have "session_inv s1" using wrun_inv [OF assms(4)] opened_session_inv [OF assms(1-3)] by simp
  then have "\<exists>fs w2 s2. wrun k (w1, s1) fs (w2, s2) \<and> writer_idle s2 \<and> length fs \<le> Suc (work_left s1)
      \<and> accepted fs = [] \<and> offered fs = 0"
    using assms(5) by (intro close_completes_run) (auto simp: session_inv_def)
  then show ?thesis using worker_step_decreases [of k "(w1, s1)"] by fastforce
qed

text \<open>After a failed write the worker has ended but is still joinable, so calling \<open>open\<close> without
  \<open>close\<close> in between ends the program.
\<close>
theorem open_after_failure_terminates:
  assumes "worker s = Failing j" and "capacity \<noteq> 0" and "io_fault Io_mkdir w = None"
  shows "wstep k (w, s) EvFail (w, fail_section s j)
    \<and> snd (snd (open_writer w (fail_section s j) dir capacity)) = Terminated"
  using assms wstep.Fail [of s j k w]
  by (auto simp: open_writer_def fail_section_def create_directories_def Let_def split: option.splits)

section \<open>Witnesses\<close>

definition empty_world :: "(io_op \<Rightarrow> nat \<Rightarrow> nat option) \<Rightarrow> world" where
  "empty_world flt = \<lparr>w_dirs = Map.empty, w_fault = flt, w_tick = 0, w_clock = \<lambda>_. 0, w_reading = 0\<rparr>"

definition sample_trade :: trade where
  "sample_trade = zero_trade\<lparr>recv_ts_us := 1700000000000000, trade_id := 7\<rparr>"

lemma sample_good: "good_rec TradeRecord (trade_bytes sample_trade)"
  by (simp add: good_rec_def sample_trade_def zero_trade_def trade_bytes_def rec_recv_ts_us_def slice_def)

text \<open>A session that accepts one record and is closed.\<close>

lemma one_record_session:
  assumes "open_writer w s dir cap = (w0, s0, Opened)" and "writer_idle s" and "cap < 2 ^ 64" and "0 < cap"
  obtains es w' s' where "wrun k (w0, s0) es (w', s')" "accepted es = [r]" "offered es = 1" "writer_idle s'"
proof -
  note o = open_writer_opened [OF assms(1,2)]
  obtain s1 where w: "write_record s0 r = (s1, True)" using o assms(4) by (simp add: write_record_def)
  have "accepting s0 \<and> running s0" using o by simp
  with wstep.Write [OF w, of k w0] have 1: "wstep k (w0, s0) (EvWrite r True True) (w0, s1)" by simp
  have nc: "\<not> closing s1" using w o by (auto simp: write_record_def Let_def split: if_splits)
  have i: "session_inv s1" using write_record_inv [OF opened_session_inv [OF assms(1-3)] w] .
  have "session_inv (close_begin s1)" using wstep_inv [OF wstep.CloseBegin [OF nc, of k w0]] i by simp
  then obtain es w' s' where es: "wrun k (w0, close_begin s1) es (w', s')" "writer_idle s'"
    "accepted es = []" "offered es = 0"
    using close_completes_run [of "close_begin s1" k w0] by (auto simp: close_begin_def)
  have "wrun k (w0, s0) (EvWrite r True True # EvCloseBegin # es) (w', s')"
    by (rule wrun_Cons [OF 1 wrun_Cons [OF wstep.CloseBegin [OF nc] es(1)]])
  then show thesis by (rule that) (use es in simp_all)
qed

lemma empty_open:
  "\<exists>w0 s0. open_writer (empty_world (\<lambda>_ _. None)) new_writer ''data'' 4 = (w0, s0, Opened)"
  by (simp add: open_writer_def new_writer_def create_directories_def empty_world_def io_fault_def Let_def)

theorem session_refines_store_witness:
  "\<exists>w0 s0 es w' s'. open_writer (empty_world (\<lambda>_ _. None)) new_writer ''data'' 4 = (w0, s0, Opened)
     \<and> wrun TradeRecord (w0, s0) es (w', s') \<and> accepted es = [trade_bytes sample_trade]
     \<and> closed_files TradeRecord w' ''data'' (store_records TradeRecord Map.empty [trade_bytes sample_trade])
         {hour_of TradeRecord (trade_bytes sample_trade)} {}
     \<and> records_written s' = 1"
proof -
  obtain w0 s0 where o: "open_writer (empty_world (\<lambda>_ _. None)) new_writer ''data'' 4 = (w0, s0, Opened)"
    using empty_open by blast
  obtain es w' s' where r: "wrun TradeRecord (w0, s0) es (w', s')" "accepted es = [trade_bytes sample_trade]"
    "writer_idle s'" by (rule one_record_session [OF o new_writer_idle]) simp_all
  have "closed_files TradeRecord (empty_world (\<lambda>_ _. None)) ''data'' Map.empty {} {}"
    by (simp add: closed_files_def closed_file_def empty_world_def get_node_def)
  from session_refines_store [OF o new_writer_idle _ _ this r(1)] show ?thesis
    using o r sample_good by (fastforce simp: no_faults_def empty_world_def writer_idle_def)
qed

theorem writer_accounting_witness:
  "\<exists>w0 s0 es w' s'. open_writer (empty_world (\<lambda>_ _. None)) new_writer ''data'' 4 = (w0, s0, Opened)
     \<and> wrun TradeRecord (w0, s0) es (w', s') \<and> offered es = 1 \<and> records_written s' + records_dropped s' = 1"
proof -
  obtain w0 s0 where o: "open_writer (empty_world (\<lambda>_ _. None)) new_writer ''data'' 4 = (w0, s0, Opened)"
    using empty_open by blast
  obtain es w' s' where r: "wrun TradeRecord (w0, s0) es (w', s')" "offered es = 1" "writer_idle s'"
    by (rule one_record_session [OF o new_writer_idle]) simp_all
  from writer_accounting [OF o new_writer_idle _ r(1)] r(2,3)
  have "records_written s' + records_dropped s' = 1" by (auto simp: writer_idle_def)
  with o r show ?thesis by blast
qed



theorem failed_exists_truncates_witness:
  "\<exists>w' s'. open_file TradeRecord (torn_world (\<lambda>oper n. if n = 0 then Some 0 else None))
       (new_writer\<lparr>data_dir := ''data''\<rparr>) ''t.bin'' = (w', s', True)
     \<and> get_file w' ''data'' ''t.bin'' = Some (header_bytes (default_header TradeRecord))"
  using failed_exists_truncates [of "torn_world (\<lambda>oper n. if n = 0 then Some 0 else None)"
      "new_writer\<lparr>data_dir := ''data''\<rparr>" "''t.bin''" _ TradeRecord] torn_world_file
  by (simp add: io_fault_def torn_world_def)

theorem close_completes_witness:
  "\<exists>w0 s0 fs w2 s2. open_writer (empty_world (\<lambda>_ _. None)) new_writer ''data'' 4 = (w0, s0, Opened)
     \<and> wrun TradeRecord (w0, close_begin s0) fs (w2, s2) \<and> writer_idle s2 \<and> length fs \<le> 2"
proof -
  obtain w0 s0 where o: "open_writer (empty_world (\<lambda>_ _. None)) new_writer ''data'' 4 = (w0, s0, Opened)"
    using empty_open by blast
  note op = open_writer_opened [OF o new_writer_idle]
  have r: "wrun TradeRecord (w0, s0) ([] @ [EvCloseBegin]) (w0, close_begin s0)"
    by (rule wrun.Step [OF wrun.Start wstep.CloseBegin]) (use op in simp)
  have "closing (close_begin s0)" "work_left (close_begin s0) = 1"
    using op by (simp_all add: close_begin_def work_left_def)
  with close_completes [OF o new_writer_idle _ r] o show ?thesis by fastforce
qed

theorem open_after_failure_terminates_witness:
  "snd (snd (open_writer (empty_world (\<lambda>_ _. None)) (fail_section (new_writer\<lparr>worker := Failing 1\<rparr>) 1) ''data'' 4))
     = Terminated"
  using open_after_failure_terminates [of "new_writer\<lparr>worker := Failing 1\<rparr>" 1 4 "empty_world (\<lambda>_ _. None)" TradeRecord "''data''"]
  by (simp add: empty_world_def io_fault_def)

end
