(* ===== verification/Record_Reader.thy ===== *)
theory Record_Reader
  imports Writer_Session
begin

text \<open>
  \<^verbatim>\<open>BinaryRecordReader\<close> (\<^verbatim>\<open>src/storage/binary_record_reader.h\<close>), the replay loop
  \<^verbatim>\<open>RecordReplayer::replay_all\<close> (\<^verbatim>\<open>src/replay/record_replayer.h\<close>) and its public
  facade (\<^verbatim>\<open>src/api/replayer.cpp\<close>). A callback is a function on a caller's state whose flag
  tells whether it threw; an empty \<open>std::function\<close> is \<^const>\<open>None\<close>. The reader's member
  \<open>header_\<close> is written and never read and is left out.
\<close>

section \<open>The reader\<close>

record reader =
  rd_file :: "fstream option"
  rd_dir :: string              \<comment> \<open>the directory part of the listed paths\<close>
  files :: "string list"
  file_index :: nat
  total_record_count :: u64
  read_error :: bool
  rd_window :: time_window
  windowed :: bool

definition new_reader :: reader where
  "new_reader = \<lparr>rd_file = None, rd_dir = [], files = [], file_index = 0, total_record_count = 0,
     read_error = False, rd_window = no_window, windowed = False\<rparr>"

definition reader_close :: "reader \<Rightarrow> reader" where
  "reader_close rd = rd\<lparr>rd_file := None, files := [], file_index := 0, total_record_count := 0,
     rd_window := no_window, windowed := False\<rparr>"

text \<open>Opening for input has the same outcome as opening an existing file for update.\<close>

definition open_in :: "world \<Rightarrow> string \<Rightarrow> string \<Rightarrow> world \<times> fstream option" where
  "open_in w dir name = open_inout w dir name"

text \<open>The header read from a stream that was just opened, and the stream behind it.\<close>

definition read_and_check_header :: "rec_kind \<Rightarrow> world \<Rightarrow> fstream \<Rightarrow> (file_header \<times> fstream) option" where
  "read_and_check_header k w f =
     (let bs = slice (fs_pos f) header_size (stream_content w f); header = header_of_bytes bs
      in if length bs \<noteq> header_size then None
         else if magic header \<noteq> magic (default_header k) then None
         else if version header \<noteq> version (default_header k) then None
         else if record_size header \<noteq> of_nat (rec_size k) then None
         else Some (header, f\<lparr>fs_pos := fs_pos f + header_size\<rparr>))"

definition open_index :: "rec_kind \<Rightarrow> world \<Rightarrow> reader \<Rightarrow> nat \<Rightarrow> world \<times> reader \<times> bool" where
  "open_index k w rd index =
     (let rd1 = rd\<lparr>rd_file := None\<rparr>
      in if length (files rd1) \<le> index then (w, rd1, False)
         else case open_in w (rd_dir rd1) (files rd1 ! index) of
             (w1, None) \<Rightarrow> (w1, rd1, False)
           | (w1, Some f) \<Rightarrow>
             (case read_and_check_header k w1 f of
                None \<Rightarrow> (w1, rd1, False)
              | Some (_, f1) \<Rightarrow> (w1, rd1\<lparr>rd_file := Some f1\<rparr>, True)))"

text \<open>The loop that checks every header and adds up the counts.\<close>

fun probe_files :: "rec_kind \<Rightarrow> world \<Rightarrow> string \<Rightarrow> string list \<Rightarrow> u64 \<Rightarrow> world \<times> u64 \<times> bool" where
  "probe_files k w dir [] tot = (w, tot, True)"
| "probe_files k w dir (name # names) tot =
     (case open_in w dir name of
        (w1, None) \<Rightarrow> (w1, tot, False)
      | (w1, Some f) \<Rightarrow>
        (case read_and_check_header k w1 f of
           None \<Rightarrow> (w1, tot, False)
         | Some (h, _) \<Rightarrow> probe_files k w1 dir names (tot + record_count h)))"

definition reader_open :: "rec_kind \<Rightarrow> world \<Rightarrow> reader \<Rightarrow> string \<Rightarrow> time_window \<Rightarrow> world \<times> reader \<times> bool" where
  "reader_open k w rd dir window =
     (let rd1 = (reader_close rd)\<lparr>read_error := False\<rparr>
      in if \<not> window_valid window then (w, rd1, False)
         else
           let rd2 = rd1\<lparr>rd_window := window, windowed := \<not> window_empty window, rd_dir := dir,
                 files := list_record_files (w_dirs w dir) (rec_file_prefix k) window\<rparr>
           in if files rd2 = [] then (w, rd2, windowed rd2)
              else case probe_files k w dir (files rd2) 0 of
                  (w1, tot, False) \<Rightarrow> (w1, rd2\<lparr>total_record_count := tot, files := []\<rparr>, False)
                | (w1, tot, True) \<Rightarrow> open_index k w1 (rd2\<lparr>total_record_count := tot\<rparr>) 0)"

text \<open>
  \<open>read_next\<close>: the loop goes on over records outside the window and over the ends of files, so
  the next file comes nearer or the read position advances.
\<close>

definition rd_left :: "world \<Rightarrow> reader \<Rightarrow> nat" where
  "rd_left w rd = (case rd_file rd of None \<Rightarrow> 0 | Some f \<Rightarrow> Suc (length (stream_content w f)) - fs_pos f)"

lemma open_index_fields:
  "open_index k w rd i = (w', rd', ok) \<Longrightarrow> files rd' = files rd \<and> file_index rd' = file_index rd
     \<and> rd_window rd' = rd_window rd \<and> windowed rd' = windowed rd \<and> rd_dir rd' = rd_dir rd
     \<and> total_record_count rd' = total_record_count rd \<and> read_error rd' = read_error rd"
  by (auto simp: open_index_def Let_def split: if_splits prod.splits option.splits)

lemma full_slice: "length (slice p n xs) = n \<Longrightarrow> 0 < n \<Longrightarrow> p + n \<le> length xs"
  by (simp add: slice_def min_def split: if_splits)

lemma rd_left_advance:
  assumes "rd_file rd = Some f" and "length (slice (fs_pos f) (rec_size k) (stream_content w f)) = rec_size k"
  shows "rd_left w (rd\<lparr>rd_file := Some (f\<lparr>fs_pos := fs_pos f + rec_size k\<rparr>)\<rparr>) < rd_left w rd"
proof -
  have "fs_pos f + rec_size k \<le> length (stream_content w f)" using full_slice [OF assms(2)] by simp
  moreover have "stream_content w (f\<lparr>fs_pos := p\<rparr>) = stream_content w f" for p by (simp add: stream_content_def)
  moreover have "Suc (length c) - (fs_pos f + rec_size k) < Suc (length c) - fs_pos f"
    if "fs_pos f + rec_size k \<le> length c" for c :: "byte list"
    using that rec_size_pos [of k] by (intro diff_less_mono2) linarith+
  ultimately show ?thesis using assms(1) by (simp add: rd_left_def)
qed

function read_next :: "rec_kind \<Rightarrow> world \<Rightarrow> reader \<Rightarrow> world \<times> reader \<times> byte list option" where
  "read_next k w rd =
     (case rd_file rd of
        None \<Rightarrow> (w, rd, None)
      | Some f \<Rightarrow>
        let rec = slice (fs_pos f) (rec_size k) (stream_content w f);
            rd1 = rd\<lparr>rd_file := Some (f\<lparr>fs_pos := fs_pos f + length rec\<rparr>)\<rparr>
        in if length rec = rec_size k then
             if \<not> record_crc_ok k rec then (w, rd1\<lparr>read_error := True\<rparr>, None)
             else if \<not> window_contains (rd_window rd1) (rec_recv_ts_us rec) then read_next k w rd1
             else (w, rd1, Some rec)
           else
             let rd2 = rd1\<lparr>file_index := Suc (file_index rd1)\<rparr>
             in if length (files rd2) \<le> file_index rd2 then (w, rd2\<lparr>rd_file := None\<rparr>, None)
                else case open_index k w rd2 (file_index rd2) of
                    (w1, rd3, False) \<Rightarrow> (w1, rd3\<lparr>read_error := True\<rparr>, None)
                  | (w1, rd3, True) \<Rightarrow> read_next k w1 rd3)"
  by pat_completeness auto
termination
proof (relation "inv_image (less_than <*lex*> less_than) (\<lambda>(k, w, rd). (length (files rd) - file_index rd, rd_left w rd))",
    goal_cases)
  case 1
  show ?case by (intro wf_inv_image wf_lex_prod wf_less_than)
next
  case (2 k w rd f rec rd1)
  then show ?case using rd_left_advance [of rd f k w] by (simp add: Let_def)
next
  case (3 k w rd f rec rd1 rd2 w1 q rd3 ok)
  then have "files rd3 = files rd2" "file_index rd3 = file_index rd2" using open_index_fields [of k w rd2] by metis+
  with 3 show ?case by (simp add: diff_less_mono2)
qed

declare read_next.simps [simp del]

section \<open>The replay loop\<close>

record replay_result =
  records_replayed :: u64
  header_record_count :: u64
  completed :: bool
  file_error :: bool
  callback_error :: bool
  count_mismatch :: bool

definition new_result :: replay_result where
  "new_result = \<lparr>records_replayed = 0, header_record_count = 0, completed = False, file_error = False,
     callback_error = False, count_mismatch = False\<rparr>"

type_synonym 's callback = "'s \<Rightarrow> byte list \<Rightarrow> 's \<times> bool"

lemma read_next_measure:
  "read_next k w rd = (w', rd', Some r) \<Longrightarrow>
     ((length (files rd') - file_index rd', rd_left w' rd'), (length (files rd) - file_index rd, rd_left w rd))
       \<in> less_than <*lex*> less_than"
proof (induction k w rd rule: read_next.induct)
  case (1 k w rd)
  obtain f where f: "rd_file rd = Some f" using 1(3) by (cases "rd_file rd") (simp_all add: read_next.simps)
  let ?rec = "slice (fs_pos f) (rec_size k) (stream_content w f)"
  let ?rd1 = "rd\<lparr>rd_file := Some (f\<lparr>fs_pos := fs_pos f + length ?rec\<rparr>)\<rparr>"
  let ?rd2 = "?rd1\<lparr>file_index := Suc (file_index ?rd1)\<rparr>"
  show ?case
  proof (cases "length ?rec = rec_size k")
    case True
    then have adv: "rd_left w ?rd1 < rd_left w rd" using rd_left_advance [OF f True] by simp
    show ?thesis
    proof (cases "record_crc_ok k ?rec \<and> \<not> window_contains (rd_window rd) (rec_recv_ts_us ?rec)")
      case w: True
      then have "read_next k w ?rd1 = (w', rd', Some r)"
        using 1(3) f True by (subst (asm) read_next.simps) simp
      from 1(1) [OF f refl refl True _ _ this] w adv show ?thesis by auto
    next
      case False
      then have "rd' = ?rd1 \<and> w' = w"
        using 1(3) f True by (subst (asm) read_next.simps) (auto simp: Let_def split: if_splits)
      then show ?thesis using adv by simp
    qed
  next
    case False
    then have lt: "\<not> length (files ?rd2) \<le> file_index ?rd2"
      using 1(3) f by (subst (asm) read_next.simps) (auto simp: Let_def split: if_splits)
    obtain w1 rd3 ok where o: "open_index k w ?rd2 (file_index ?rd2) = (w1, rd3, ok)" by (metis prod_cases3)
    have ok: "ok \<and> read_next k w1 rd3 = (w', rd', Some r)"
      using 1(3) f False lt o by (subst (asm) read_next.simps) (cases ok, auto simp: Let_def)
    have "((length (files rd') - file_index rd', rd_left w' rd'), (length (files rd3) - file_index rd3, rd_left w1 rd3))
       \<in> less_than <*lex*> less_than"
      by (rule 1(2) [OF f refl refl False refl lt o [symmetric] refl]) (use ok in auto)
    moreover have "length (files rd3) - file_index rd3 < length (files rd) - file_index rd"
      using open_index_fields [OF o] lt by (simp add: diff_less_mono2)
    ultimately show ?thesis by auto
  qed
qed

function replay_loop ::
    "rec_kind \<Rightarrow> 's callback \<Rightarrow> world \<Rightarrow> reader \<Rightarrow> 's \<Rightarrow> replay_result \<Rightarrow> world \<times> reader \<times> 's \<times> replay_result" where
  "replay_loop k callback w rd s result =
     (case read_next k w rd of
        (w1, rd1, None) \<Rightarrow> (w1, rd1, s, result)
      | (w1, rd1, Some r) \<Rightarrow>
        (case callback s r of
           (s1, True) \<Rightarrow> (w1, rd1, s1, result\<lparr>callback_error := True\<rparr>)
         | (s1, False) \<Rightarrow>
             replay_loop k callback w1 rd1 s1 (result\<lparr>records_replayed := records_replayed result + 1\<rparr>)))"
  by pat_completeness auto
termination
proof (relation "inv_image (less_than <*lex*> less_than)
    (\<lambda>(k, callback, w, rd, s, result). (length (files rd) - file_index rd, rd_left w rd))", goal_cases)
  case 1
  show ?case by (intro wf_inv_image wf_lex_prod wf_less_than)
next
  case (2 k callback w rd s result w1 p rd1 q r s1 ok)
  then show ?case using read_next_measure [of k w rd w1 rd1 r] by auto
qed

declare replay_loop.simps [simp del]

definition replay_all ::
    "rec_kind \<Rightarrow> world \<Rightarrow> string \<Rightarrow> 's callback option \<Rightarrow> time_window \<Rightarrow> 's \<Rightarrow> world \<times> 's \<times> replay_result" where
  "replay_all k w dir callback window s =
     (case callback of
        None \<Rightarrow> (w, s, new_result\<lparr>callback_error := True\<rparr>)
      | Some cb \<Rightarrow>
        (case reader_open k w new_reader dir window of
           (w1, rd1, False) \<Rightarrow> (w1, s, new_result\<lparr>file_error := True\<rparr>)
         | (w1, rd1, True) \<Rightarrow>
           (case replay_loop k cb w1 rd1 s new_result of
              (w2, rd2, s2, r2) \<Rightarrow>
                let r3 = (if read_error rd2 then r2\<lparr>file_error := True\<rparr> else r2);
                    r4 = r3\<lparr>header_record_count := total_record_count rd2\<rparr>;
                    r5 = (if \<not> file_error r4 \<and> \<not> windowed rd2 \<and> 0 < header_record_count r4
                             \<and> records_replayed r4 \<noteq> header_record_count r4
                          then r4\<lparr>count_mismatch := True\<rparr> else r4)
                in (w2, s2, r5\<lparr>completed := \<not> file_error r5 \<and> \<not> callback_error r5 \<and> \<not> count_mismatch r5\<rparr>))))"

text \<open>The public facade: typed callbacks and the copy of the result.\<close>

definition to_public :: "replay_result \<Rightarrow> replay_result" where
  "to_public r = new_result\<lparr>header_record_count := header_record_count r,
     records_replayed := records_replayed r, completed := completed r, file_error := file_error r,
     callback_error := callback_error r, count_mismatch := count_mismatch r\<rparr>"

definition replay_trades ::
    "world \<Rightarrow> string \<Rightarrow> ('s \<Rightarrow> trade \<Rightarrow> 's \<times> bool) option \<Rightarrow> int option \<Rightarrow> int option \<Rightarrow> 's
      \<Rightarrow> world \<times> 's \<times> replay_result" where
  "replay_trades w dir cb t_from t_to s =
     (case replay_all TradeRecord w dir (map_option (\<lambda>f s r. f s (trade_of_bytes r)) cb)
             \<lparr>from_us = t_from, to_us = t_to\<rparr> s of
        (w1, s1, r) \<Rightarrow> (w1, s1, to_public r))"

definition replay_orderbooks ::
    "world \<Rightarrow> string \<Rightarrow> ('s \<Rightarrow> orderbook_snapshot \<Rightarrow> 's \<times> bool) option \<Rightarrow> int option \<Rightarrow> int option \<Rightarrow> 's
      \<Rightarrow> world \<times> 's \<times> replay_result" where
  "replay_orderbooks w dir cb t_from t_to s =
     (case replay_all OrderBookRecord w dir (map_option (\<lambda>f s r. f s (orderbook_of_bytes r)) cb)
             \<lparr>from_us = t_from, to_us = t_to\<rparr> s of
        (w1, s1, r) \<Rightarrow> (w1, s1, to_public r))"

section \<open>What a replay delivers\<close>

text \<open>The complete records of a file body, and the reading of a sequence of records.\<close>

function records_in :: "rec_kind \<Rightarrow> byte list \<Rightarrow> byte list list" where
  "records_in k body = (if length body < rec_size k then []
     else take (rec_size k) body # records_in k (drop (rec_size k) body))"
  by pat_completeness auto
termination
proof (relation "measure (\<lambda>(k, body). length body)", goal_cases)
  case (2 k body)
  then show ?case using rec_size_pos [of k] by (simp only: in_measure prod.case length_drop)
qed simp

declare records_in.simps [simp del]

lemma records_in_concat:
  "list_all (\<lambda>r. length r = rec_size k) rs \<Longrightarrow> length t < rec_size k \<Longrightarrow> records_in k (concat rs @ t) = rs"
proof (induction rs)
  case (Cons r rs)
  then show ?case using records_in.simps [of k "r @ concat rs @ t"] by simp
qed (simp add: records_in.simps)

fun deliver :: "rec_kind \<Rightarrow> time_window \<Rightarrow> byte list list \<Rightarrow> byte list list \<times> bool" where
  "deliver k tw [] = ([], False)"
| "deliver k tw (r # rs) =
     (if \<not> record_crc_ok k r then ([], True)
      else case deliver k tw rs of (out, bad) \<Rightarrow>
        (if window_contains tw (rec_recv_ts_us r) then r # out else out, bad))"

lemma deliver_valid:
  "list_all (valid_rec k) rs \<Longrightarrow> deliver k tw rs = (filter (\<lambda>r. window_contains tw (rec_recv_ts_us r)) rs, False)"
  by (induction rs) (simp_all add: valid_rec_def)

lemma deliver_corrupt:
  "list_all (valid_rec k) rs \<Longrightarrow> \<not> record_crc_ok k r \<Longrightarrow>
     deliver k tw (rs @ r # rs') = (filter (\<lambda>r. window_contains tw (rec_recv_ts_us r)) rs, True)"
  by (induction rs) (simp_all add: valid_rec_def)

fun feed :: "'s callback \<Rightarrow> 's \<Rightarrow> byte list list \<Rightarrow> 's \<times> nat \<times> bool" where
  "feed cb s [] = (s, 0, False)"
| "feed cb s (r # rs) =
     (case cb s r of
        (s1, True) \<Rightarrow> (s1, 0, True)
      | (s1, False) \<Rightarrow> (case feed cb s1 rs of (s2, n, threw) \<Rightarrow> (s2, Suc n, threw)))"

text \<open>The records a reader still has in front of it.\<close>

definition good_file :: "rec_kind \<Rightarrow> world \<Rightarrow> string \<Rightarrow> string \<Rightarrow> byte list \<Rightarrow> bool" where
  "good_file k w dir name body \<longleftrightarrow>
     (\<exists>h. get_file w dir name = Some (header_bytes h @ body) \<and> header_matches k h)"

definition reader_at :: "rec_kind \<Rightarrow> world \<Rightarrow> reader \<Rightarrow> byte list list \<Rightarrow> bool" where
  "reader_at k w rd rs \<longleftrightarrow> no_faults w \<and> file_index rd < length (files rd)
     \<and> (\<exists>f bodies. rd_file rd = Some f
          \<and> rs = records_in k (drop (fs_pos f) (stream_content w f)) @ concat (map (records_in k) bodies)
          \<and> list_all2 (good_file k w (rd_dir rd)) (drop (Suc (file_index rd)) (files rd)) bodies)"

lemma read_header_ok:
  assumes "get_file w (fs_dir f) (fs_name f) = Some (header_bytes h @ body)" and "header_matches k h"
    and "fs_pos f = 0"
  shows "read_and_check_header k w f = Some (h, f\<lparr>fs_pos := header_size\<rparr>)"
proof -
  note m = header_matches_magic [OF assms(2)]
  then have "slice 0 header_size (header_bytes h @ body) = header_bytes h" by (simp add: slice_def)
  moreover have "header_of_bytes (header_bytes h) = h" using header_of_header_bytes [OF m, of "[]"] by simp
  ultimately show ?thesis
    using assms m by (simp add: read_and_check_header_def stream_content_def header_matches_def)
qed

lemma open_index_ok:
  assumes "no_faults w" and "i < length (files rd)" and "good_file k w (rd_dir rd) (files rd ! i) body"
  obtains f where "open_index k w rd i = (io_tick w, rd\<lparr>rd_file := Some f\<rparr>, True)"
    "drop (fs_pos f) (stream_content (io_tick w) f) = body"
proof -
  obtain h where h: "get_file w (rd_dir rd) (files rd ! i) = Some (header_bytes h @ body)" "header_matches k h"
    using assms(3) by (auto simp: good_file_def)
  let ?f = "\<lparr>fs_dir = rd_dir rd, fs_name = files rd ! i, fs_pos = 0, fs_bad = False\<rparr> :: fstream"
  have "read_and_check_header k (io_tick w) ?f = Some (h, ?f\<lparr>fs_pos := header_size\<rparr>)"
    by (rule read_header_ok) (use h in simp_all)
  then have "open_index k w rd i = (io_tick w, rd\<lparr>rd_file := Some (?f\<lparr>fs_pos := header_size\<rparr>)\<rparr>, True)"
    using assms(1,2) h by (simp add: open_index_def open_in_def open_inout_ok)
  then show thesis
    by (rule that) (use h header_matches_magic [OF h(2)] in \<open>simp add: stream_content_def\<close>)
qed

lemma good_file_tick [simp]: "good_file k (io_tick w) = good_file k w"
  by (simp add: good_file_def fun_eq_iff)

lemma records_in_step:
  "length (slice p (rec_size k) c) = rec_size k \<Longrightarrow>
     records_in k (drop p c) = slice p (rec_size k) c # records_in k (drop (p + rec_size k) c)"
  using records_in.simps [of k "drop p c"] by (simp add: slice_def add.commute)

lemma records_in_end:
  "length (slice p (rec_size k) c) \<noteq> rec_size k \<Longrightarrow> records_in k (drop p c) = []"
  using records_in.simps [of k "drop p c"] by (simp add: slice_def)

text \<open>The first delivered record of a sequence, whether a corrupt one stopped the search, and the rest.\<close>

fun next_rec :: "rec_kind \<Rightarrow> time_window \<Rightarrow> byte list list \<Rightarrow> byte list option \<times> bool \<times> byte list list" where
  "next_rec k tw [] = (None, False, [])"
| "next_rec k tw (r # rs) =
     (if \<not> record_crc_ok k r then (None, True, rs)
      else if \<not> window_contains tw (rec_recv_ts_us r) then next_rec k tw rs
      else (Some r, False, rs))"

lemma deliver_next_rec:
  "deliver k tw rs = (case next_rec k tw rs of
     (None, bad, _) \<Rightarrow> ([], bad)
   | (Some r, _, rest) \<Rightarrow> (case deliver k tw rest of (out, bad) \<Rightarrow> (r # out, bad)))"
  by (induction rs) (auto split: prod.splits option.splits)

lemma next_rec_shorter: "next_rec k tw rs = (Some r, bad, rest) \<Longrightarrow> length rest < length rs"
  by (induction rs) (auto split: if_splits)

lemma next_rec_good: "next_rec k tw rs = (Some r, bad, rest) \<Longrightarrow> \<not> bad"
  by (induction rs) (auto split: if_splits)

definition same_job :: "reader \<Rightarrow> reader \<Rightarrow> bool" where
  "same_job rd rd' \<longleftrightarrow> rd_window rd' = rd_window rd \<and> windowed rd' = windowed rd
     \<and> total_record_count rd' = total_record_count rd"

text \<open>At the end of a file that is not the last one, the reader goes on with the records of the next file.\<close>

lemma reader_next_file:
  assumes "no_faults w" and "list_all2 (good_file k w (rd_dir rd)) (drop (Suc (file_index rd)) (files rd)) (b # bs)"
    and "rd2 = rd\<lparr>rd_file := x, file_index := Suc (file_index rd)\<rparr>"
  obtains f3 where "\<not> length (files rd2) \<le> file_index rd2"
    and "open_index k w rd2 (file_index rd2) = (io_tick w, rd2\<lparr>rd_file := Some f3\<rparr>, True)"
    and "reader_at k (io_tick w) (rd2\<lparr>rd_file := Some f3\<rparr>) (concat (map (records_in k) (b # bs)))"
proof -
  have lt: "\<not> length (files rd2) \<le> file_index rd2" using assms(2,3) by (auto simp: list_all2_conv_all_nth)
  then have "drop (Suc (file_index rd)) (files rd) = files rd ! Suc (file_index rd) # drop (Suc (Suc (file_index rd))) (files rd)"
    using assms(3) by (simp add: Cons_nth_drop_Suc)
  then have g: "good_file k w (rd_dir rd2) (files rd2 ! file_index rd2) b"
    "list_all2 (good_file k w (rd_dir rd)) (drop (Suc (Suc (file_index rd))) (files rd)) bs"
    using assms(2,3) by simp_all
  obtain f3 where o: "open_index k w rd2 (file_index rd2) = (io_tick w, rd2\<lparr>rd_file := Some f3\<rparr>, True)"
    "drop (fs_pos f3) (stream_content (io_tick w) f3) = b"
    using open_index_ok [OF assms(1) _ g(1)] lt by auto
  have "reader_at k (io_tick w) (rd2\<lparr>rd_file := Some f3\<rparr>) (concat (map (records_in k) (b # bs)))"
    using assms(1,3) lt o(2) g(2) by (auto simp: reader_at_def)
  with that [OF lt o(1)] show thesis by blast
qed

text \<open>A complete record: the reader stands behind it.\<close>

lemma reader_next_record:
  assumes "reader_at k w rd rs" and "rd_file rd = Some f" and "r = slice (fs_pos f) (rec_size k) (stream_content w f)" and "length r = rec_size k"
  obtains tl where "rs = r # tl" and "reader_at k w (rd\<lparr>rd_file := Some (f\<lparr>fs_pos := fs_pos f + length r\<rparr>)\<rparr>) tl"
proof -
  obtain bodies where f: "no_faults w" "file_index rd < length (files rd)"
    "rs = records_in k (drop (fs_pos f) (stream_content w f)) @ concat (map (records_in k) bodies)"
    "list_all2 (good_file k w (rd_dir rd)) (drop (Suc (file_index rd)) (files rd)) bodies"
    using assms(1,2) by (auto simp: reader_at_def)
  let ?tl = "records_in k (drop (fs_pos f + rec_size k) (stream_content w f)) @ concat (map (records_in k) bodies)"
  have "rs = r # ?tl" using f(3) records_in_step [of "fs_pos f" k "stream_content w f"] assms(3,4) by simp
  moreover have "stream_content w (f\<lparr>fs_pos := p\<rparr>) = stream_content w f" for p by (simp add: stream_content_def)
  then have "reader_at k w (rd\<lparr>rd_file := Some (f\<lparr>fs_pos := fs_pos f + length r\<rparr>)\<rparr>) ?tl"
    using f assms(4) by (auto simp: reader_at_def)
  ultimately show thesis by (rule that)
qed

lemma read_next_spec:
  assumes "reader_at k w rd rs" and "next_rec k (rd_window rd) rs = (found, bad, rest)"
  shows "\<exists>w' rd'. read_next k w rd = (w', rd', found) \<and> same_job rd rd'
    \<and> read_error rd' = (read_error rd \<or> bad) \<and> (found \<noteq> None \<longrightarrow> reader_at k w' rd' rest)"
  using assms
proof (induction k w rd arbitrary: rs rule: read_next.induct)
  case (1 k w rd)
  from 1(3) obtain f bodies where f: "rd_file rd = Some f" "no_faults w" "file_index rd < length (files rd)"
    "rs = records_in k (drop (fs_pos f) (stream_content w f)) @ concat (map (records_in k) bodies)"
    "list_all2 (good_file k w (rd_dir rd)) (drop (Suc (file_index rd)) (files rd)) bodies"
    by (auto simp: reader_at_def)
  let ?rec = "slice (fs_pos f) (rec_size k) (stream_content w f)"
  let ?rd1 = "rd\<lparr>rd_file := Some (f\<lparr>fs_pos := fs_pos f + length ?rec\<rparr>)\<rparr>"
  let ?rd2 = "?rd1\<lparr>file_index := Suc (file_index ?rd1)\<rparr>"
  show ?case
  proof (cases "length ?rec = rec_size k")
    case True
    obtain tl where rs: "rs = ?rec # tl" and at1: "reader_at k w ?rd1 tl"
      by (rule reader_next_record [OF 1(3) f(1) refl True])
    show ?thesis
    proof (cases "record_crc_ok k ?rec \<and> \<not> window_contains (rd_window rd) (rec_recv_ts_us ?rec)")
      case w: True
      then have "read_next k w rd = read_next k w ?rd1"
        using f(1) True by (subst read_next.simps) (simp add: Let_def)
      with 1(1) [OF f(1) refl refl True _ _ at1] w 1(4) rs show ?thesis by (simp add: same_job_def)
    next
      case False
      then show ?thesis
        using f(1) True 1(4) rs at1
        by (subst read_next.simps) (auto simp: Let_def same_job_def split: if_splits)
    qed
  next
    case False
    have rs: "rs = concat (map (records_in k) bodies)" using f(4) records_in_end [OF False] by simp
    show ?thesis
    proof (cases bodies)
      case Nil
      then have "length (files rd) \<le> Suc (file_index rd)" using f(5) by simp
      then show ?thesis
        using f(1) False rs Nil 1(4)
        by (subst read_next.simps) (simp add: Let_def same_job_def)
    next
      case (Cons b bs)
      obtain f3 where lt: "\<not> length (files ?rd2) \<le> file_index ?rd2"
        and o: "open_index k w ?rd2 (file_index ?rd2) = (io_tick w, ?rd2\<lparr>rd_file := Some f3\<rparr>, True)"
        and at3: "reader_at k (io_tick w) (?rd2\<lparr>rd_file := Some f3\<rparr>) rs"
        by (rule reader_next_file [OF f(2) f(5) [unfolded Cons], of ?rd2]) (simp_all add: rs Cons)
      let ?rd3 = "?rd2\<lparr>rd_file := Some f3\<rparr>"
      have "read_next k w rd = read_next k (io_tick w) ?rd3"
        using f(1) False lt o by (subst read_next.simps) (simp add: Let_def)
      with 1(2) [OF f(1) refl refl False refl lt o [symmetric] refl _ at3] 1(4) show ?thesis
        by (simp add: same_job_def)
    qed
  qed
qed

lemma replay_loop_spec:
  assumes "reader_at k w rd rs" and "deliver k (rd_window rd) rs = (out, bad)"
    and "feed cb s out = (s', n, threw)" and "\<not> read_error rd"
  shows "\<exists>w' rd'. replay_loop k cb w rd s result
      = (w', rd', s', result\<lparr>records_replayed := records_replayed result + of_nat n,
           callback_error := callback_error result \<or> threw\<rparr>)
    \<and> same_job rd rd' \<and> read_error rd' = (bad \<and> \<not> threw)"
  using assms
proof (induction "length rs" arbitrary: w rd rs s result out n rule: less_induct)
  case less
  obtain found b rest where nr: "next_rec k (rd_window rd) rs = (found, b, rest)" by (metis prod_cases3)
  obtain w1 rd1 where r: "read_next k w rd = (w1, rd1, found)" "same_job rd rd1"
    "read_error rd1 = (read_error rd \<or> b)" "found \<noteq> None \<longrightarrow> reader_at k w1 rd1 rest"
    using read_next_spec [OF less(2) nr] by blast
  have upd: "result\<lparr>records_replayed := records_replayed result, callback_error := callback_error result\<rparr> = result"
    by simp
  show ?case
  proof (cases found)
    case None
    then have "out = []" "bad = b" using less(3) nr deliver_next_rec [of k "rd_window rd" rs] by simp_all
    then show ?thesis
      using None r less(4,5) upd by (subst replay_loop.simps) simp
  next
    case (Some x)
    obtain out1 bad1 where d: "deliver k (rd_window rd) rest = (out1, bad1)" by force
    then have out: "out = x # out1" "bad = bad1" "b = False"
      using less(3) nr Some deliver_next_rec [of k "rd_window rd" rs] next_rec_good [of k "rd_window rd" rs]
      by simp_all
    obtain s1 t where c: "cb s x = (s1, t)" by force
    show ?thesis
    proof (cases t)
      case True
      have "bad \<and> \<not> threw \<longleftrightarrow> False" using less(4) out c True by simp
      then show ?thesis
        using Some r less(4,5) out c True by (subst replay_loop.simps) simp
    next
      case False
      obtain m where fd: "feed cb s1 out1 = (s', m, threw)" "n = Suc m"
        using less(4) out c False by (auto split: prod.splits)
      have sm: "length rest < length rs" using next_rec_shorter nr Some by blast
      have at: "reader_at k w1 rd1 rest" "deliver k (rd_window rd1) rest = (out1, bad)" "\<not> read_error rd1"
        using r Some d out less(5) by (simp_all add: same_job_def)
      let ?res = "result\<lparr>records_replayed := records_replayed result + 1\<rparr>"
      from less(1) [OF sm at(1,2) fd(1) at(3), of ?res] obtain w2 rd2 where
        "replay_loop k cb w1 rd1 s1 ?res = (w2, rd2, s',
           ?res\<lparr>records_replayed := records_replayed ?res + of_nat m, callback_error := callback_error ?res \<or> threw\<rparr>)"
        "same_job rd1 rd2" "read_error rd2 = (bad \<and> \<not> threw)" by blast
      then show ?thesis
        using r(1,2) Some c False fd(2)
        by (subst replay_loop.simps) (simp add: same_job_def add.assoc)
    qed
  qed
qed

lemma probe_files_ok:
  "no_faults w \<Longrightarrow> list_all2 (\<lambda>n (h, b). get_file w dir n = Some (header_bytes h @ b) \<and> header_matches k h) names hbs
     \<Longrightarrow> \<exists>w'. probe_files k w dir names tot = (w', tot + sum_list (map (record_count \<circ> fst) hbs), True)
       \<and> no_faults w' \<and> get_file w' = get_file w"
proof (induction names arbitrary: w tot hbs)
  case (Cons n names)
  then obtain h b hbs' where hb: "hbs = (h, b) # hbs'" "get_file w dir n = Some (header_bytes h @ b)"
    "header_matches k h"
    "list_all2 (\<lambda>n (h, b). get_file w dir n = Some (header_bytes h @ b) \<and> header_matches k h) names hbs'"
    by (cases hbs) auto
  let ?f = "\<lparr>fs_dir = dir, fs_name = n, fs_pos = 0, fs_bad = False\<rparr> :: fstream"
  have "read_and_check_header k (io_tick w) ?f = Some (h, ?f\<lparr>fs_pos := header_size\<rparr>)"
    by (rule read_header_ok) (use hb in simp_all)
  moreover have "\<exists>w'. probe_files k (io_tick w) dir names (tot + record_count h)
      = (w', (tot + record_count h) + sum_list (map (record_count \<circ> fst) hbs'), True)
       \<and> no_faults w' \<and> get_file w' = get_file (io_tick w)"
    by (rule Cons.IH) (use Cons.prems hb in simp_all)
  ultimately show ?case
    using Cons.prems hb by (simp add: open_in_def open_inout_ok fun_eq_iff add.assoc o_def)
qed simp

text \<open>What the replay of a directory does when no call fails and all headers are good.\<close>

lemma replay_all_ok:
  assumes "no_faults w" and "window_valid tw"
    and "list_record_files (w_dirs w dir) (rec_file_prefix k) tw = names" and "names \<noteq> []"
    and "list_all2 (\<lambda>n (h, b). get_file w dir n = Some (header_bytes h @ b) \<and> header_matches k h) names hbs"
    and "deliver k tw (concat (map (records_in k \<circ> snd) hbs)) = (out, bad)"
    and "feed cb s out = (s', n, threw)"
  shows "\<exists>w'. replay_all k w dir (Some cb) tw s = (w', s',
     let total = sum_list (map (record_count \<circ> fst) hbs);
         mismatch = (\<not> (bad \<and> \<not> threw) \<and> window_empty tw \<and> 0 < total \<and> of_nat n \<noteq> total)
     in \<lparr>records_replayed = of_nat n, header_record_count = total,
         completed = (\<not> bad \<and> \<not> threw \<and> \<not> mismatch), file_error = (bad \<and> \<not> threw),
         callback_error = threw, count_mismatch = mismatch\<rparr>)"
proof -
  let ?total = "sum_list (map (record_count \<circ> fst) hbs)"
  obtain n0 ns h0 b0 hbs' where c: "names = n0 # ns" "hbs = (h0, b0) # hbs'"
    using assms(4,5) by (cases names; cases hbs) auto
  obtain w1 where p: "probe_files k w dir names 0 = (w1, ?total, True)" "no_faults w1" "get_file w1 = get_file w"
    using probe_files_ok [OF assms(1,5), of 0] by auto
  let ?rd = "new_reader\<lparr>rd_window := tw, windowed := \<not> window_empty tw, rd_dir := dir, files := names,
     total_record_count := ?total\<rparr>"
  have "good_file k w1 (rd_dir ?rd) (files ?rd ! 0) b0"
    using assms(5) c p(3) by (auto simp: good_file_def)
  from open_index_ok [OF p(2) _ this] c obtain f where
    o: "open_index k w1 ?rd 0 = (io_tick w1, ?rd\<lparr>rd_file := Some f\<rparr>, True)"
    "drop (fs_pos f) (stream_content (io_tick w1) f) = b0" by auto
  have ro: "reader_open k w new_reader dir tw = (io_tick w1, ?rd\<lparr>rd_file := Some f\<rparr>, True)"
    using assms(2-4) p(1) o(1) by (simp add: reader_open_def reader_close_def new_reader_def)
  have "list_all2 (good_file k w1 dir) ns (map snd hbs')"
    using assms(5) c p(3) unfolding list_all2_map2
    by (auto simp: good_file_def elim!: list_all2_mono)
  then have at: "reader_at k (io_tick w1) (?rd\<lparr>rd_file := Some f\<rparr>) (concat (map (records_in k \<circ> snd) hbs))"
    using p(2) o(2) c by (auto simp: reader_at_def new_reader_def intro!: exI [of _ "map snd hbs'"])
  have "\<exists>w' rd'. replay_loop k cb (io_tick w1) (?rd\<lparr>rd_file := Some f\<rparr>) s new_result
      = (w', rd', s', new_result\<lparr>records_replayed := records_replayed new_result + of_nat n,
           callback_error := callback_error new_result \<or> threw\<rparr>)
    \<and> same_job (?rd\<lparr>rd_file := Some f\<rparr>) rd' \<and> read_error rd' = (bad \<and> \<not> threw)"
    by (rule replay_loop_spec [OF at _ assms(7)]) (use assms(6) in \<open>simp_all add: new_reader_def\<close>)
  then obtain w2 rd2 where l: "replay_loop k cb (io_tick w1) (?rd\<lparr>rd_file := Some f\<rparr>) s new_result
      = (w2, rd2, s', new_result\<lparr>records_replayed := of_nat n, callback_error := threw\<rparr>)"
    "windowed rd2 = (\<not> window_empty tw)" "total_record_count rd2 = ?total" "read_error rd2 = (bad \<and> \<not> threw)"
    by (auto simp: same_job_def new_result_def)
  show ?thesis using ro l by (auto simp: replay_all_def Let_def new_result_def)
qed

end
