(* ===== verification/Storage_Roundtrip.thy ===== *)
theory Storage_Roundtrip
  imports Record_Reader "HOL-Library.Multiset"
begin

text \<open>
  The storage path from end to end. First the frame of the writer: it changes no file but the
  hour files of its record kind, so the trade and the order book writer can share a directory.
  Then what a replay delivers after a session: the accepted records, checksummed, in the stable
  order of their hours, restricted to the requested window.
\<close>

section \<open>The writer's frame\<close>

definition frame :: "rec_kind \<Rightarrow> string \<Rightarrow> world \<Rightarrow> world \<Rightarrow> bool" where
  "frame k dir w w' \<longleftrightarrow> (\<forall>d n. \<not> (d = dir \<and> n \<in> hour_names k) \<longrightarrow> get_node w' d n = get_node w d n)
     \<and> (\<forall>d. w_dirs w' d = None \<longleftrightarrow> w_dirs w d = None)
     \<and> (\<forall>d. distinct_names w d \<longrightarrow> distinct_names w' d) \<and> w_fault w' = w_fault w"

lemma frame_refl [simp]: "frame k dir w w"
  by (simp add: frame_def)

lemma frame_trans: "frame k dir w w' \<Longrightarrow> frame k dir w' w'' \<Longrightarrow> frame k dir w w''"
  unfolding frame_def by (intro conjI allI impI) metis+

lemma frame_touches:
  assumes "touches w w' dir n" and "n \<in> hour_names k"
  shows "frame k dir w w'"
  unfolding frame_def
proof (intro conjI allI impI)
  fix d m
  assume "\<not> (d = dir \<and> m \<in> hour_names k)"
  then have "(d, m) \<noteq> (dir, n)" using assms(2) by auto
  then show "get_node w' d m = get_node w d m" using assms(1) unfolding touches_def by metis
qed (use assms(1) in \<open>auto simp: touches_def\<close>)

lemma frame_tick [simp]: "frame k dir w (io_tick w') = frame k dir w w'"
  by (simp add: frame_def distinct_names_def io_tick_def get_node_def)

definition own_stream :: "rec_kind \<Rightarrow> writer \<Rightarrow> bool" where
  "own_stream k s \<longleftrightarrow> (\<forall>f. wr_file s = Some f \<longrightarrow> fs_dir f = data_dir s \<and> fs_name f \<in> hour_names k)"

lemma persist_frame:
  assumes "own_stream k s" and "persist_header_count w s = (w', s', ok)"
  shows "frame k (data_dir s) w w' \<and> own_stream k s' \<and> data_dir s' = data_dir s"
proof (cases "wr_file s = None \<or> write_error s")
  case True
  then have "w' = w \<and> s' = s" using assms(2) by (auto simp: persist_header_count_def split: option.splits)
  then show ?thesis using assms(1) by simp
next
  case False
  then obtain f where f: "wr_file s = Some f" by auto
  then have d: "fs_dir f = data_dir s" "fs_name f \<in> hour_names k" using assms(1) by (auto simp: own_stream_def)
  obtain w1 f1 w2 f2 w3 f3 w4 f4 where st:
    "stream_seekp w (stream_clear f) (Some record_count_offset) = (w1, f1)"
    "stream_write w1 f1 (u64_bytes (file_record_count s)) = (w2, f2)"
    "stream_seekp w2 f2 (stream_tellp f) = (w3, f3)" "stream_flush w3 f3 = (w4, f4)"
    by (metis prod.exhaust)
  then have r: "w' = w4" "wr_file s' = Some f4" "data_dir s' = data_dir s"
    using assms(2) f False by (auto simp: persist_header_count_def split: if_splits)
  have cl: "fs_dir (stream_clear f) = fs_dir f" "fs_name (stream_clear f) = fs_name f"
    by (simp_all add: stream_clear_def)
  note f1 = stream_same_file(2) [OF st(1), unfolded cl] and f2 = stream_same_file(1) [OF st(2)]
    and f3 = stream_same_file(2) [OF st(3)] and f4 = stream_same_file(3) [OF st(4)]
  have "touches w w1 (data_dir s) (fs_name f)" "touches w1 w2 (data_dir s) (fs_name f)"
    "touches w2 w3 (data_dir s) (fs_name f)" "touches w3 w4 (data_dir s) (fs_name f)"
    using touches_stream_seekp [OF st(1)] touches_stream_write [OF st(2)] touches_stream_seekp [OF st(3)]
      touches_stream_flush [OF st(4)] d f1 by simp_all
  then have "touches w w4 (data_dir s) (fs_name f)" using touches_trans by blast
  then show ?thesis
    using frame_touches [OF _ d(2)] r d f1 f2 f3 f4 by (simp add: own_stream_def)
qed

lemma close_file_frame:
  assumes "own_stream k s" and "close_current_file w s = (w', s', ok)"
  shows "frame k (data_dir s) w w' \<and> wr_file s' = None \<and> data_dir s' = data_dir s"
proof (cases "wr_file s")
  case None
  then show ?thesis using assms by (auto simp: close_current_file_def)
next
  case (Some f)
  obtain w1 s1 ok1 where p: "persist_header_count w s = (w1, s1, ok1)" by (metis prod_cases3)
  note p1 = persist_frame [OF assms(1) p]
  have "w' = io_tick w1 \<or> w' = io_tick (io_tick w1)"
    using assms(2) Some p
    by (auto simp: close_current_file_def stream_flush_def stream_close_def Let_def split: if_splits)
  moreover have "wr_file s' = None \<and> data_dir s' = data_dir s1"
    using assms(2) Some p by (auto simp: close_current_file_def Let_def split: if_splits prod.splits)
  ultimately show ?thesis using p1 by auto
qed

lemma open_file_frame:
  assumes "wr_file s = None" and "name \<in> hour_names k" and "open_file k w s name = (w', s', ok)"
  shows "frame k (data_dir s) w w' \<and> own_stream k s' \<and> data_dir s' = data_dir s"
proof -
  let ?d = "data_dir s"
  have c: "data_dir s' = ?d" using open_file_control [OF assms(3)] by (simp add: same_control_def)
  have t: "touches w w' ?d name"
  proof (cases "snd (path_exists w ?d name)")
    case True
    obtain w2 r where r: "repair_record_file k (io_tick w) ?d name = (w2, r)" by force
    have "touches w w2 ?d name" using repair_touches [OF r] by simp
    moreover have "touches w2 w' ?d name"
      using assms(3) True r
      by (auto simp: open_file_def path_exists_def open_inout_def stream_seekp_def stream_clear_def stream_close_def
          Let_def split: if_splits option.splits prod.splits)
    ultimately show ?thesis by (rule touches_trans)
  next
    case False
    obtain w2 fo where o: "open_trunc (io_tick w) ?d name = (w2, fo)" by force
    have t2: "touches w w2 ?d name" using touches_open_trunc [OF o] by simp
    have f: "\<forall>f. fo = Some f \<longrightarrow> fs_dir f = ?d \<and> fs_name f = name"
      using o by (auto simp: open_trunc_def split: option.splits if_splits)
    have "touches w2 w' ?d name"
      using assms(3) False o f
      by (auto simp: open_file_def path_exists_def stream_close_def split: if_splits option.splits prod.splits
          dest!: touches_stream_write)
    with t2 show ?thesis by (rule touches_trans)
  qed
  have "own_stream k s'"
    using assms
    by (auto simp: open_file_def path_exists_def own_stream_def open_inout_def open_trunc_def stream_seekp_def
        stream_clear_def stream_write_def Let_def split: if_splits option.splits prod.splits)
  with frame_touches [OF t assms(2)] c show ?thesis by simp
qed

lemma select_file_frame:
  assumes "own_stream k s" and "select_file k w s n = (w', s', ok)" and "n \<in> hour_names k"
  shows "frame k (data_dir s) w w' \<and> own_stream k s' \<and> data_dir s' = data_dir s"
proof (cases "n = current_name s")
  case True
  then show ?thesis using assms(1,2) by (simp add: select_file_def)
next
  case False
  obtain w1 s1 ok1 where c: "close_current_file w s = (w1, s1, ok1)" by (metis prod_cases3)
  obtain w2 s2 ok2 where o: "open_file k w1 s1 n = (w2, s2, ok2)" by (metis prod_cases3)
  have sel: "if ok1 then w' = w2 \<and> s' = s2 else w' = w1 \<and> s' = s1"
    using assms(2) c o False by (cases ok1) (simp_all add: select_file_def)
  note c1 = close_file_frame [OF assms(1) c]
  have own: "own_stream k s1" using c1 by (simp add: own_stream_def)
  have "frame k (data_dir s1) w1 w2 \<and> own_stream k s2 \<and> data_dir s2 = data_dir s1"
    by (rule open_file_frame [OF conjunct1 [OF conjunct2 [OF c1]] assms(3) o])
  then have a: "frame k (data_dir s) w1 w2" "own_stream k s2" "data_dir s2 = data_dir s" using c1 by metis+
  have "frame k (data_dir s) w w2" using c1 a(1) frame_trans by blast
  with a own c1 sel show ?thesis by metis
qed

lemma write_to_file_frame:
  assumes "own_stream k s" and "write_to_file k w s r = (w', s', ok)"
  shows "frame k (data_dir s) w w' \<and> own_stream k s' \<and> data_dir s' = data_dir s"
proof -
  let ?d = "data_dir s"
  obtain w1 ts where ts: "record_ts_us w r = (w1, ts)" by force
  have fr1: "frame k ?d w w1"
    using ts by (auto simp: record_ts_us_def wall_us_now_def frame_def get_node_def distinct_names_def split: if_splits)
  let ?n = "hourly_file_name (rec_file_prefix k) ts"
  have n: "?n \<in> hour_names k" by (simp add: hour_names_def)
  obtain w2 s2 ok2 where s2: "select_file k w1 s ?n = (w2, s2, ok2)" by (metis prod_cases3)
  note fr2 = select_file_frame [OF assms(1) s2 n]
  have "frame k ?d w2 w' \<and> own_stream k s' \<and> data_dir s' = ?d"
  proof (cases "ok2 \<and> wr_file s2 \<noteq> None")
    case True
    then obtain f where f: "wr_file s2 = Some f" by auto
    then have d: "fs_dir f = ?d" "fs_name f \<in> hour_names k" using fr2 by (auto simp: own_stream_def)
    obtain w5 f5 where w5: "stream_write w2 f (stamp_record_crc k r) = (w5, f5)" by force
    have fr5: "frame k ?d w2 w5" using frame_touches [OF _ d(2)] touches_stream_write [OF w5] d(1) by simp
    have "w' = w5 \<and> wr_file s' = Some f5 \<and> data_dir s' = data_dir s2"
      using assms(2) ts s2 True f w5 by (auto simp: write_to_file_def split: if_splits)
    moreover have "fs_dir f5 = ?d \<and> fs_name f5 \<in> hour_names k" using stream_same_file(1) [OF w5] d by simp
    ultimately show ?thesis using fr2 fr5 unfolding own_stream_def by (metis option.inject)
  next
    case False
    then show ?thesis using assms(2) ts s2 fr2 by (auto simp: write_to_file_def split: bool.splits option.splits)
  qed
  then show ?thesis using fr1 fr2 frame_trans by blast
qed

lemma write_batch_frame:
  "own_stream k s \<Longrightarrow> write_batch k w s bs = (w', s', j)
     \<Longrightarrow> frame k (data_dir s) w w' \<and> own_stream k s' \<and> data_dir s' = data_dir s"
proof (induction bs arbitrary: w s w' s' j)
  case (Cons r bs)
  obtain w1 s1 ok where 1: "write_to_file k w s r = (w1, s1, ok)" by (metis prod_cases3)
  note f1 = write_to_file_frame [OF Cons.prems(1) 1]
  obtain w2 s2 i where 2: "write_batch k w1 s1 bs = (w2, s2, i)" by (metis prod_cases3)
  show ?case using Cons.prems(2) 1 2 f1 Cons.IH [OF _ 2] frame_trans [of k "data_dir s" w w1 w2] by (cases ok) auto
qed simp

lemma own_stream_control [simp]:
  "own_stream k (s\<lparr>worker := p\<rparr>) = own_stream k s" "own_stream k (s\<lparr>records_written := c\<rparr>) = own_stream k s"
  "own_stream k (s\<lparr>records_dropped := c\<rparr>) = own_stream k s" "own_stream k (s\<lparr>queue := q\<rparr>) = own_stream k s"
  "own_stream k (s\<lparr>queue_depth_max := m\<rparr>) = own_stream k s" "own_stream k (s\<lparr>closing := b\<rparr>) = own_stream k s"
  "own_stream k (s\<lparr>running := b\<rparr>) = own_stream k s" "own_stream k (s\<lparr>accepting := b\<rparr>) = own_stream k s"
  "own_stream k (s\<lparr>write_error := b\<rparr>) = own_stream k s"
  by (simp_all add: own_stream_def)

lemma wstep_frame:
  "wstep k c e c' \<Longrightarrow> own_stream k (snd c) \<Longrightarrow> frame k (data_dir (snd c)) (fst c) (fst c') \<and> own_stream k (snd c')"
proof (induction rule: wstep.induct)
  case (Write s r s' ok w)
  then show ?case by (auto simp: write_record_def Let_def split: if_splits)
next
  case (CloseEnd s w w' s')
  obtain w1 s1 ok where c: "close_current_file w (s\<lparr>worker := NoThread\<rparr>) = (w1, s1, ok)" by (metis prod_cases3)
  have "own_stream k (s\<lparr>worker := NoThread\<rparr>)" using CloseEnd(4) by simp
  from close_file_frame [OF this c] show ?case using CloseEnd(3) c by (auto simp: close_end_def own_stream_def)
next
  case (Process s batch w w' s')
  obtain w1 s1 j where b: "write_batch k w s batch = (w1, s1, j)" by (metis prod_cases3)
  have f1: "frame k (data_dir s) w w1" "own_stream k s1" "data_dir s1 = data_dir s"
    using write_batch_frame [OF _ b] Process(3) by simp_all
  define s2 where "s2 = s1\<lparr>records_written := records_written s1 + of_nat j\<rparr>"
  obtain w3 s3 ok where p: "persist_header_count w1 s2 = (w3, s3, ok)" by (metis prod_cases3)
  have f3: "frame k (data_dir s) w1 w3" "own_stream k s3" "own_stream k s2"
    using persist_frame [OF _ p] f1 by (simp_all add: s2_def)
  have "(w' = w1 \<or> w' = w3) \<and> (\<exists>pc. s' = s2\<lparr>worker := pc\<rparr> \<or> s' = s3\<lparr>worker := pc\<rparr>)"
    using Process(2) b p by (auto simp: process_batch_def s2_def [symmetric] split: if_splits bool.splits)
  then show ?case using f1 f3 frame_trans by auto
qed (auto simp: take_batch_def fail_section_def close_begin_def)

lemma wrun_frame:
  "wrun k c es c' \<Longrightarrow> own_stream k (snd c) \<Longrightarrow> frame k (data_dir (snd c)) (fst c) (fst c') \<and> own_stream k (snd c')"
proof (induction rule: wrun.induct)
  case (Step es c' e c'')
  then show ?case using wstep_frame [OF Step(2)] wrun_data_dir [OF Step(1)] frame_trans by metis
qed simp

text \<open>The state of the directory that a run keeps, whatever fails.\<close>

lemma srun_own_stream: "srun k c es c' \<Longrightarrow> own_stream k (snd c) \<Longrightarrow> own_stream k (snd c')"
  by (induction rule: srun.induct) (auto dest: wstep_frame)

lemma srun_dir:
  assumes "srun k c es c'" and "own_stream k (snd c)" and "data_dir (snd c) = dir"
  shows "(w_dirs (fst c') dir = None \<longleftrightarrow> w_dirs (fst c) dir = None)
    \<and> (distinct_names (fst c) dir \<longrightarrow> distinct_names (fst c') dir) \<and> w_fault (fst c') = w_fault (fst c)
    \<and> (\<forall>n. is_hourly_file_name (rec_file_prefix k) n \<and> n \<notin> hour_names k \<longrightarrow> get_node (fst c') dir n = get_node (fst c) dir n)"
  using assms
proof (induction rule: srun.induct)
  case (Own es c' e c'')
  have "data_dir (snd c') = dir" using srun_data_dir [OF Own(1)] Own.prems by simp
  then have "frame k dir (fst c') (fst c'')" using wstep_frame [OF Own(2) srun_own_stream [OF Own(1)]] Own.prems by simp
  then show ?case using Own by (simp add: frame_def)
next
  case (Other es w s w')
  have "data_dir s = dir" using srun_data_dir [OF Other(1)] Other.prems by simp
  then show ?case using Other by (simp add: others_def own_name_def)
qed simp

section \<open>Grouping by hour is a stable sort\<close>

lemma filter_groups:
  "distinct ns \<Longrightarrow> filter (\<lambda>y. f y = m) (concat (map (\<lambda>n. filter (\<lambda>x. f x = n) xs) ns))
     = (if m \<in> set ns then filter (\<lambda>x. f x = m) xs else [])"
proof (induction ns)
  case (Cons n ns)
  have "filter (\<lambda>y. f y = m) (filter (\<lambda>x. f x = n) xs) = (if m = n then filter (\<lambda>x. f x = m) xs else [])"
    by (auto simp: filter_empty_conv intro: filter_cong)
  with Cons show ?case by auto
qed simp

lemma mset_by_groups:
  assumes "\<And>m. filter (\<lambda>y. f y = m) ys = filter (\<lambda>y. f y = m) xs"
  shows "mset ys = mset xs"
proof (rule multiset_eqI)
  fix x
  have "count (mset zs) x = count (mset (filter (\<lambda>y. f y = f x) zs)) x" for zs
    by simp
  then show "count (mset ys) x = count (mset xs) x" using assms by metis
qed

lemma sorted_groups:
  "sorted ns \<Longrightarrow> sorted (map f (concat (map (\<lambda>n. filter (\<lambda>x. f x = n) xs) ns)))"
proof (induction ns)
  case (Cons n ns)
  have "map f (filter (\<lambda>x. f x = n) xs) = replicate (length (filter (\<lambda>x. f x = n) xs)) n"
    by (induction xs) auto
  then have "sorted (map f (filter (\<lambda>x. f x = n) xs))" by simp
  with Cons show ?case by (auto simp: sorted_append)
qed simp

lemma groups_sort_key:
  assumes "sorted ns" and "distinct ns" and "set ns = f ` set xs"
  shows "concat (map (\<lambda>n. filter (\<lambda>x. f x = n) xs) ns) = sort_key f xs"
proof -
  let ?ys = "concat (map (\<lambda>n. filter (\<lambda>x. f x = n) xs) ns)"
  have g: "filter (\<lambda>y. f y = m) ?ys = filter (\<lambda>y. f y = m) xs" for m
    unfolding filter_groups [OF assms(2)] assms(3) by (auto simp: filter_empty_conv eq_commute [of "[]"])
  have "sort_key f xs = ?ys"
  proof (rule properties_for_sort_key)
    show "mset ?ys = mset xs" using g by (rule mset_by_groups)
    show "filter (\<lambda>x. f k = f x) ?ys = filter (\<lambda>x. f k = f x) xs" if "k \<in> set ?ys" for k
      using g [of "f k"] by (simp only: eq_commute [of "f k"])
    show "sorted (map f ?ys)" using assms(1) by (rule sorted_groups)
  qed
  then show ?thesis by simp
qed

section \<open>Replaying a session\<close>

definition in_window :: "time_window \<Rightarrow> byte list \<Rightarrow> bool" where
  "in_window tw r \<longleftrightarrow> window_contains tw (rec_recv_ts_us r)"

text \<open>What a replay delivers after a session that accepted \<open>rs\<close>.\<close>

definition replayed :: "rec_kind \<Rightarrow> time_window \<Rightarrow> byte list list \<Rightarrow> byte list list" where
  "replayed k tw rs = map (stamp_record_crc k) (sort_key (hour_of k) (filter (in_window tw) rs))"

lemma feed_all: "feed cb s rs = (s', n, False) \<Longrightarrow> n = length rs"
  by (induction rs arbitrary: s n) (auto split: prod.splits bool.splits)

text \<open>The hour files a session leaves in a directory that had none.\<close>

definition hour_records :: "rec_kind \<Rightarrow> byte list list \<Rightarrow> string \<Rightarrow> byte list list" where
  "hour_records k rs n = map (stamp_record_crc k) (filter (\<lambda>r. hour_of k r = n) rs)"

definition session_files :: "rec_kind \<Rightarrow> byte list list \<Rightarrow> world \<Rightarrow> string \<Rightarrow> bool" where
  "session_files k rs w dir \<longleftrightarrow> no_faults w \<and> distinct_names w dir \<and> w_dirs w dir \<noteq> None
     \<and> list_all (good_rec k) rs \<and> list_all (\<lambda>r. rec_recv_ts_us r < end_of_9999_us) rs
     \<and> (\<forall>n. is_hourly_file_name (rec_file_prefix k) n \<longrightarrow>
          (if n \<in> hour_of k ` set rs then get_file w dir n = Some (file_image k (hour_records k rs n))
           else get_node w dir n = None))"

lemma hour_records_valid: "list_all (good_rec k) rs \<Longrightarrow> list_all (valid_rec k) (hour_records k rs n)"
  by (auto simp: hour_records_def list_all_iff good_rec_def)

lemma session_hour_is_hourly:
  assumes "list_all (good_rec k) rs" and "list_all (\<lambda>r. rec_recv_ts_us r < end_of_9999_us) rs" and "r \<in> set rs"
  shows "is_hourly_file_name (rec_file_prefix k) (hour_of k r)"
  using assms is_hourly_hourly_name [of "rec_recv_ts_us r" "rec_file_prefix k"]
  by (auto simp: hour_of_def list_all_iff good_rec_def)

lemma session_listing:
  fixes tw :: time_window
  assumes "session_files k rs w dir"
  defines "names \<equiv> list_record_files (w_dirs w dir) (rec_file_prefix k) tw"
  shows "sorted names" "distinct names"
    "set names = {n \<in> hour_of k ` set rs. hourly_file_in_window (rec_file_prefix k) n tw}"
proof -
  obtain es where es: "w_dirs w dir = Some es" "distinct (map fst es)"
    using assms(1) by (auto simp: session_files_def distinct_names_def)
  note l = list_record_files_facts [OF es(2), where prefix = "rec_file_prefix k" and tw = tw]
  show "sorted names" "distinct names" using l(1,2) es(1) by (simp_all add: names_def)
  have in_names: "n \<in> set names \<longleftrightarrow> (\<exists>c. get_file w dir n = Some c) \<and> hourly_file_in_window (rec_file_prefix k) n tw" for n
    using l(3) [of n] es(1) unfolding names_def
    by (auto simp: get_file_def get_node_def split: option.splits dir_node.splits)
  have hourly: "is_hourly_file_name (rec_file_prefix k) n" if "hourly_file_in_window (rec_file_prefix k) n tw" for n
    using that by (simp add: hourly_file_in_window_def split: if_splits)
  show "set names = {n \<in> hour_of k ` set rs. hourly_file_in_window (rec_file_prefix k) n tw}"
  proof (intro set_eqI)
    fix n
    show "n \<in> set names \<longleftrightarrow> n \<in> {n \<in> hour_of k ` set rs. hourly_file_in_window (rec_file_prefix k) n tw}"
      using in_names [of n] hourly [of n] assms(1)
      by (auto simp: session_files_def get_file_def split: if_splits)
  qed
qed

lemma session_records:
  assumes "session_files k rs w dir" and "\<forall>b. to_us tw = Some b \<longrightarrow> b < end_of_9999_us"
  shows "filter (in_window tw) (concat (map (hour_records k rs) (list_record_files (w_dirs w dir) (rec_file_prefix k) tw)))
    = replayed k tw rs"
proof -
  let ?names = "list_record_files (w_dirs w dir) (rec_file_prefix k) tw"
  let ?Q = "\<lambda>r. hourly_file_in_window (rec_file_prefix k) (hour_of k r) tw"
  note l = session_listing [OF assms(1), of tw]
  have good: "list_all (good_rec k) rs" "list_all (\<lambda>r. rec_recv_ts_us r < end_of_9999_us) rs"
    using assms(1) by (simp_all add: session_files_def)
  have same: "filter (\<lambda>r. hour_of k r = n) rs = filter (\<lambda>r. hour_of k r = n) (filter ?Q rs)" if "n \<in> set ?names" for n
    using that l(3) by (auto intro: filter_cong)
  have "concat (map (\<lambda>n. filter (\<lambda>r. hour_of k r = n) rs) ?names)
      = concat (map (\<lambda>n. filter (\<lambda>r. hour_of k r = n) (filter ?Q rs)) ?names)"
    by (intro arg_cong [where f = concat] map_cong refl same)
  also have "\<dots> = sort_key (hour_of k) (filter ?Q rs)"
    by (rule groups_sort_key [OF l(1,2)]) (use l(3) in auto)
  finally have g: "concat (map (\<lambda>n. filter (\<lambda>r. hour_of k r = n) rs) ?names) = sort_key (hour_of k) (filter ?Q rs)" .
  have "concat (map (hour_records k rs) ?names)
      = map (stamp_record_crc k) (concat (map (\<lambda>n. filter (\<lambda>r. hour_of k r = n) rs) ?names))"
    by (simp add: hour_records_def [abs_def] map_concat o_def)
  then have c: "concat (map (hour_records k rs) ?names) = map (stamp_record_crc k) (sort_key (hour_of k) (filter ?Q rs))"
    by (simp only: g)
  have st: "in_window tw (stamp_record_crc k r) = in_window tw r" if "r \<in> set rs" for r
    using that good(1) by (auto simp: in_window_def list_all_iff good_rec_def)
  have win: "?Q r" if "r \<in> set rs" "in_window tw r" for r
    using hour_name_in_window [of "rec_recv_ts_us r" tw k] that good assms(2)
    by (auto simp: in_window_def hour_of_def list_all_iff good_rec_def)
  have "filter (in_window tw) (map (stamp_record_crc k) (sort_key (hour_of k) (filter ?Q rs)))
      = map (stamp_record_crc k) (filter (in_window tw) (sort_key (hour_of k) (filter ?Q rs)))"
    using st by (auto simp: filter_map intro!: arg_cong [where f = "map _"] filter_cong)
  also have "filter (in_window tw) (sort_key (hour_of k) (filter ?Q rs))
      = sort_key (hour_of k) (filter (in_window tw) rs)"
    using win by (simp add: filter_sort) (metis (mono_tags, lifting) filter_cong)
  finally show ?thesis by (simp add: c replayed_def)
qed

lemma replay_all_no_files:
  assumes "window_valid tw" and "\<not> window_empty tw"
    and "list_record_files (w_dirs w dir) (rec_file_prefix k) tw = []"
  shows "replay_all k w dir (Some cb) tw s = (w, s, new_result\<lparr>completed := True\<rparr>)"
proof -
  have end_of_input: "replay_loop k cb w rd s r = (w, rd, s, r)" if "rd_file rd = None" for rd and r :: replay_result
    using that by (subst replay_loop.simps, subst read_next.simps) simp
  show ?thesis
    using assms end_of_input
    by (simp add: replay_all_def reader_open_def reader_close_def new_reader_def new_result_def)
qed

lemma sum_list_of_nat_word: "(\<Sum>x\<leftarrow>xs. of_nat (f x)) = (of_nat (\<Sum>x\<leftarrow>xs. f x) :: u64)"
  by (induction xs) simp_all

lemma list_all2_map_same: "list_all2 P xs (map f xs) \<longleftrightarrow> (\<forall>x \<in> set xs. P x (f x))"
  by (induction xs) auto

lemma hour_records_length: "list_all (good_rec k) rs \<Longrightarrow> list_all (\<lambda>r. length r = rec_size k) (hour_records k rs n)"
  by (auto simp: hour_records_def list_all_iff good_rec_def)

text \<open>The replay of the files of a session.\<close>

text \<open>The hour files of a session, listed for a window: the records in them, their headers, and the whole session
  when there is no window.\<close>

lemma session_hours:
  assumes "session_files k rs w dir" and "\<forall>b. to_us tw = Some b \<longrightarrow> b < end_of_9999_us"
    and "names = list_record_files (w_dirs w dir) (rec_file_prefix k) tw"
    and "hb = (\<lambda>n. (set_count (of_nat (length (hour_records k rs n))) (default_header k), concat (hour_records k rs n)))"
  shows "deliver k tw (concat (map (records_in k \<circ> snd) (map hb names))) = (replayed k tw rs, False)"
    and "list_all2 (\<lambda>n (h, b). get_file w dir n = Some (header_bytes h @ b) \<and> header_matches k h) names (map hb names)"
    and "window_empty tw \<Longrightarrow> length (concat (map (hour_records k rs) names)) = length rs"
    and "window_empty tw \<Longrightarrow> length (replayed k tw rs) = length rs"
proof -
  have sf: "list_all (good_rec k) rs" "list_all (\<lambda>r. rec_recv_ts_us r < end_of_9999_us) rs"
    using assms(1) by (simp_all add: session_files_def)
  have rec: "records_in k (concat (hour_records k rs n)) = hour_records k rs n" for n
    using records_in_concat [OF hour_records_length [OF sf(1)], of "[]"] by simp
  have val: "list_all (valid_rec k) (concat (map (hour_records k rs) names))" using hour_records_valid [OF sf(1)] by (auto simp: list_all_iff)
  show "deliver k tw (concat (map (records_in k \<circ> snd) (map hb names))) = (replayed k tw rs, False)"
    using deliver_valid [OF val, of tw] session_records [OF assms(1,2)]
    by (simp add: assms(3,4) o_def rec in_window_def [abs_def])
  have "get_file w dir n = Some (file_image k (hour_records k rs n))" if "n \<in> set names" for n
    using that assms(1) session_listing(3) [OF assms(1), of tw] session_hour_is_hourly [OF sf]
    unfolding assms(3) by (auto simp: session_files_def)
  then show "list_all2 (\<lambda>n (h, b). get_file w dir n = Some (header_bytes h @ b) \<and> header_matches k h) names (map hb names)"
    unfolding list_all2_map_same by (simp add: assms(4) file_image_def)
  have "in_window tw = (\<lambda>_. True)" if "window_empty tw"
    using that by (simp add: in_window_def window_contains_def window_empty_def fun_eq_iff)
  with session_records [OF assms(1,2)] show "window_empty tw \<Longrightarrow> length (concat (map (hour_records k rs) names)) = length rs"
    and "window_empty tw \<Longrightarrow> length (replayed k tw rs) = length rs"
    by (simp_all add: assms(3) replayed_def)
qed

lemma replay_session_files:
  assumes "session_files k rs w dir" and "window_valid tw" and "\<forall>b. to_us tw = Some b \<longrightarrow> b < end_of_9999_us"
    and "rs \<noteq> [] \<or> \<not> window_empty tw" and "feed cb s (replayed k tw rs) = (s', n, threw)"
  shows "\<exists>w' h. replay_all k w dir (Some cb) tw s = (w', s',
      \<lparr>records_replayed = of_nat n, header_record_count = h, completed = (\<not> threw), file_error = False,
       callback_error = threw, count_mismatch = (threw \<and> window_empty tw \<and> 0 < h \<and> of_nat n \<noteq> h)\<rparr>)
    \<and> (window_empty tw \<longrightarrow> h = of_nat (length rs))"
proof -
  let ?names = "list_record_files (w_dirs w dir) (rec_file_prefix k) tw"
  let ?hb = "\<lambda>n. (set_count (of_nat (length (hour_records k rs n))) (default_header k), concat (hour_records k rs n))"
  let ?all = "concat (map (hour_records k rs) ?names)"
  have sf: "no_faults w" using assms(1) by (simp add: session_files_def)
  note h = session_hours [OF assms(1,3) refl refl]
  have total: "sum_list (map (record_count \<circ> fst) (map ?hb ?names)) = of_nat (length ?all)"
    by (simp add: o_def set_count_def length_concat sum_list_of_nat_word)
  show ?thesis
  proof (cases "?names = []")
    case True
    have "rs = []" if "window_empty tw" using h(3) [OF that] True by simp
    then have ne: "\<not> window_empty tw" using assms(4) by blast
    have "replayed k tw rs = []" using session_records [OF assms(1,3)] True by simp
    then show ?thesis
      using replay_all_no_files [OF assms(2) ne True, of cb s] assms(5) ne by (auto simp: new_result_def)
  next
    case False
    have n: "\<not> threw \<longrightarrow> n = length (replayed k tw rs)" using assms(5) feed_all [of cb s "replayed k tw rs" s' n] by (cases threw) simp_all
    then have "\<not> threw \<longrightarrow> window_empty tw \<longrightarrow> n = length rs" using h(4) by simp
    then show ?thesis
      using replay_all_ok [OF sf assms(2) refl False h(2,1) assms(5)] h(3) unfolding total
      by (auto simp: Let_def)
  qed
qed

lemma open_writer_distinct:
  "open_writer w s dir cap = (w0, s0, res) \<Longrightarrow> distinct_names w d \<Longrightarrow> distinct_names w0 d"
  by (auto simp: open_writer_def create_directories_def distinct_names_def Let_def
      split: if_splits prod.splits bool.splits option.splits)

lemma session_leaves_files:
  assumes "open_writer w s dir cap = (w0, s0, Opened)" and "writer_idle s" and "cap < 2 ^ 64"
    and "no_faults w" and "distinct_names w dir"
    and "\<forall>n. is_hourly_file_name (rec_file_prefix k) n \<or> n \<in> hour_names k \<longrightarrow> get_node w dir n = None"
    and "srun k (w0, s0) es (w1, s1)" and "worker s1 = NoThread"
    and "list_all (good_rec k) (accepted es)" and "list_all (\<lambda>r. rec_recv_ts_us r < end_of_9999_us) (accepted es)"
  shows "session_files k (accepted es) w1 dir"
proof -
  note o = open_writer_opened [OF assms(1,2)]
  have "closed_files k w dir Map.empty {} {}" using assms(6) by (simp add: closed_files_def closed_file_def)
  note st = srun_store [OF assms(1-4) this assms(7,9,8)]
  let ?A = "store_records k Map.empty (accepted es)"
  have fr: "(w_dirs w1 dir = None \<longleftrightarrow> w_dirs w0 dir = None) \<and> (distinct_names w0 dir \<longrightarrow> distinct_names w1 dir)
    \<and> (\<forall>n. is_hourly_file_name (rec_file_prefix k) n \<and> n \<notin> hour_names k \<longrightarrow> get_node w1 dir n = get_node w0 dir n)"
    using srun_dir [OF assms(7)] o(3,4) by (simp add: own_stream_def)
  have dn0: "distinct_names w0 dir" using open_writer_distinct [OF assms(1,5)] .
  then have dn: "distinct_names w1 dir" "w_dirs w1 dir \<noteq> None" using fr o(16) by auto
  have rec: "records_of ?A n = hour_records k (accepted es) n" for n
    using records_of_store_records [of k Map.empty "accepted es" n] by (simp add: hour_records_def records_of_def)
  have "if n \<in> hour_of k ` set (accepted es) then get_file w1 dir n = Some (file_image k (hour_records k (accepted es) n))
      else get_node w1 dir n = None" if h: "is_hourly_file_name (rec_file_prefix k) n" for n
  proof (cases "n \<in> hour_names k")
    case True
    then have c: "closed_file k w1 dir (?A n) (n \<in> hour_of k ` set (accepted es)) n"
      using st by (simp add: closed_files_def)
    have d: "n \<in> dom ?A \<longleftrightarrow> n \<in> hour_of k ` set (accepted es)" using dom_store_records [of k Map.empty "accepted es"] by simp
    show ?thesis
    proof (cases "?A n")
      case None
      then show ?thesis using c d by (auto simp: closed_file_def)
    next
      case (Some rs)
      then have "rs = hour_records k (accepted es) n" using rec [of n] by (simp add: records_of_def)
      then show ?thesis using c d Some by (auto simp: closed_file_def)
    qed
  next
    case False
    then have "get_node w1 dir n = get_node w0 dir n" using fr h by simp
    then show ?thesis using False h assms(6) o(14) by auto
  qed
  then show ?thesis using st dn assms(9,10) by (simp add: session_files_def)
qed

lemma bad_header_check:
  assumes "stream_content w f = c" and "fs_pos f = 0"
    and "length c < header_size \<or> \<not> header_matches k (header_of_bytes (take header_size c))"
  shows "read_and_check_header k w f = None"
  using assms by (auto simp: read_and_check_header_def slice_def header_matches_def Let_def)

lemma probe_files_bad:
  "n \<in> set names \<Longrightarrow> get_file w dir n = Some c
     \<Longrightarrow> length c < header_size \<or> \<not> header_matches k (header_of_bytes (take header_size c))
     \<Longrightarrow> \<exists>w' t. probe_files k w dir names tot = (w', t, False)"
proof (induction names arbitrary: w tot)
  case (Cons m names)
  obtain w1 fo where o: "open_in w dir m = (w1, fo)" by force
  show ?case
  proof (cases fo)
    case None
    then show ?thesis using o by simp
  next
    case (Some f)
    then have w1: "w1 = io_tick w" "f = \<lparr>fs_dir = dir, fs_name = m, fs_pos = 0, fs_bad = False\<rparr>"
      using o open_inout_Some by (simp_all add: open_in_def)
    show ?thesis
    proof (cases "read_and_check_header k w1 f")
      case None
      then show ?thesis using o Some by simp
    next
      case r: (Some hf)
      have "m \<noteq> n"
        using bad_header_check [of w1 f c k] Cons.prems(2,3) r w1 by (auto simp: stream_content_def)
      then have "n \<in> set names" using Cons.prems(1) by simp
      then show ?thesis using Cons.IH [of w1] Cons.prems(2,3) o Some r w1(1) by (cases hf) simp
    qed
  qed
qed simp

section \<open>Properties\<close>

text \<open>(C1) Write, close, replay. After a session without failures into a directory without hour files of
  the kind, a replay that no call disturbs calls the callback on exactly the accepted records
  that lie in the window, each with its checksum, in the stable order of their hours; if the
  callback never throws, the replay is complete, reports no error and counts them correctly.
  Without a window the header total equals the number of accepted records.
\<close>
theorem write_then_replay:
  assumes "open_writer w s dir cap = (w0, s0, Opened)" and "writer_idle s" and "cap < 2 ^ 64"
    and "no_faults w" and "distinct_names w dir"
    and "\<forall>n. is_hourly_file_name (rec_file_prefix k) n \<or> n \<in> hour_names k \<longrightarrow> get_node w dir n = None"
    and "wrun k (w0, s0) es (w1, s1)" and "worker s1 = NoThread"
    and "list_all (good_rec k) (accepted es)" and "list_all (\<lambda>r. rec_recv_ts_us r < end_of_9999_us) (accepted es)"
    and "window_valid tw" and "\<forall>b. to_us tw = Some b \<longrightarrow> b < end_of_9999_us"
    and "accepted es \<noteq> [] \<or> \<not> window_empty tw"
    and "feed cb u (map (stamp_record_crc k) (sort_key (hour_of k) (filter (in_window tw) (accepted es)))) = (u', n, False)"
  shows "\<exists>w2 h. replay_all k w1 dir (Some cb) tw u = (w2, u',
      \<lparr>records_replayed = of_nat (length (filter (in_window tw) (accepted es))), header_record_count = h,
       completed = True, file_error = False, callback_error = False, count_mismatch = False\<rparr>)
    \<and> (window_empty tw \<longrightarrow> h = of_nat (length (accepted es)))"
proof -
  note f = assms(14) [folded replayed_def]
  have "n = length (filter (in_window tw) (accepted es))" using feed_all [OF f] by (simp add: replayed_def)
  then show ?thesis
    using replay_session_files [OF session_leaves_files [OF assms(1-6) wrun_srun [OF assms(7)] assms(8-10)] assms(11-13) f] by simp
qed

text \<open>(C37) Isolation: whatever fails, a session changes no file but the hour files of its own record kind
  in its data directory, so trade and order book writers can share a directory.
\<close>
theorem writer_touches_own_files_only:
  assumes "open_writer w s dir cap = (w0, s0, Opened)" and "writer_idle s" and "wrun k (w0, s0) es (w1, s1)"
  shows "\<forall>d n. \<not> (d = dir \<and> n \<in> hour_names k) \<longrightarrow> get_node w1 d n = get_node w d n"
  using wrun_frame [OF assms(3)] open_writer_opened [OF assms(1,2)] by (simp add: frame_def own_stream_def)

text \<open>(C36) A damaged record stops a replay. If the hour files of a directory hold valid records up to a
  record with a wrong checksum, a callback that never throws sees exactly the valid records of
  the window in front of it, and the replay reports a file error and is not complete.
\<close>
theorem replay_stops_at_corruption:
  assumes "no_faults w" and "window_valid tw"
    and "list_record_files (w_dirs w dir) (rec_file_prefix k) tw = names" and "names \<noteq> []"
    and "list_all2 (\<lambda>n (h, b). get_file w dir n = Some (header_bytes h @ b) \<and> header_matches k h) names hbs"
    and "concat (map (records_in k \<circ> snd) hbs) = good @ bad # rest"
    and "list_all (valid_rec k) good" and "\<not> record_crc_ok k bad"
    and "feed cb u (filter (in_window tw) good) = (u', n, False)"
  shows "\<exists>w' r. replay_all k w dir (Some cb) tw u = (w', u', r) \<and> file_error r \<and> \<not> completed r
    \<and> \<not> callback_error r \<and> records_replayed r = of_nat (length (filter (in_window tw) good))"
proof -
  have "deliver k tw (concat (map (records_in k \<circ> snd) hbs)) = (filter (in_window tw) good, True)"
    using deliver_corrupt [OF assms(7,8), of tw rest] assms(6) by (simp add: in_window_def [abs_def])
  from replay_all_ok [OF assms(1-5) this assms(9)] feed_all [OF assms(9)] show ?thesis
    by (auto simp: Let_def)
qed

text \<open>One bad file disables the whole directory: when any listed hour file is shorter than a header
  or has a wrong one, the replay of the directory fails before the first record.
\<close>
theorem bad_header_fails_replay:
  assumes "window_valid tw" and "n \<in> set (list_record_files (w_dirs w dir) (rec_file_prefix k) tw)"
    and "get_file w dir n = Some c"
    and "length c < header_size \<or> \<not> header_matches k (header_of_bytes (take header_size c))"
  shows "\<exists>w'. replay_all k w dir (Some cb) tw u = (w', u, new_result\<lparr>file_error := True\<rparr>)"
proof -
  let ?names = "list_record_files (w_dirs w dir) (rec_file_prefix k) tw"
  obtain w1 t where p: "probe_files k w dir ?names 0 = (w1, t, False)"
    using probe_files_bad [OF assms(2-4)] by blast
  have "?names \<noteq> []" using assms(2) by auto
  then show ?thesis using assms(1) p by (simp add: replay_all_def reader_open_def Let_def)
qed

section \<open>Witnesses\<close>

text \<open>One trade written, closed and replayed by a callback that collects what it is given.\<close>

lemma feed_collect: "feed (\<lambda>rs r. (rs @ [r], False)) acc rs = (acc @ rs, length rs, False)"
  by (induction rs arbitrary: acc) auto

lemma empty_world_facts:
  "no_faults (empty_world (\<lambda>_ _. None))" "distinct_names (empty_world flt) d" "get_node (empty_world flt) d n = None"
  by (simp_all add: empty_world_def no_faults_def distinct_names_def get_node_def)

lemma sample_ts: "rec_recv_ts_us (trade_bytes sample_trade) = 1700000000000000"
  by (simp add: sample_trade_def zero_trade_def trade_bytes_def rec_recv_ts_us_def slice_def)

theorem write_then_replay_witness:
  "\<exists>w0 s0 es w1 s1 w2 h. open_writer (empty_world (\<lambda>_ _. None)) new_writer ''data'' 4 = (w0, s0, Opened)
     \<and> wrun TradeRecord (w0, s0) es (w1, s1) \<and> accepted es = [trade_bytes sample_trade]
     \<and> replay_all TradeRecord w1 ''data'' (Some (\<lambda>rs r. (rs @ [r], False))) no_window []
         = (w2, [stamp_record_crc TradeRecord (trade_bytes sample_trade)],
            \<lparr>records_replayed = 1, header_record_count = h, completed = True, file_error = False,
             callback_error = False, count_mismatch = False\<rparr>)"
proof -
  obtain w0 s0 where o: "open_writer (empty_world (\<lambda>_ _. None)) new_writer ''data'' 4 = (w0, s0, Opened)"
    using empty_open by blast
  obtain es w1 s1 where r: "wrun TradeRecord (w0, s0) es (w1, s1)" "accepted es = [trade_bytes sample_trade]"
    "writer_idle s1" by (rule one_record_session [OF o new_writer_idle]) simp_all
  have all: "filter (in_window no_window) (accepted es) = [trade_bytes sample_trade]"
    using r(2) by (simp add: in_window_def window_contains_def no_window_def)
  let ?cb = "\<lambda>rs r. (rs @ [r], False)"
  have "\<exists>w2 h. replay_all TradeRecord w1 ''data'' (Some ?cb) no_window []
      = (w2, [stamp_record_crc TradeRecord (trade_bytes sample_trade)],
       \<lparr>records_replayed = of_nat (length (filter (in_window no_window) (accepted es))), header_record_count = h,
       completed = True, file_error = False, callback_error = False, count_mismatch = False\<rparr>)
    \<and> (window_empty no_window \<longrightarrow> h = of_nat (length (accepted es)))"
    by (rule write_then_replay [OF o new_writer_idle _ empty_world_facts(1,2) _ r(1)])
      (use r sample_good sample_ts all in
        \<open>simp_all add: empty_world_facts writer_idle_def window_valid_def no_window_def feed_collect\<close>)
  then show ?thesis using o r all by fastforce
qed

theorem writer_touches_own_files_only_witness:
  "\<exists>w0 s0 es w1 s1. open_writer (torn_world (\<lambda>_ _. None)) new_writer ''other'' 4 = (w0, s0, Opened)
     \<and> wrun TradeRecord (w0, s0) es (w1, s1) \<and> accepted es = [trade_bytes sample_trade]
     \<and> get_node w1 ''data'' ''t.bin'' = get_node (torn_world (\<lambda>_ _. None)) ''data'' ''t.bin''"
proof -
  obtain w0 s0 where o: "open_writer (torn_world (\<lambda>_ _. None)) new_writer ''other'' 4 = (w0, s0, Opened)"
    by (simp add: open_writer_def new_writer_def create_directories_def torn_world_def io_fault_def Let_def)
  obtain es w1 s1 where r: "wrun TradeRecord (w0, s0) es (w1, s1)" "accepted es = [trade_bytes sample_trade]"
    by (rule one_record_session [OF o new_writer_idle]) simp_all
  have "get_node w1 ''data'' ''t.bin'' = get_node (torn_world (\<lambda>_ _. None)) ''data'' ''t.bin''"
    using writer_touches_own_files_only [OF o new_writer_idle r(1)] by simp
  with o r show ?thesis by blast
qed

text \<open>An hour file with a valid record followed by one whose checksum field is wrong.\<close>

definition bad_trade :: "byte list" where
  "bad_trade = set_rec_crc TradeRecord 1 (trade_bytes zero_trade)"

definition hour_world :: "byte list \<Rightarrow> world" where
  "hour_world c = \<lparr>w_dirs = [''data'' \<mapsto> [(''trades_20260728_15.bin'', Regular c)]], w_fault = \<lambda>_ _. None,
     w_tick = 0, w_clock = \<lambda>_. 0, w_reading = 0\<rparr>"

lemma bad_trade_crc: "\<not> record_crc_ok TradeRecord bad_trade" "length bad_trade = rec_size TradeRecord"
proof -
  have l: "length (trade_bytes zero_trade) = rec_size TradeRecord" by simp
  show "\<not> record_crc_ok TradeRecord bad_trade" "length bad_trade = rec_size TradeRecord"
    unfolding bad_trade_def record_crc_ok_def
    by (simp_all only: fmt.crc_set [OF l] fmt.compute_set [OF l] crc_zero_trade fmt.length_set [OF l]) simp_all
qed

lemma no_window_valid: "window_valid no_window"
  by (simp add: window_valid_def no_window_def)

lemma hour_world_facts:
  "no_faults (hour_world c)"
  "list_record_files (w_dirs (hour_world c) ''data'') (rec_file_prefix TradeRecord) no_window = [''trades_20260728_15.bin'']"
  "get_file (hour_world c) ''data'' ''trades_20260728_15.bin'' = Some c"
  by (simp_all add: hour_world_def no_faults_def list_record_files_def get_file_def get_node_def
      hourly_file_in_window_def is_hourly_file_name_def no_window_def is_digit_def)

theorem replay_stops_at_corruption_witness:
  "\<exists>w' r. replay_all TradeRecord (hour_world (header_bytes (default_header TradeRecord)
       @ stamp_record_crc TradeRecord (trade_bytes zero_trade) @ bad_trade)) ''data''
       (Some (\<lambda>rs r. (rs @ [r], False))) no_window []
     = (w', [stamp_record_crc TradeRecord (trade_bytes zero_trade)], r) \<and> file_error r \<and> records_replayed r = 1"
proof -
  let ?g = "stamp_record_crc TradeRecord (trade_bytes zero_trade)"
  let ?w = "hour_world (header_bytes (default_header TradeRecord) @ ?g @ bad_trade)"
  have l: "length ?g = rec_size TradeRecord" by (simp add: fmt.length_stamp del: rec_size.simps)
  have rin: "records_in TradeRecord (?g @ bad_trade) = [?g, bad_trade]"
    using records_in_concat [of TradeRecord "[?g, bad_trade]" "[]"] l bad_trade_crc(2) by simp
  have v: "list_all (valid_rec TradeRecord) [?g]" by simp
  have win: "filter (in_window no_window) [?g] = [?g]" by (simp add: in_window_def window_contains_def no_window_def)
  have "\<exists>w' r. replay_all TradeRecord ?w ''data'' (Some (\<lambda>rs r. (rs @ [r], False))) no_window []
      = (w', [?g], r) \<and> file_error r \<and> \<not> completed r
    \<and> \<not> callback_error r \<and> records_replayed r = of_nat (length (filter (in_window no_window) [?g]))"
    by (rule replay_stops_at_corruption [OF hour_world_facts(1) _ hour_world_facts(2) _ _ _ v bad_trade_crc(1),
          of _ "[(default_header TradeRecord, ?g @ bad_trade)]" "[]"])
      (use hour_world_facts(3) rin win in \<open>simp_all add: no_window_valid feed_collect del: default_header.simps\<close>)
  then show ?thesis using win by fastforce
qed

theorem bad_header_fails_replay_witness:
  "\<exists>w'. replay_all TradeRecord (hour_world [1, 2, 3]) ''data'' (Some (\<lambda>rs r. (rs @ [r], False))) no_window []
     = (w', [], new_result\<lparr>file_error := True\<rparr>)"
  by (rule bad_header_fails_replay [OF _ _ hour_world_facts(3)])
    (simp_all add: hour_world_facts(2) no_window_valid del: rec_file_prefix.simps)

end
