(* ===== verification/Ring_Buffer.thy ===== *)
theory Ring_Buffer
  imports MDS_Prelude
begin

text \<open>
  The fixed-capacity buffer \<^verbatim>\<open>RingBuffer\<close> of \<^verbatim>\<open>src/cache/ring_buffer.h\<close>, which keeps
  the last pushed items. Its contract is the locale \<open>recent_buffer\<close>: the contents after a push
  are the last items of the old contents followed by the new one, and a snapshot is their end.
  The buffer is an interpretation of the contract. Every operation holds the mutex, so a
  concurrent execution is a sequence of these operations.
\<close>

section \<open>The contract\<close>

definition last_n :: "nat \<Rightarrow> 'a list \<Rightarrow> 'a list" where
  "last_n k xs = drop (length xs - k) xs"

lemma length_last_n [simp]: "length (last_n k xs) = min k (length xs)"
  by (simp add: last_n_def min_def)

lemma last_n_rev: "last_n k xs = rev (take k (rev xs))"
  by (simp add: last_n_def take_rev)

lemma last_n_last_n: "last_n j (last_n k xs) = last_n (min j k) xs"
  by (simp add: last_n_rev)

lemma last_n_append_last_n: "last_n k (last_n k xs @ ys) = last_n k (xs @ ys)"
  by (simp add: last_n_rev min_def)

lemma last_n_all: "length xs \<le> k \<Longrightarrow> last_n k xs = xs"
  by (simp add: last_n_def)

locale recent_buffer =
  fixes invar :: "'b \<Rightarrow> bool"
    and cap :: "'b \<Rightarrow> nat"
    and contents :: "'b \<Rightarrow> 'a list"
    and push :: "'a \<Rightarrow> 'b \<Rightarrow> 'b"
    and size_of :: "'b \<Rightarrow> nat"
    and snap :: "'b \<Rightarrow> nat \<Rightarrow> 'a list"
  assumes invar_push: "invar b \<Longrightarrow> invar (push x b)"
    and cap_push: "cap (push x b) = cap b"
    and contents_push: "invar b \<Longrightarrow> contents (push x b) = last_n (cap b) (contents b @ [x])"
    and size_contents: "invar b \<Longrightarrow> size_of b = length (contents b)"
    and snap_contents: "invar b \<Longrightarrow> snap b k = last_n k (contents b)"
begin

lemma invar_pushes: "invar b \<Longrightarrow> invar (fold push xs b)"
  by (induction xs arbitrary: b) (simp_all add: invar_push)

lemma cap_pushes: "cap (fold push xs b) = cap b"
  by (induction xs arbitrary: b) (simp_all add: cap_push)

lemma contents_pushes:
  assumes "invar b" and "length (contents b) \<le> cap b"
  shows "contents (fold push xs b) = last_n (cap b) (contents b @ xs)"
  using assms
proof (induction xs arbitrary: b)
  case Nil
  then show ?case by (simp add: last_n_all)
next
  case (Cons x xs)
  have "contents (fold push xs (push x b)) = last_n (cap b) (last_n (cap b) (contents b @ [x]) @ xs)"
    using Cons.IH [of "push x b"] Cons.prems by (simp add: invar_push cap_push contents_push)
  then show ?case by (simp add: last_n_append_last_n)
qed

lemma snapshot_pushes:
  "invar b \<Longrightarrow> contents b = [] \<Longrightarrow> snap (fold push xs b) k = last_n (min k (cap b)) xs"
  by (simp add: snap_contents invar_pushes contents_pushes last_n_last_n)

lemma size_pushes:
  "invar b \<Longrightarrow> contents b = [] \<Longrightarrow> size_of (fold push xs b) = min (cap b) (length xs)"
  by (simp add: size_contents invar_pushes contents_pushes)

end

section \<open>The ring buffer\<close>

datatype ring_error = InvalidArgument

record 'a ring =
  rb_cap :: nat
  rb_buffer :: "'a list"
  rb_head :: nat
  rb_count :: nat

text \<open>The constructor; the vector holds \<open>cap\<close> default values.\<close>

definition validate_capacity :: "nat \<Rightarrow> ring_error + nat" where
  "validate_capacity capacity = (if capacity = 0 then Inl InvalidArgument else Inr capacity)"

definition ring_new :: "'a \<Rightarrow> nat \<Rightarrow> ring_error + 'a ring" where
  "ring_new dflt capacity =
     (case validate_capacity capacity of
        Inl e \<Rightarrow> Inl e
      | Inr c \<Rightarrow> Inr \<lparr>rb_cap = c, rb_buffer = replicate c dflt, rb_head = 0, rb_count = 0\<rparr>)"

definition ring_push :: "'a \<Rightarrow> 'a ring \<Rightarrow> 'a ring" where
  "ring_push item b =
     (let b1 = b\<lparr>rb_buffer := (rb_buffer b)[rb_head b := item], rb_head := (rb_head b + 1) mod rb_cap b\<rparr>
      in if rb_count b1 < rb_cap b1 then b1\<lparr>rb_count := rb_count b1 + 1\<rparr> else b1)"

definition ring_size :: "'a ring \<Rightarrow> nat" where
  "ring_size b = rb_count b"

definition ring_capacity :: "'a ring \<Rightarrow> nat" where
  "ring_capacity b = rb_cap b"

definition ring_snapshot :: "'a ring \<Rightarrow> nat \<Rightarrow> 'a list" where
  "ring_snapshot b max_count =
     (let n = min max_count (rb_count b);
          start = (rb_head b + rb_cap b - n) mod rb_cap b
      in map (\<lambda>i. rb_buffer b ! ((start + i) mod rb_cap b)) [0..<n])"

section \<open>Correctness\<close>

definition ring_invar :: "'a ring \<Rightarrow> bool" where
  "ring_invar b \<longleftrightarrow> 0 < rb_cap b \<and> length (rb_buffer b) = rb_cap b \<and> rb_head b < rb_cap b \<and> rb_count b \<le> rb_cap b"

text \<open>The \<open>j\<close>-th newest item.\<close>

definition newest :: "'a ring \<Rightarrow> nat \<Rightarrow> 'a" where
  "newest b j = rb_buffer b ! ((rb_head b + rb_cap b - 1 - j) mod rb_cap b)"

definition ring_contents :: "'a ring \<Rightarrow> 'a list" where
  "ring_contents b = rev (map (newest b) [0..<rb_count b])"

lemma newest_push:
  assumes "ring_invar b" and "j < rb_cap b"
  shows "newest (ring_push x b) j = (if j = 0 then x else newest b (j - 1))"
proof -
  let ?c = "rb_cap b" and ?h = "rb_head b"
  have i: "0 < ?c" "length (rb_buffer b) = ?c" "?h < ?c" using assms(1) by (simp_all add: ring_invar_def)
  have f: "rb_cap (ring_push x b) = ?c" "rb_head (ring_push x b) = (?h + 1) mod ?c"
    "rb_buffer (ring_push x b) = (rb_buffer b)[?h := x]"
    by (simp_all add: ring_push_def Let_def)
  have idx: "((?h + 1) mod ?c + ?c - 1 - j) mod ?c = (if j = 0 then ?h else (?h + ?c - 1 - (j - 1)) mod ?c)"
  proof (cases "?h + 1 = ?c")
    case True
    then have "?h + ?c - 1 - (j - 1) = (?c - 1 - j) + ?c" if "j \<noteq> 0" using that assms(2) by linarith
    moreover have "((?c - 1 - j) + ?c) mod ?c = ?c - 1 - j" using i by (subst mod_add_self2) simp
    ultimately have "(?h + ?c - 1 - (j - 1)) mod ?c = ?c - 1 - j" if "j \<noteq> 0" using that by metis
    moreover have "((?h + 1) mod ?c + ?c - 1 - j) mod ?c = ?c - 1 - j" using True i by simp
    moreover have "?c - 1 = ?h" using True by simp
    ultimately show ?thesis by simp
  next
    case False
    then have "(?h + 1) mod ?c = ?h + 1" using i by simp
    then show ?thesis using i assms(2) by (cases j) auto
  qed
  have "(?h + ?c - 1 - (j - 1)) mod ?c \<noteq> ?h" if "j \<noteq> 0"
  proof (cases "j \<le> ?h")
    case True
    then have "?h + ?c - 1 - (j - 1) = (?h - j) + ?c" using that i by linarith
    moreover have "((?h - j) + ?c) mod ?c = ?h - j" using i by (subst mod_add_self2) simp
    ultimately have "(?h + ?c - 1 - (j - 1)) mod ?c = ?h - j" by metis
    then show ?thesis using that True by linarith
  next
    case False
    then have "?h + ?c - 1 - (j - 1) < ?c" "?h + ?c - 1 - (j - 1) \<noteq> ?h" using that i assms(2) by linarith+
    then show ?thesis by simp
  qed
  then have "(rb_buffer b)[?h := x] ! ((?h + ?c - 1 - (j - 1)) mod ?c) = rb_buffer b ! ((?h + ?c - 1 - (j - 1)) mod ?c)"
    if "j \<noteq> 0" using that by (metis nth_list_update_neq)
  then show ?thesis using i unfolding newest_def f idx by simp
qed

lemma ring_invar_push: "ring_invar b \<Longrightarrow> ring_invar (ring_push x b)"
  by (auto simp: ring_invar_def ring_push_def Let_def)

lemma ring_contents_push:
  assumes "ring_invar b"
  shows "ring_contents (ring_push x b) = last_n (rb_cap b) (ring_contents b @ [x])"
proof -
  define m where "m = min (rb_cap b) (Suc (rb_count b))"
  have i: "0 < rb_cap b" "rb_count b \<le> rb_cap b" using assms by (simp_all add: ring_invar_def)
  have c: "rb_count (ring_push x b) = m"
    using i by (auto simp: ring_push_def Let_def m_def)
  have u: "[0..<m] = 0 # map Suc [0..<m - 1]"
    using i by (cases m) (simp_all add: m_def upt_conv_Cons map_Suc_upt min_def split: if_splits)
  have "map (newest (ring_push x b)) [0..<m] = x # map (newest b) [0..<m - 1]"
    unfolding u using i newest_push [OF assms] by (auto simp: m_def)
  also have "\<dots> = take (rb_cap b) (x # map (newest b) [0..<rb_count b])"
    using i by (cases "rb_cap b") (auto simp: m_def take_map min_def)
  finally show ?thesis by (simp add: ring_contents_def c last_n_rev)
qed

lemma ring_snapshot_contents:
  assumes "ring_invar b"
  shows "ring_snapshot b k = last_n k (ring_contents b)"
proof (rule nth_equalityI)
  have i: "0 < rb_cap b" "rb_count b \<le> rb_cap b" using assms by (simp_all add: ring_invar_def)
  define n where "n = min k (rb_count b)"
  show "length (ring_snapshot b k) = length (last_n k (ring_contents b))"
    by (simp add: ring_snapshot_def ring_contents_def Let_def)
  fix j
  assume "j < length (ring_snapshot b k)"
  then have j: "j < n" by (simp add: ring_snapshot_def Let_def n_def)
  have "last_n k (ring_contents b) ! j = newest b (n - 1 - j)"
    using j by (auto simp: last_n_rev ring_contents_def rev_nth n_def take_map min_def)
  moreover have "ring_snapshot b k ! j = rb_buffer b ! ((rb_head b + rb_cap b - n + j) mod rb_cap b)"
    using j by (simp add: ring_snapshot_def Let_def n_def mod_add_left_eq)
  moreover have "rb_head b + rb_cap b - n + j = rb_head b + rb_cap b - 1 - (n - 1 - j)"
    using j i by (auto simp: n_def)
  ultimately show "ring_snapshot b k ! j = last_n k (ring_contents b) ! j" by (simp add: newest_def)
qed

interpretation rb: recent_buffer ring_invar rb_cap ring_contents ring_push ring_size ring_snapshot
proof
  show "rb_cap (ring_push x b) = rb_cap b" for x and b :: "'c ring"
    by (simp add: ring_push_def Let_def)
  show "ring_size b = length (ring_contents b)" for b :: "'c ring"
    by (simp add: ring_size_def ring_contents_def)
qed (simp_all add: ring_invar_push ring_contents_push ring_snapshot_contents)

section \<open>Properties\<close>

text \<open>(C22) The ring buffer keeps the most recent items. A buffer of positive capacity, after any sequence of
  pushes, returns in \<open>snapshot(k)\<close> the last \<open>min k cap\<close> pushed items from oldest to newest, or
  all of them when fewer were pushed, and its size is the number of items kept; capacity 0 is
  refused with \<open>invalid_argument\<close>.
\<close>
theorem ring_keeps_most_recent:
  "(\<forall>b. ring_new dflt c = Inr b \<longrightarrow>
      ring_snapshot (fold ring_push xs b) k = last_n (min k c) xs
      \<and> ring_size (fold ring_push xs b) = min c (length xs) \<and> ring_capacity (fold ring_push xs b) = c)
   \<and> (ring_new dflt c = Inl InvalidArgument \<longleftrightarrow> c = 0)"
proof -
  have "ring_snapshot (fold ring_push xs b) k = last_n (min k c) xs
      \<and> ring_size (fold ring_push xs b) = min c (length xs) \<and> ring_capacity (fold ring_push xs b) = c"
    if "ring_new dflt c = Inr b" for b
  proof -
    have b: "ring_invar b" "ring_contents b = []" "rb_cap b = c"
      using that by (auto simp: ring_new_def validate_capacity_def ring_invar_def ring_contents_def split: if_splits)
    then show ?thesis
      using rb.snapshot_pushes [OF b(1,2)] rb.size_pushes [OF b(1,2)] rb.cap_pushes [of xs b]
      by (simp add: ring_capacity_def)
  qed
  then show ?thesis by (auto simp: ring_new_def validate_capacity_def)
qed

theorem ring_keeps_most_recent_witness:
  "\<exists>b. ring_new (0::nat) 3 = Inr b \<and> ring_snapshot (fold ring_push [1, 2, 3, 4, 5] b) 2 = [4, 5]"
proof -
  obtain b where b: "ring_new (0::nat) 3 = Inr b" by (simp add: ring_new_def validate_capacity_def)
  then have "ring_snapshot (fold ring_push [1, 2, 3, 4, 5] b) 2 = last_n (min 2 3) [1, 2, 3, 4, 5]"
    using ring_keeps_most_recent [of 0 3 "[1, 2, 3, 4, 5]" 2] by blast
  with b show ?thesis by (simp add: last_n_def)
qed

end
