(* ===== verification/Latency_Histogram.thy ===== *)
theory Latency_Histogram
  imports MDS_Prelude "HOL-Library.Multiset"
begin

text \<open>
  The exponential histogram \<^verbatim>\<open>LatencyHistogram\<close> of
  \<^verbatim>\<open>src/monitor/latency_histogram.h\<close>. Counters are 64-bit words. Each \<open>record\<close> is an
  increment of one bucket and an atomic maximum, so the histogram after concurrent records is
  the one after some sequence of them. The reference is the sorted list of the samples.
\<close>

section \<open>The histogram\<close>

abbreviation kBuckets :: nat where "kBuckets \<equiv> 64"

record histogram =
  buckets :: "u64 list"
  max_us :: u64

record hist_snapshot =
  snap_count :: u64
  p50_us :: u64
  p95_us :: u64
  p99_us :: u64
  p999_us :: u64
  snap_max_us :: u64

definition new_histogram :: histogram where
  "new_histogram = \<lparr>buckets = replicate kBuckets 0, max_us = 0\<rparr>"

text \<open>\<^verbatim>\<open>__builtin_clzll\<close>: the number of leading zeros of a 64-bit number.\<close>

primrec lead_zeros :: "nat \<Rightarrow> nat \<Rightarrow> nat" where
  "lead_zeros 0 v = 0"
| "lead_zeros (Suc n) v = (if v < 2 ^ n then Suc (lead_zeros n v) else 0)"

definition clzll :: "u64 \<Rightarrow> nat" where
  "clzll x = lead_zeros 64 (unat x)"

definition bucket_index :: "u64 \<Rightarrow> nat" where
  "bucket_index lat = (if lat = 0 then 0 else 63 - clzll lat)"

definition hist_record :: "histogram \<Rightarrow> u64 \<Rightarrow> histogram" where
  "hist_record h lat =
     (let idx = bucket_index lat;
          h1 = h\<lparr>buckets := (buckets h)[idx := buckets h ! idx + 1]\<rparr>
      in if lat > max_us h1 then h1\<lparr>max_us := lat\<rparr> else h1)"

text \<open>The loop over the buckets, from bucket \<open>i\<close> on.\<close>

fun percentile_loop :: "u64 list \<Rightarrow> nat \<Rightarrow> u64 \<Rightarrow> u64 \<Rightarrow> u64" where
  "percentile_loop [] i cumulative target = 0"
| "percentile_loop (b # bs) i cumulative target =
     (let cumulative = cumulative + b
      in if cumulative \<ge> target then (if i \<ge> 63 then - 1 else push_bit (i + 1) 1)
         else percentile_loop bs (Suc i) cumulative target)"

definition percentile_target :: "u64 list \<Rightarrow> u64 \<Rightarrow> u64" where
  "percentile_target bs target = percentile_loop bs 0 0 target"

definition percentile :: "u64 list \<Rightarrow> u64 \<Rightarrow> u64 \<Rightarrow> u64" where
  "percentile bs tot percent = percentile_target bs ((tot * percent + 99) div 100)"

definition percentile_permille :: "u64 list \<Rightarrow> u64 \<Rightarrow> u64 \<Rightarrow> u64" where
  "percentile_permille bs tot permille = percentile_target bs ((tot * permille + 999) div 1000)"

definition snapshot_and_reset :: "histogram \<Rightarrow> histogram \<times> hist_snapshot" where
  "snapshot_and_reset h =
     (let local = buckets h;
          tot = sum_list local;
          h1 = \<lparr>buckets = replicate kBuckets 0, max_us = 0\<rparr>;
          s = \<lparr>snap_count = tot, p50_us = 0, p95_us = 0, p99_us = 0, p999_us = 0, snap_max_us = max_us h\<rparr>
      in if tot = 0 then (h1, s)
         else (h1, s\<lparr>p50_us := percentile local tot 50, p95_us := percentile local tot 95,
                     p99_us := percentile local tot 99, p999_us := percentile_permille local tot 999\<rparr>))"

section \<open>Buckets\<close>

lemma lead_zeros_bounds:
  "0 < v \<Longrightarrow> v < 2 ^ n \<Longrightarrow> lead_zeros n v < n \<and> 2 ^ (n - 1 - lead_zeros n v) \<le> v \<and> v < 2 ^ (n - lead_zeros n v)"
proof (induction n)
  case (Suc n)
  then show ?case by (cases "v < 2 ^ n") auto
qed simp

lemma bucket_bounds:
  assumes "x \<noteq> 0"
  shows "2 ^ bucket_index x \<le> unat x \<and> unat x < 2 ^ Suc (bucket_index x)"
proof -
  have "0 < unat x" "unat x < 2 ^ 64" using assms unsigned_less [of x, where ?'a = nat] by (simp_all add: unat_gt_0)
  from lead_zeros_bounds [OF this] have *: "clzll x < 64" "2 ^ (63 - clzll x) \<le> unat x" "unat x < 2 ^ (64 - clzll x)"
    by (simp_all add: clzll_def)
  have "64 - clzll x = Suc (63 - clzll x)" using *(1) by simp
  with * assms show ?thesis by (simp add: bucket_index_def)
qed

lemma bucket_index_less: "bucket_index x < kBuckets"
  unfolding bucket_index_def by (simp, arith)

lemma bucket_index_mono:
  assumes "unat x \<le> unat y"
  shows "bucket_index x \<le> bucket_index y"
proof (cases "x = 0")
  case False
  then have y: "y \<noteq> 0" using assms by (auto simp: unat_eq_0)
  have "(2::nat) ^ bucket_index x < 2 ^ Suc (bucket_index y)"
    using bucket_bounds [OF False] bucket_bounds [OF y] assms by linarith
  then have "bucket_index x < Suc (bucket_index y)" by (rule power_less_imp_less_exp [rotated]) simp
  then show ?thesis by simp
qed (simp add: bucket_index_def)

definition samples_upto :: "u64 list \<Rightarrow> nat \<Rightarrow> nat" where
  "samples_upto xs i = length (filter (\<lambda>x. bucket_index x \<le> i) xs)"

definition samples_at :: "u64 list \<Rightarrow> nat \<Rightarrow> nat" where
  "samples_at xs i = length (filter (\<lambda>x. bucket_index x = i) xs)"

definition recorded :: "u64 list \<Rightarrow> histogram" where
  "recorded xs = foldl hist_record new_histogram xs"

lemma recorded_snoc: "recorded (xs @ [x]) = hist_record (recorded xs) x"
  by (simp add: recorded_def)

lemma recorded_buckets: "buckets (recorded xs) = map (\<lambda>i. of_nat (samples_at xs i)) [0..<kBuckets]"
proof (induction xs rule: rev_induct)
  case Nil
  show ?case by (simp add: recorded_def new_histogram_def samples_at_def map_replicate_const)
next
  case (snoc x xs)
  let ?b = "buckets (recorded xs)"
  have b: "buckets (hist_record (recorded xs) x) = ?b[bucket_index x := ?b ! bucket_index x + 1]"
    by (simp add: hist_record_def Let_def)
  show ?case
  proof (rule nth_equalityI)
    fix i
    assume "i < length (buckets (recorded (xs @ [x])))"
    then have i: "i < kBuckets" using snoc by (simp add: recorded_snoc b)
    show "buckets (recorded (xs @ [x])) ! i = map (\<lambda>i. of_nat (samples_at (xs @ [x]) i)) [0..<kBuckets] ! i"
      using i snoc bucket_index_less [of x]
      by (cases "i = bucket_index x") (simp_all add: recorded_snoc b samples_at_def nth_list_update)
  qed (simp add: recorded_snoc b snoc)
qed

lemma recorded_max: "unat (max_us (recorded xs)) = fold max (map unat xs) 0"
proof (induction xs rule: rev_induct)
  case (snoc x xs)
  then show ?case
    by (auto simp: recorded_snoc hist_record_def Let_def word_less_nat_alt max_def)
qed (simp add: recorded_def new_histogram_def)

lemma samples_upto_Suc: "samples_upto xs (Suc i) = samples_upto xs i + samples_at xs (Suc i)"
  by (induction xs) (auto simp: samples_upto_def samples_at_def)

lemma samples_upto_0: "samples_upto xs 0 = samples_at xs 0"
  by (simp add: samples_upto_def samples_at_def)

lemma samples_upto_le: "samples_upto xs i \<le> length xs"
  by (simp add: samples_upto_def)

lemma samples_upto_all: "63 \<le> i \<Longrightarrow> samples_upto xs i = length xs"
proof -
  assume "63 \<le> i"
  then have "bucket_index x \<le> i" for x using bucket_index_less [of x] by linarith
  then show ?thesis by (simp add: samples_upto_def)
qed

lemma sum_samples: "(\<Sum>i\<leftarrow>[0..<Suc n]. samples_at xs i) = samples_upto xs n"
  by (induction n) (simp_all add: samples_upto_0 samples_upto_Suc)

text \<open>The value reported for bucket \<open>i\<close>.\<close>

definition bucket_top :: "nat \<Rightarrow> u64" where
  "bucket_top i = (if i \<ge> 63 then - 1 else push_bit (i + 1) 1)"

lemma percentile_loop_spec:
  assumes "target \<le> length xs" and "length xs < 2 ^ 64" and "i \<le> m" and "m < kBuckets"
    and "target \<le> samples_upto xs m" and "\<forall>j < m. samples_upto xs j < target"
    and "c = (if i = 0 then 0 else samples_upto xs (i - 1))"
  shows "percentile_loop (map (\<lambda>i. of_nat (samples_at xs i)) [i..<kBuckets]) i (of_nat c) (of_nat target) = bucket_top m"
  using assms(3,7)
proof (induction "m - i" arbitrary: i c)
  case 0
  then have "i = m" by simp
  have s: "c + samples_at xs m = samples_upto xs m"
    using 0 by (cases m) (simp_all add: samples_upto_0 samples_upto_Suc)
  have "(of_nat target :: u64) \<le> of_nat (samples_upto xs m)"
    using assms(1,2,5) samples_upto_le [of xs m]
    by (simp add: word_le_nat_alt unat_of_nat)
  then show ?case
    using \<open>i = m\<close> assms(4) s by (simp add: upt_conv_Cons bucket_top_def flip: of_nat_add)
next
  case (Suc d)
  then have lt: "i < m" by simp
  have s: "c + samples_at xs i = samples_upto xs i"
    using Suc(4) by (cases i) (simp_all add: samples_upto_0 samples_upto_Suc)
  have "\<not> (of_nat target :: u64) \<le> of_nat (samples_upto xs i)"
    using assms(1,2,6) lt samples_upto_le [of xs i]
    by (auto simp: word_le_nat_alt unat_of_nat not_le)
  moreover have "percentile_loop (map (\<lambda>i. of_nat (samples_at xs i)) [Suc i..<kBuckets]) (Suc i)
      (of_nat (samples_upto xs i)) (of_nat target) = bucket_top m"
    by (rule Suc(1)) (use Suc(2) lt in auto)
  ultimately show ?case
    using lt assms(4) s by (simp add: upt_conv_Cons flip: of_nat_add)
qed

text \<open>The bucket of the sample of a given rank.\<close>

lemma filter_sorted_prefix:
  assumes "sorted ys" and "\<And>a b. a \<le> b \<Longrightarrow> P b \<Longrightarrow> P a" and "r < length ys"
  shows "P (ys ! r) \<longleftrightarrow> r < length (filter P ys)"
  using assms
proof (induction ys arbitrary: r)
  case (Cons y ys)
  show ?case
  proof (cases "P y")
    case True
    then show ?thesis using Cons by (cases r) auto
  next
    case False
    then have "\<not> P z" if "z \<in> set (y # ys)" for z using Cons.prems(1,2) that by auto
    then have "filter P (y # ys) = []" "\<not> P ((y # ys) ! r)"
      using nth_mem [OF Cons.prems(3)] by (auto simp: filter_empty_conv)
    then show ?thesis by simp
  qed
qed simp

lemma rank_bucket:
  assumes "0 < target" and "target \<le> length xs"
  defines "v \<equiv> sort_key unat xs ! (target - 1)"
  shows "target \<le> samples_upto xs (bucket_index v)" and "\<forall>j < bucket_index v. samples_upto xs j < target"
proof -
  let ?ys = "sort_key unat xs"
  have p: "bucket_index (?ys ! (target - 1)) \<le> i \<longleftrightarrow> target - 1 < samples_upto xs i" for i
  proof -
    have "mset ?ys = mset xs" by simp
    then have "mset (filter (\<lambda>x. bucket_index x \<le> i) ?ys) = mset (filter (\<lambda>x. bucket_index x \<le> i) xs)" by simp
    then have len: "length (filter (\<lambda>x. bucket_index x \<le> i) ?ys) = samples_upto xs i"
      unfolding samples_upto_def by (metis size_mset)
    have srt: "sorted ?ys"
      using sorted_sort_key [of unat xs] by (auto simp: sorted_map word_le_nat_alt intro: sorted_wrt_mono_rel [rotated])
    have "bucket_index (?ys ! (target - 1)) \<le> i \<longleftrightarrow> target - 1 < length (filter (\<lambda>x. bucket_index x \<le> i) ?ys)"
      using assms(1,2) by (intro filter_sorted_prefix [OF srt])
        (auto simp: word_le_nat_alt dest: bucket_index_mono intro: le_trans)
    then show ?thesis by (simp only: len)
  qed
  show "target \<le> samples_upto xs (bucket_index v)" using p [of "bucket_index v"] assms(1) by (simp add: v_def)
  show "\<forall>j < bucket_index v. samples_upto xs j < target"
  proof (intro allI impI)
    fix j
    assume "j < bucket_index v"
    then have "\<not> target - 1 < samples_upto xs j" using p [of j] unfolding v_def by linarith
    then show "samples_upto xs j < target" using assms(1) by linarith
  qed
qed

lemma percentile_target_spec:
  assumes "0 < target" and "target \<le> length xs" and "length xs < 2 ^ 64"
  shows "percentile_target (buckets (recorded xs)) (of_nat target)
    = bucket_top (bucket_index (sort_key unat xs ! (target - 1)))"
proof -
  let ?m = "bucket_index (sort_key unat xs ! (target - 1))"
  show ?thesis
    unfolding percentile_target_def recorded_buckets
    using percentile_loop_spec [OF assms(2,3), of 0 ?m 0] rank_bucket [OF assms(1,2)] bucket_index_less
    by simp
qed

section \<open>Properties\<close>

text \<open>An estimate that is at least the value and at most twice the value (or 2 for a zero).\<close>

definition estimates :: "u64 \<Rightarrow> u64 \<Rightarrow> bool" where
  "estimates p v \<longleftrightarrow> unat v \<le> unat p \<and> unat p \<le> 2 * max 1 (unat v)"

lemma unat_push_bit_1: "n < 64 \<Longrightarrow> unat (push_bit n 1 :: u64) = 2 ^ n"
proof -
  assume "n < 64"
  then have "(2::nat) ^ n < 2 ^ 64" by (intro power_strict_increasing) simp_all
  moreover have "(push_bit n 1 :: u64) = of_nat (2 ^ n)" by (simp add: push_bit_eq_mult)
  ultimately show ?thesis by (simp only: unat_of_nat) simp
qed

lemma bucket_top_estimates: "estimates (bucket_top (bucket_index v)) v"
proof (cases "v = 0")
  case True
  have "unat (push_bit (Suc 0) 1 :: u64) = 2" by (simp add: push_bit_eq_mult)
  then show ?thesis using True by (simp add: estimates_def bucket_top_def bucket_index_def)
next
  case False
  note b = bucket_bounds [OF False]
  show ?thesis
  proof (cases "bucket_index v \<ge> 63")
    case True
    then have "bucket_index v = 63" using bucket_index_less [of v] by linarith
    then have "2 ^ 63 \<le> unat v" using b by simp
    moreover have "unat v < 2 ^ 64" using unsigned_less [of v, where ?'a = nat] by simp
    moreover have "unat (- 1 :: u64) = 2 ^ 64 - 1" by (simp add: unsigned_minus_1_eq_mask mask_eq_exp_minus_1)
    ultimately show ?thesis using True by (simp add: estimates_def bucket_top_def)
  next
    case lt: False
    then have "Suc (bucket_index v) < 64" by simp
    then have "unat (push_bit (Suc (bucket_index v)) 1 :: u64) = 2 ^ Suc (bucket_index v)"
      by (rule unat_push_bit_1)
    then show ?thesis using b lt by (simp add: estimates_def bucket_top_def max_def)
  qed
qed

lemma word_div_of_nat: "a < 2 ^ 64 \<Longrightarrow> b < 2 ^ 64 \<Longrightarrow> (of_nat a :: u64) div of_nat b = of_nat (a div b)"
  by (simp add: word_unat_eq_iff unat_div unat_of_nat) (metis div_le_dividend le_less_trans mod_less)

lemma rank_bounds:
  fixes n q b :: nat
  assumes "0 < n" and "n < 2 ^ 54" and "0 < q" and "q \<le> b" and "0 < b" and "b \<le> 1000"
  shows "(n * q + (b - 1)) div b \<le> n" "0 < (n * q + (b - 1)) div b" "n * q + (b - 1) < 2 ^ 64"
proof -
  have m: "n * q \<le> n * b" "0 < n * q" "n * b \<le> n * 1000" using assms by simp_all
  have "Suc n * b = n * b + b" by simp
  then have "n * q + (b - 1) < Suc n * b" using m(1) assms(5) by linarith
  then show "(n * q + (b - 1)) div b \<le> n" using less_mult_imp_div_less by (metis less_Suc_eq_le)
  have "b \<le> n * q + (b - 1)" using m(2) by linarith
  then show "0 < (n * q + (b - 1)) div b" using assms(5) by (simp add: div_greater_zero_iff)
  have "n * 1000 < 18446744073709550000" using assms(2) by simp
  then have "n * q + (b - 1) < 18446744073709551616" using m assms(6) by linarith
  then show "n * q + (b - 1) < 2 ^ 64" by simp
qed

lemma percentile_spec:
  assumes "xs \<noteq> []" and "length xs < 2 ^ 54" and "0 < q" and "q \<le> 100"
  shows "percentile (buckets (recorded xs)) (of_nat (length xs)) (of_nat q)
    = bucket_top (bucket_index (sort_key unat xs ! ((length xs * q + 99) div 100 - 1)))"
proof -
  let ?t = "(length xs * q + 99) div 100"
  have "0 < length xs" using assms(1) by simp
  from rank_bounds [OF this assms(2-4)] have le: "?t \<le> length xs" and pos: "0 < ?t" and big: "length xs * q + 99 < 2 ^ 64"
    by simp_all
  have "(of_nat (length xs) * of_nat q + 99 :: u64) div 100 = of_nat ?t"
    using word_div_of_nat [OF big, of 100] by simp
  then show ?thesis
    using percentile_target_spec [OF pos le] assms(2) by (simp add: percentile_def)
qed

lemma percentile_permille_spec:
  assumes "xs \<noteq> []" and "length xs < 2 ^ 54"
  shows "percentile_permille (buckets (recorded xs)) (of_nat (length xs)) 999
    = bucket_top (bucket_index (sort_key unat xs ! ((length xs * 999 + 999) div 1000 - 1)))"
proof -
  let ?t = "(length xs * 999 + 999) div 1000"
  have "0 < length xs" using assms(1) by simp
  from rank_bounds [OF this assms(2), of 999 1000]
  have le: "?t \<le> length xs" and pos: "0 < ?t" and big: "length xs * 999 + 999 < 2 ^ 64" by simp_all
  have "(of_nat (length xs) * 999 + 999 :: u64) div 1000 = of_nat ?t"
    using word_div_of_nat [OF big, of 1000] by simp
  then show ?thesis
    using percentile_target_spec [OF pos le] assms(2) by (simp add: percentile_permille_def)
qed

lemma recorded_total: "length xs < 2 ^ 64 \<Longrightarrow> sum_list (buckets (recorded xs)) = of_nat (length xs)"
proof -
  have "sum_list (map (\<lambda>i. of_nat (f i) :: u64) js) = of_nat (sum_list (map f js))" for f :: "nat \<Rightarrow> nat" and js
    by (induction js) simp_all
  then show ?thesis using sum_samples [of xs 63] by (simp add: recorded_buckets samples_upto_all)
qed

text \<open>(C21) Percentiles against the sorted samples. After any non-empty sequence of fewer than \<open>2\<^sup>5\<^sup>4\<close> records a
  snapshot counts them all, its maximum is their maximum, and each percentile it reports is an
  estimate of the sample of that rank (rounded up) in the sorted sequence: never below it and
  at most twice as large. The histogram is empty afterwards.
\<close>
theorem histogram_percentiles:
  assumes "xs \<noteq> []" and "length xs < 2 ^ 54" and "snapshot_and_reset (foldl hist_record new_histogram xs) = (h, s)"
  shows "h = new_histogram \<and> unat (snap_count s) = length xs \<and> unat (snap_max_us s) = Max (unat ` set xs)
    \<and> estimates (p50_us s) (sort_key unat xs ! ((length xs * 50 + 99) div 100 - 1))
    \<and> estimates (p95_us s) (sort_key unat xs ! ((length xs * 95 + 99) div 100 - 1))
    \<and> estimates (p99_us s) (sort_key unat xs ! ((length xs * 99 + 99) div 100 - 1))
    \<and> estimates (p999_us s) (sort_key unat xs ! ((length xs * 999 + 999) div 1000 - 1))"
proof -
  have tot: "sum_list (buckets (recorded xs)) = of_nat (length xs)" using recorded_total [of xs] assms(2) by simp
  have un: "unat (of_nat (length xs) :: u64) = length xs" using assms(2) by (simp add: unat_of_nat)
  then have nz: "(of_nat (length xs) :: u64) \<noteq> 0" using assms(1) by (metis length_0_conv unat_0)
  have mx: "unat (max_us (recorded xs)) = Max (unat ` set xs)"
    using assms(1) Max.set_eq_fold [of 0 "map unat xs"] by (simp add: recorded_max Max_insert)
  note q = percentile_spec [OF assms(1,2), of 50] percentile_spec [OF assms(1,2), of 95]
    percentile_spec [OF assms(1,2), of 99] percentile_permille_spec [OF assms(1,2)]
  have "h = new_histogram" "s = \<lparr>snap_count = of_nat (length xs),
      p50_us = percentile (buckets (recorded xs)) (of_nat (length xs)) 50,
      p95_us = percentile (buckets (recorded xs)) (of_nat (length xs)) 95,
      p99_us = percentile (buckets (recorded xs)) (of_nat (length xs)) 99,
      p999_us = percentile_permille (buckets (recorded xs)) (of_nat (length xs)) 999,
      snap_max_us = max_us (recorded xs)\<rparr>"
    using assms(3) [folded recorded_def] nz by (auto simp: snapshot_and_reset_def tot new_histogram_def Let_def)
  then show ?thesis using un mx q bucket_top_estimates by simp
qed

theorem histogram_percentiles_witness:
  "\<exists>h s. snapshot_and_reset (foldl hist_record new_histogram [3, 1000, 7]) = (h, s) \<and> unat (snap_count s) = 3
     \<and> unat (snap_max_us s) = 1000 \<and> estimates (p50_us s) 7"
proof -
  obtain h s where s: "snapshot_and_reset (foldl hist_record new_histogram [3, 1000, 7]) = (h, s)" by force
  have "sort_key unat [3, 1000, 7 :: u64] ! 1 = 7" by simp
  with histogram_percentiles [OF _ _ s] s show ?thesis by auto
qed

end
