(* ===== verification/Metrics.thy ===== *)
theory Metrics
  imports Latency_Histogram
begin

text \<open>
  The counters \<^verbatim>\<open>Metrics\<close> of \<^verbatim>\<open>src/monitor/metrics.h\<close>, and the updates that the message
  path and the reconnect loop make through \<^verbatim>\<open>update_atomic_max\<close> and
  \<^verbatim>\<open>record_segment_us\<close> of \<^verbatim>\<open>src/network/connection_manager.cpp\<close>. Counters are 64-bit
  words and wrap; the reported clock offset is a signed 64-bit value.
\<close>

section \<open>The counters\<close>

record metrics =
  msgs_recv :: u64
  connect_attempts :: u64
  connect_successes :: u64
  trades_parsed :: u64
  orderbooks_parsed :: u64
  parse_errors :: u64
  gap_count :: u64
  duplicate_count :: u64
  missing_records :: u64
  recovering_symbols :: u64
  orderbook_id_rollback_count :: u64
  callback_errors :: u64
  pipeline_over_500us :: u64
  pipeline_over_1000us :: u64
  connect_duration_samples :: u64
  connect_duration_ms_total :: u64
  connect_duration_ms_max :: u64
  clock_anomaly_count :: u64
  trade_enqueue_samples :: u64
  trade_enqueue_us_total :: u64
  trade_enqueue_us_max :: u64
  orderbook_enqueue_samples :: u64
  orderbook_enqueue_us_total :: u64
  orderbook_enqueue_us_max :: u64
  trade_latency :: histogram
  recv_to_app_latency :: histogram
  clock_offset_us :: i64
  clock_offset_ready :: u64
  clock_sync_ok :: u64
  clock_sync_fail :: u64
  clock_sync_rtt_us :: u64
  ext_latency_negative_drop :: u64
  pipeline_latency :: histogram
  json_parse_latency :: histogram
  biz_parse_latency :: histogram
  callback_latency :: histogram

definition new_metrics :: metrics where
  "new_metrics = \<lparr>msgs_recv = 0, connect_attempts = 0, connect_successes = 0, trades_parsed = 0,
     orderbooks_parsed = 0, parse_errors = 0, gap_count = 0, duplicate_count = 0, missing_records = 0,
     recovering_symbols = 0, orderbook_id_rollback_count = 0, callback_errors = 0,
     pipeline_over_500us = 0, pipeline_over_1000us = 0, connect_duration_samples = 0,
     connect_duration_ms_total = 0, connect_duration_ms_max = 0, clock_anomaly_count = 0,
     trade_enqueue_samples = 0, trade_enqueue_us_total = 0, trade_enqueue_us_max = 0,
     orderbook_enqueue_samples = 0, orderbook_enqueue_us_total = 0, orderbook_enqueue_us_max = 0,
     trade_latency = new_histogram, recv_to_app_latency = new_histogram, clock_offset_us = 0,
     clock_offset_ready = 0, clock_sync_ok = 0, clock_sync_fail = 0, clock_sync_rtt_us = 0,
     ext_latency_negative_drop = 0, pipeline_latency = new_histogram, json_parse_latency = new_histogram,
     biz_parse_latency = new_histogram, callback_latency = new_histogram\<rparr>"

section \<open>Clock differences\<close>

text \<open>
  \<^verbatim>\<open>duration_cast<microseconds>(b - a).count()\<close> of two steady clock readings in
  nanoseconds: a checked difference, divided with truncation towards zero.
\<close>

definition quot :: "int \<Rightarrow> int \<Rightarrow> int" where
  "quot d k = (if 0 \<le> d then d div k else - ((- d) div k))"

definition diff_in :: "int \<Rightarrow> int \<Rightarrow> int \<Rightarrow> int option" where
  "diff_in unit a b = map_option (\<lambda>d. quot d unit) (i64_sub b a)"

abbreviation diff_us :: "int \<Rightarrow> int \<Rightarrow> int option" where "diff_us \<equiv> diff_in 1000"
abbreviation diff_ms :: "int \<Rightarrow> int \<Rightarrow> int option" where "diff_ms \<equiv> diff_in 1000000"

definition count_anomaly :: "metrics \<Rightarrow> metrics" where
  "count_anomaly m = m\<lparr>clock_anomaly_count := clock_anomaly_count m + 1\<rparr>"

text \<open>\<^verbatim>\<open>record_segment_us\<close>; the histogram it is given is selected by its field update.\<close>

definition segment_sample ::
  "((histogram \<Rightarrow> histogram) \<Rightarrow> metrics \<Rightarrow> metrics) \<Rightarrow> int \<Rightarrow> metrics \<Rightarrow> metrics" where
  "segment_sample upd us m =
     (if us \<ge> 0 then upd (\<lambda>h. hist_record h (of_int us)) m else count_anomaly m)"

definition record_segment_us ::
  "((histogram \<Rightarrow> histogram) \<Rightarrow> metrics \<Rightarrow> metrics) \<Rightarrow> int \<Rightarrow> int \<Rightarrow> metrics \<Rightarrow> metrics option" where
  "record_segment_us upd a b m = (case diff_us a b of None \<Rightarrow> None | Some us \<Rightarrow> Some (segment_sample upd us m))"

text \<open>The destructor of \<^verbatim>\<open>PipelineLatencyRecorder\<close>, with all counters attached.\<close>

definition pipeline_sample :: "int \<Rightarrow> metrics \<Rightarrow> metrics" where
  "pipeline_sample us m =
     (if us \<ge> 0 then
       (let v = of_int us :: u64;
            m1 = m\<lparr>pipeline_latency := hist_record (pipeline_latency m) v\<rparr>;
            m2 = (if v > 500 then m1\<lparr>pipeline_over_500us := pipeline_over_500us m1 + 1\<rparr> else m1)
        in if v > 1000 then m2\<lparr>pipeline_over_1000us := pipeline_over_1000us m2 + 1\<rparr> else m2)
     else count_anomaly m)"

definition record_pipeline :: "int \<Rightarrow> int \<Rightarrow> metrics \<Rightarrow> metrics option" where
  "record_pipeline start finish m =
     (case diff_us start finish of None \<Rightarrow> None | Some us \<Rightarrow> Some (pipeline_sample us m))"

definition update_atomic_max :: "u64 \<Rightarrow> u64 \<Rightarrow> u64" where
  "update_atomic_max target value = (if value > target then value else target)"

section \<open>What clock updates leave alone\<close>

text \<open>The counters that account for messages, which no latency update changes.\<close>

definition message_counts :: "metrics \<Rightarrow> u64 list" where
  "message_counts m = [msgs_recv m, trades_parsed m, orderbooks_parsed m, parse_errors m, gap_count m,
     duplicate_count m, missing_records m, recovering_symbols m, orderbook_id_rollback_count m,
     callback_errors m]"

lemma count_anomaly_counts [simp]: "message_counts (count_anomaly m) = message_counts m"
  by (simp add: message_counts_def count_anomaly_def)

lemma pipeline_sample_counts [simp]: "message_counts (pipeline_sample us m) = message_counts m"
  unfolding pipeline_sample_def Let_def message_counts_def count_anomaly_def by simp

lemma record_pipeline_counts: "record_pipeline a b m = Some m' \<Longrightarrow> message_counts m' = message_counts m"
  by (auto simp: record_pipeline_def split: option.splits)

lemma record_segment_counts:
  assumes "record_segment_us upd a b m = Some m'"
    and "\<And>f. message_counts (upd f m) = message_counts m"
  shows "message_counts m' = message_counts m"
  using assms by (auto simp: record_segment_us_def segment_sample_def split: option.splits)

lemma latency_updates_counts [simp]:
  "message_counts (json_parse_latency_update f m) = message_counts m"
  "message_counts (biz_parse_latency_update f m) = message_counts m"
  "message_counts (callback_latency_update f m) = message_counts m"
  "message_counts (recv_to_app_latency_update f m) = message_counts m"
  "message_counts (trade_latency_update f m) = message_counts m"
  "message_counts (ext_latency_negative_drop_update g m) = message_counts m"
  by (simp_all add: message_counts_def)

end
