(* ===== verification/Trade_Seq_Gate.thy ===== *)
theory Trade_Seq_Gate
  imports MDS_Prelude
begin

text \<open>
  The trade id gate of one symbol, \<^verbatim>\<open>TradeSeqGate\<close> of \<^verbatim>\<open>src/network/trade_seq_gate.h\<close>.
  Ids are \<open>int64_t\<close>; the sums and differences the code forms are checked, and \<^const>\<open>None\<close>
  is the undefined behaviour of a signed overflow.
\<close>

section \<open>The gate\<close>

datatype gate_state = Live | Recovering

datatype gate_action = Accept | Duplicate | Gap | Hold

record gate_result =
  action :: gate_action
  res_begin :: int
  res_end :: int

record gate =
  has_last :: bool
  last_id :: int
  missing_begin :: int
  missing_end :: int
  gstate :: gate_state

definition new_gate :: gate where
  "new_gate = \<lparr>has_last = False, last_id = 0, missing_begin = 0, missing_end = 0, gstate = Live\<rparr>"

definition gate_can_trade :: "gate \<Rightarrow> bool" where
  "gate_can_trade g \<longleftrightarrow> gstate g = Live"

definition missing_range :: "gate \<Rightarrow> (int \<times> int) option" where
  "missing_range g = (if gstate g \<noteq> Recovering then None else Some (missing_begin g, missing_end g))"

definition missing_count :: "gate_result \<Rightarrow> u64 option" where
  "missing_count r =
     (if action r \<noteq> Gap \<or> res_end r < res_begin r then Some 0
      else case i64_sub (res_end r) (res_begin r) of
          None \<Rightarrow> None
        | Some d \<Rightarrow> map_option of_int (i64_add d 1))"

abbreviation result_of :: "gate_action \<Rightarrow> gate_result" where
  "result_of a \<equiv> \<lparr>action = a, res_begin = 0, res_end = 0\<rparr>"

definition on_live_trade :: "gate \<Rightarrow> int \<Rightarrow> (gate \<times> gate_result) option" where
  "on_live_trade g trade_id =
     (if gstate g = Recovering
      then Some (g, \<lparr>action = Hold, res_begin = missing_begin g, res_end = missing_end g\<rparr>)
      else if \<not> has_last g then Some (g\<lparr>has_last := True, last_id := trade_id\<rparr>, result_of Accept)
      else case i64_add (last_id g) 1 of
          None \<Rightarrow> None
        | Some next \<Rightarrow>
            if trade_id = next then Some (g\<lparr>last_id := trade_id\<rparr>, result_of Accept)
            else if trade_id \<le> last_id g then Some (g, result_of Duplicate)
            else case i64_sub trade_id 1 of
                None \<Rightarrow> None
              | Some before \<Rightarrow>
                  let g1 = g\<lparr>gstate := Recovering, missing_begin := next, missing_end := before\<rparr>
                  in Some (g1, \<lparr>action = Gap, res_begin = missing_begin g1, res_end = missing_end g1\<rparr>))"

definition on_replay_trade :: "gate \<Rightarrow> int \<Rightarrow> (gate \<times> bool) option" where
  "on_replay_trade g trade_id =
     (if gstate g \<noteq> Recovering \<or> \<not> has_last g then Some (g, False)
      else case i64_add (last_id g) 1 of
          None \<Rightarrow> None
        | Some next \<Rightarrow>
            if trade_id \<noteq> next then Some (g, False)
            else
              let g1 = g\<lparr>last_id := trade_id\<rparr>
              in Some (if last_id g1 = missing_end g1
                       then g1\<lparr>gstate := Live, missing_begin := 0, missing_end := 0\<rparr> else g1, True))"

section \<open>Runs of a gate\<close>

datatype gate_event = LiveTrade int | ReplayTrade int

text \<open>The gate after some events, and the ids it let through.\<close>

fun gate_run :: "gate \<Rightarrow> gate_event list \<Rightarrow> (gate \<times> int list) option" where
  "gate_run g [] = Some (g, [])"
| "gate_run g (LiveTrade i # es) =
     (case on_live_trade g i of
        None \<Rightarrow> None
      | Some (g1, r) \<Rightarrow>
          map_option (\<lambda>(g2, ids). (g2, if action r = Accept then i # ids else ids)) (gate_run g1 es))"
| "gate_run g (ReplayTrade i # es) =
     (case on_replay_trade g i of
        None \<Rightarrow> None
      | Some (g1, ok) \<Rightarrow> map_option (\<lambda>(g2, ids). (g2, if ok then i # ids else ids)) (gate_run g1 es))"

definition gate_inv :: "gate \<Rightarrow> bool" where
  "gate_inv g \<longleftrightarrow> in_i64 (last_id g)
     \<and> (gstate g = Recovering \<longrightarrow> has_last g \<and> in_i64 (missing_end g) \<and> missing_begin g \<le> last_id g + 1
          \<and> last_id g < missing_end g)"

lemma new_gate_inv: "gate_inv new_gate"
  by (simp add: gate_inv_def new_gate_def in_i64_def)

lemma on_live_trade_inv:
  "on_live_trade g i = Some (g', r) \<Longrightarrow> gate_inv g \<Longrightarrow> in_i64 i \<Longrightarrow> gate_inv g'"
  by (auto simp: on_live_trade_def gate_inv_def i64_add_def i64_sub_def Let_def in_i64_def
      split: if_splits option.splits)

lemma on_replay_trade_inv:
  "on_replay_trade g i = Some (g', ok) \<Longrightarrow> gate_inv g \<Longrightarrow> in_i64 i \<Longrightarrow> gate_inv g'"
  by (auto simp: on_replay_trade_def gate_inv_def i64_add_def Let_def split: if_splits option.splits)

text \<open>An accepted id is the successor of the last one.\<close>

lemma on_live_trade_last:
  "on_live_trade g i = Some (g', r) \<Longrightarrow>
     (if action r = Accept then has_last g' \<and> last_id g' = i \<and> (has_last g \<longrightarrow> i = last_id g + 1)
      else has_last g' = has_last g \<and> last_id g' = last_id g)"
  by (auto simp: on_live_trade_def i64_add_def Let_def split: if_splits option.splits)

lemma on_replay_trade_last:
  "on_replay_trade g i = Some (g', ok) \<Longrightarrow>
     (if ok then has_last g \<and> has_last g' \<and> last_id g' = i \<and> i = last_id g + 1
      else g' = g)"
  by (auto simp: on_replay_trade_def i64_add_def Let_def split: if_splits option.splits)

definition consecutive :: "int \<Rightarrow> int list \<Rightarrow> bool" where
  "consecutive a ids \<longleftrightarrow> ids = map (\<lambda>j. a + int j) [0..<length ids]"

lemma consecutive_Nil [simp]: "consecutive a []"
  by (simp add: consecutive_def)

lemma consecutive_Cons: "consecutive a (i # ids) \<longleftrightarrow> i = a \<and> consecutive (a + 1) ids"
proof -
  have "map (\<lambda>j. a + int j) [0..<Suc n] = a # map (\<lambda>j. a + 1 + int j) [0..<n]" for n
    by (simp add: upt_conv_Cons map_Suc_upt [symmetric] o_def algebra_simps del: upt_Suc)
  then show ?thesis by (simp add: consecutive_def del: upt_Suc)
qed

lemma gate_run_consecutive:
  "gate_run g es = Some (g', ids) \<Longrightarrow> has_last g \<Longrightarrow>
     consecutive (last_id g + 1) ids \<and> has_last g' \<and> last_id g' = last_id g + int (length ids)"
proof (induction g es arbitrary: ids rule: gate_run.induct)
  case (2 g i es)
  then obtain g1 r ids1 where *: "on_live_trade g i = Some (g1, r)" "gate_run g1 es = Some (g', ids1)"
    "ids = (if action r = Accept then i # ids1 else ids1)"
    by (auto split: option.splits)
  note l = on_live_trade_last [OF *(1)]
  have "has_last g1" using l 2(3) by (auto split: if_splits)
  from 2(1) [OF *(1) refl *(2) this] l *(3) 2(3) show ?case by (auto simp: consecutive_Cons split: if_splits)
next
  case (3 g i es)
  then obtain g1 ok ids1 where *: "on_replay_trade g i = Some (g1, ok)" "gate_run g1 es = Some (g', ids1)"
    "ids = (if ok then i # ids1 else ids1)"
    by (auto split: option.splits)
  note l = on_replay_trade_last [OF *(1)]
  have "has_last g1" using l 3(3) by (auto split: if_splits)
  from 3(1) [OF *(1) refl *(2) this] l *(3) 3(3) show ?case by (auto simp: consecutive_Cons split: if_splits)
qed simp

lemma gate_run_first:
  "gate_run g es = Some (g', ids) \<Longrightarrow> \<not> has_last g \<Longrightarrow>
     ids = [] \<or> consecutive (hd ids) ids \<and> has_last g' \<and> last_id g' = hd ids + int (length ids) - 1"
proof (induction g es arbitrary: ids rule: gate_run.induct)
  case (2 g i es)
  then obtain g1 r ids1 where *: "on_live_trade g i = Some (g1, r)" "gate_run g1 es = Some (g', ids1)"
    "ids = (if action r = Accept then i # ids1 else ids1)"
    by (auto split: option.splits)
  note l = on_live_trade_last [OF *(1)]
  show ?case
  proof (cases "action r = Accept")
    case True
    then show ?thesis
      using gate_run_consecutive [OF *(2)] l *(3) by (auto simp: consecutive_Cons)
  next
    case False
    then have "\<not> has_last g1" using l 2(3) by simp
    from 2(1) [OF *(1) refl *(2) this] False *(3) show ?thesis by simp
  qed
next
  case (3 g i es)
  then obtain g1 ok ids1 where *: "on_replay_trade g i = Some (g1, ok)" "gate_run g1 es = Some (g', ids1)"
    "ids = (if ok then i # ids1 else ids1)"
    by (auto split: option.splits)
  note l = on_replay_trade_last [OF *(1)]
  have "\<not> ok" using l 3(3) by auto
  then have "\<not> has_last g1" using l 3(3) by simp
  from 3(1) [OF *(1) refl *(2) this] \<open>\<not> ok\<close> *(3) show ?case by simp
qed simp

section \<open>Recovery\<close>

lemma upto_from_nat: "[a..a + int n - 1] = map (\<lambda>j. a + int j) [0..<n]"
  by (rule nth_equalityI) (simp_all add: nth_upto)

lemma replay_fills:
  "gstate g = Recovering \<Longrightarrow> gate_inv g \<Longrightarrow> last_id g + int n = missing_end g \<Longrightarrow> 0 < n \<Longrightarrow>
     gate_run g (map (\<lambda>j. ReplayTrade (last_id g + 1 + int j)) [0..<n])
       = Some (g\<lparr>last_id := missing_end g, gstate := Live, missing_begin := 0, missing_end := 0\<rparr>,
               map (\<lambda>j. last_id g + 1 + int j) [0..<n])"
proof (induction n arbitrary: g)
  case (Suc n)
  have i: "has_last g" "in_i64 (last_id g)" "in_i64 (missing_end g)" "last_id g < missing_end g"
    using Suc.prems by (simp_all add: gate_inv_def)
  then have a: "i64_add (last_id g) 1 = Some (last_id g + 1)" by (simp add: i64_add_def in_i64_def)
  have upt: "map f [0..<Suc n] = f 0 # map (\<lambda>j. f (Suc j)) [0..<n]" for f :: "nat \<Rightarrow> 'x"
    by (simp add: upt_conv_Cons map_Suc_upt [symmetric] o_def del: upt_Suc)
  let ?g1 = "g\<lparr>last_id := last_id g + 1\<rparr>"
  show ?case
  proof (cases "n = 0")
    case True
    then have "last_id g + 1 = missing_end g" using Suc.prems by simp
    then show ?thesis using True Suc.prems i a by (simp add: on_replay_trade_def)
  next
    case False
    then have ne: "last_id g + 1 \<noteq> missing_end g" using Suc.prems by linarith
    then have st: "on_replay_trade g (last_id g + 1) = Some (?g1, True)"
      using Suc.prems i a by (simp add: on_replay_trade_def Let_def)
    have "gate_inv ?g1" using Suc.prems i ne by (simp add: gate_inv_def in_i64_def)
    with Suc.IH [of ?g1] Suc.prems False st show ?thesis
      by (simp add: upt algebra_simps del: upt_Suc)
  qed
qed simp

section \<open>Properties\<close>

text \<open>Whatever live and retransmitted trades arrive, in whatever order, the ids a gate lets through
  are consecutive: no trade is delivered twice, out of order, or across a gap.
\<close>
theorem gate_delivers_consecutive:
  assumes "gate_run new_gate es = Some (g, ids)"
  shows "ids = [] \<or> ids = map (\<lambda>j. hd ids + int j) [0..<length ids] \<and> last_id g = hd ids + int (length ids) - 1"
  using gate_run_first [OF assms] by (auto simp: new_gate_def consecutive_def)

text \<open>(C17) Gap and recovery. A live id beyond the next one stops the gate and reports the missing range;
  while it recovers every live trade is held and changes nothing; when exactly the missing ids
  are retransmitted in order, all of them are accepted, the gate is live again and accepts
  the id that had revealed the gap.
\<close>
theorem gate_recovers:
  assumes "gstate g = Live" and "has_last g" and "in_i64 (last_id g)" and "in_i64 i" and "last_id g + 1 < i"
  shows "\<exists>g1. on_live_trade g i = Some (g1, \<lparr>action = Gap, res_begin = last_id g + 1, res_end = i - 1\<rparr>)
    \<and> \<not> gate_can_trade g1 \<and> missing_range g1 = Some (last_id g + 1, i - 1)
    \<and> (\<forall>j. \<exists>r. on_live_trade g1 j = Some (g1, r) \<and> action r = Hold)
    \<and> (\<exists>g2. gate_run g1 (map ReplayTrade [last_id g + 1..i - 1]) = Some (g2, [last_id g + 1..i - 1])
         \<and> gate_can_trade g2 \<and> (\<exists>g3. on_live_trade g2 i = Some (g3, result_of Accept)))"
proof -
  let ?g1 = "g\<lparr>gstate := Recovering, missing_begin := last_id g + 1, missing_end := i - 1\<rparr>"
  let ?g2 = "?g1\<lparr>last_id := i - 1, gstate := Live, missing_begin := 0, missing_end := 0\<rparr>"
  have add: "i64_add (last_id g) 1 = Some (last_id g + 1)" "i64_sub i 1 = Some (i - 1)"
    "i64_add (i - 1) 1 = Some i"
    using assms by (simp_all add: i64_add_def i64_sub_def in_i64_def)
  have 1: "on_live_trade g i = Some (?g1, \<lparr>action = Gap, res_begin = last_id g + 1, res_end = i - 1\<rparr>)"
    using assms add by (simp add: on_live_trade_def Let_def)
  have hold: "\<exists>r. on_live_trade ?g1 j = Some (?g1, r) \<and> action r = Hold" for j
    by (simp add: on_live_trade_def)
  define n where "n = nat (i - 1 - last_id g)"
  have n: "last_id ?g1 + int n = missing_end ?g1" "0 < n" using assms(5) by (simp_all add: n_def)
  have inv: "gate_inv ?g1" using assms by (simp add: gate_inv_def in_i64_def)
  have upto: "[last_id g + 1..i - 1] = map (\<lambda>j. last_id g + 1 + int j) [0..<n]"
  proof -
    have "i - 1 = last_id g + 1 + int n - 1" using n(1) by simp
    then show ?thesis using upto_from_nat [of "last_id g + 1" n] by metis
  qed
  have "gate_run ?g1 (map ReplayTrade [last_id g + 1..i - 1]) = Some (?g2, [last_id g + 1..i - 1])"
    using replay_fills [OF _ inv n] unfolding upto by (simp add: o_def)
  moreover have "on_live_trade ?g2 i = Some (?g2\<lparr>last_id := i\<rparr>, result_of Accept)"
    using add assms(2) by (simp add: on_live_trade_def)
  ultimately show ?thesis
    using 1 hold by (intro exI [of _ ?g1]) (auto simp: gate_can_trade_def missing_range_def)
qed

text \<open>Where 64-bit ids overflow. For ids in range a live trade is undefined behaviour exactly when the
  gate is live and its last id is \<open>INT64_MAX\<close>; and the number of missing ids of a gap is
  computed without overflow exactly when it does not exceed \<open>INT64_MAX\<close>.
\<close>
theorem gate_overflow:
  assumes "in_i64 (last_id g)" and "in_i64 i"
  shows "(on_live_trade g i = None \<longleftrightarrow> gstate g = Live \<and> has_last g \<and> last_id g = i64_max)
    \<and> (\<forall>g' r. on_live_trade g i = Some (g', r) \<and> action r = Gap \<longrightarrow>
         missing_count r = (if i - last_id g - 1 \<le> i64_max then Some (of_int (i - last_id g - 1)) else None))"
proof -
  have "on_live_trade g i = None \<longleftrightarrow> gstate g = Live \<and> has_last g \<and> last_id g = i64_max"
    using assms
    by (cases "gstate g") (auto simp: on_live_trade_def i64_add_def i64_sub_def in_i64_def Let_def split: option.splits)
  moreover have "missing_count r = (if i - last_id g - 1 \<le> i64_max then Some (of_int (i - last_id g - 1)) else None)"
    if "on_live_trade g i = Some (g', r)" "action r = Gap" for g' r
  proof -
    have r: "r = \<lparr>action = Gap, res_begin = last_id g + 1, res_end = i - 1\<rparr>" "last_id g + 1 < i"
      using that by (auto simp: on_live_trade_def i64_add_def i64_sub_def Let_def split: if_splits option.splits)
    then show ?thesis
      using assms by (auto simp: missing_count_def i64_sub_def i64_add_def in_i64_def algebra_simps)
  qed
  ultimately show ?thesis by blast
qed

theorem gate_delivers_consecutive_witness:
  "gate_run new_gate [LiveTrade 10, LiveTrade 11, LiveTrade 11, LiveTrade 14, LiveTrade 15, ReplayTrade 12,
      ReplayTrade 13, LiveTrade 14]
     = Some (\<lparr>has_last = True, last_id = 14, missing_begin = 0, missing_end = 0, gstate = Live\<rparr>, [10, 11, 12, 13, 14])
   \<and> (14::int) = 10 + int 5 - 1"
proof -
  have r: "gate_run new_gate [LiveTrade 10, LiveTrade 11, LiveTrade 11, LiveTrade 14, LiveTrade 15, ReplayTrade 12,
      ReplayTrade 13, LiveTrade 14]
     = Some (\<lparr>has_last = True, last_id = 14, missing_begin = 0, missing_end = 0, gstate = Live\<rparr>, [10, 11, 12, 13, 14])"
    by (simp add: on_live_trade_def on_replay_trade_def new_gate_def i64_add_def i64_sub_def in_i64_def)
  then show ?thesis using gate_delivers_consecutive [OF r] by simp
qed

theorem gate_recovers_witness:
  "\<exists>g1. on_live_trade (new_gate\<lparr>has_last := True, last_id := 5\<rparr>) 9
     = Some (g1, \<lparr>action = Gap, res_begin = 6, res_end = 8\<rparr>) \<and> \<not> gate_can_trade g1"
  using gate_recovers [of "new_gate\<lparr>has_last := True, last_id := 5\<rparr>" 9]
  by (auto simp: new_gate_def in_i64_def)

theorem gate_overflow_witness:
  "on_live_trade (new_gate\<lparr>has_last := True, last_id := i64_max\<rparr>) 1 = None"
  using gate_overflow [of "new_gate\<lparr>has_last := True, last_id := i64_max\<rparr>" 1]
  by (simp add: new_gate_def in_i64_def)

end
