(* ===== verification/Clock_Offset.thy ===== *)
theory Clock_Offset
  imports MDS_Prelude
begin

text \<open>
  The calibration of the exchange's clock, \<^verbatim>\<open>ClockOffsetCalibrator\<close> and
  \<^verbatim>\<open>exchange_to_recv_us\<close> of \<^verbatim>\<open>src/network/clock_offset.h\<close>. Times are \<open>int64_t\<close>
  microseconds; every sum and difference is checked and \<^const>\<open>None\<close> is a signed overflow.
\<close>

section \<open>The calibrator\<close>

abbreviation kMaxRttUs :: int where "kMaxRttUs \<equiv> 200000"
abbreviation kMaxAbsOffsetUs :: int where "kMaxAbsOffsetUs \<equiv> 10000000"

datatype reason = Accepted | TransportFailed | BadServerTime | RttTooLarge | OffsetTooLarge | BadLocalTimes

record sample_result =
  reason :: reason
  rtt_us :: int
  sample_offset_us :: int

record calibrator =
  has_offset :: bool
  stored_offset_us :: int
  last_rtt_us :: int
  accept_count :: u64
  fail_count :: u64

definition new_calibrator :: calibrator where
  "new_calibrator = \<lparr>has_offset = False, stored_offset_us = 0, last_rtt_us = 0, accept_count = 0, fail_count = 0\<rparr>"

fun reason_name :: "reason \<Rightarrow> string" where
  "reason_name Accepted = ''accepted''"
| "reason_name TransportFailed = ''transport_failed''"
| "reason_name BadServerTime = ''bad_server_time''"
| "reason_name RttTooLarge = ''rtt_too_large''"
| "reason_name OffsetTooLarge = ''offset_too_large''"
| "reason_name BadLocalTimes = ''bad_local_times''"

definition count_failure :: "calibrator \<Rightarrow> calibrator" where
  "count_failure c = c\<lparr>fail_count := fail_count c + 1\<rparr>"

definition on_transport_failure :: "calibrator \<Rightarrow> calibrator \<times> sample_result" where
  "on_transport_failure c =
     (count_failure c, \<lparr>reason = TransportFailed, rtt_us = 0, sample_offset_us = 0\<rparr>)"

definition on_sample :: "calibrator \<Rightarrow> int \<Rightarrow> int \<Rightarrow> int \<Rightarrow> (calibrator \<times> sample_result) option" where
  "on_sample c local_send_us local_recv_us server_time_us =
     (if server_time_us \<le> 0
      then Some (count_failure c, \<lparr>reason = BadServerTime, rtt_us = 0, sample_offset_us = 0\<rparr>)
      else if local_recv_us < local_send_us
      then Some (count_failure c, \<lparr>reason = BadLocalTimes, rtt_us = 0, sample_offset_us = 0\<rparr>)
      else Option.bind (i64_sub local_recv_us local_send_us) (\<lambda>rtt.
           Option.bind (i64_add local_send_us (rtt div 2)) (\<lambda>midpoint.
           Option.bind (i64_sub server_time_us midpoint) (\<lambda>offset.
             if rtt > kMaxRttUs
             then Some (count_failure c, \<lparr>reason = RttTooLarge, rtt_us = rtt, sample_offset_us = offset\<rparr>)
             else Option.bind (if offset < 0 then i64_neg offset else Some offset) (\<lambda>abs_off.
               if abs_off > kMaxAbsOffsetUs
               then Some (count_failure c, \<lparr>reason = OffsetTooLarge, rtt_us = rtt, sample_offset_us = offset\<rparr>)
               else Some (c\<lparr>stored_offset_us := offset, last_rtt_us := rtt, has_offset := True,
                            accept_count := accept_count c + 1\<rparr>,
                          \<lparr>reason = Accepted, rtt_us = rtt, sample_offset_us = offset\<rparr>))))))"

definition offset_us :: "calibrator \<Rightarrow> int" where
  "offset_us c = (if has_offset c then stored_offset_us c else 0)"

text \<open>The latency of a message; the outer \<^const>\<open>None\<close> is an overflow, the inner one \<open>nullopt\<close>.\<close>

definition exchange_to_recv_us :: "int \<Rightarrow> int \<Rightarrow> int \<Rightarrow> u64 option option" where
  "exchange_to_recv_us exchange_ts_us recv_ts_us offset =
     (if exchange_ts_us \<le> 0 then Some None
      else Option.bind (i64_add recv_ts_us offset) (\<lambda>shifted.
           Option.bind (i64_sub shifted exchange_ts_us) (\<lambda>lat.
             Some (if lat < 0 then None else Some (of_int lat)))))"

section \<open>Lemmas\<close>

lemma unat_of_int_small: "0 \<le> x \<Longrightarrow> x \<le> i64_max \<Longrightarrow> int (unat (of_int x :: u64)) = x"
  by (simp add: uint_word_of_int)

lemma on_sample_cases:
  assumes "on_sample c a b s = Some (c', r)"
  shows "(if reason r = Accepted
     then c' = c\<lparr>stored_offset_us := sample_offset_us r, last_rtt_us := rtt_us r, has_offset := True,
           accept_count := accept_count c + 1\<rparr>
        \<and> rtt_us r = b - a \<and> sample_offset_us r = s - (a + (b - a) div 2) \<and> a \<le> b \<and> 0 < s
        \<and> rtt_us r \<le> kMaxRttUs \<and> \<bar>sample_offset_us r\<bar> \<le> kMaxAbsOffsetUs
     else c' = count_failure c)"
  using assms
  by (auto simp: on_sample_def i64_simps Option.bind_eq_Some_conv split: if_splits)

text \<open>Times up to the year 36812 (2 to the power 60 microseconds) cannot overflow.\<close>

definition sane_time :: "int \<Rightarrow> bool" where
  "sane_time t \<longleftrightarrow> 0 \<le> t \<and> t \<le> 1152921504606846976"

lemma on_sample_defined:
  assumes "sane_time a" and "sane_time b" and "sane_time s"
  shows "on_sample c a b s \<noteq> None"
  using assms
  by (auto simp: on_sample_def i64_simps sane_time_def Option.bind_eq_None_conv)

section \<open>Runs of the calibration thread\<close>

datatype calibration_event = Transport | Sample int int int

fun calibrate :: "calibrator \<Rightarrow> calibration_event list \<Rightarrow> calibrator option" where
  "calibrate c [] = Some c"
| "calibrate c (Transport # es) = calibrate (fst (on_transport_failure c)) es"
| "calibrate c (Sample a b s # es) = Option.bind (on_sample c a b s) (\<lambda>(c', _). calibrate c' es)"

definition calibrator_inv :: "calibrator \<Rightarrow> bool" where
  "calibrator_inv c \<longleftrightarrow> \<bar>stored_offset_us c\<bar> \<le> kMaxAbsOffsetUs \<and> 0 \<le> last_rtt_us c \<and> last_rtt_us c \<le> kMaxRttUs"

lemma calibrate_inv:
  "calibrate c es = Some c' \<Longrightarrow> calibrator_inv c \<Longrightarrow>
     calibrator_inv c' \<and> accept_count c' + fail_count c' = accept_count c + fail_count c + of_nat (length es)"
proof (induction c es rule: calibrate.induct)
  case (2 c es)
  then show ?case by (simp add: on_transport_failure_def count_failure_def calibrator_inv_def algebra_simps)
next
  case (3 c a b s es)
  then obtain c1 r where 1: "on_sample c a b s = Some (c1, r)" "calibrate c1 es = Some c'"
    by (auto simp: Option.bind_eq_Some_conv)
  have "calibrator_inv c1 \<and> accept_count c1 + fail_count c1 = accept_count c + fail_count c + 1"
    using on_sample_cases [OF 1(1)] 3(3)
    by (auto simp: calibrator_inv_def count_failure_def algebra_simps split: if_splits)
  with 3(1) [OF 1(1) refl 1(2)] show ?case by (simp add: algebra_simps)
qed simp

section \<open>Properties\<close>

text \<open>(C26) Error of the midpoint estimate. If the server read its clock at some local time between sending
  and receiving, and its clock runs \<open>\<theta>\<close> ahead of the local one, then an accepted sample stores
  an offset that differs from \<open>\<theta>\<close> by at most half the round trip, rounded up, which is at most
  100 milliseconds; and the external latency computed from it is off by no more than that.
\<close>
theorem midpoint_error_bound:
  assumes "on_sample c a b (t + \<theta>) = Some (c', r)" and "reason r = Accepted" and "a \<le> t" and "t \<le> b"
    and "exchange_to_recv_us ex rc (offset_us c') = Some (Some lat)" and "in_i64 (rc + \<theta> - ex)"
  shows "\<bar>offset_us c' - \<theta>\<bar> \<le> (b - a + 1) div 2 \<and> (b - a + 1) div 2 \<le> 100000
    \<and> \<bar>int (unat lat) - (rc + \<theta> - ex)\<bar> \<le> (b - a + 1) div 2"
proof -
  note s = on_sample_cases [OF assms(1)]
  have o: "offset_us c' = t + \<theta> - (a + (b - a) div 2)" "b - a \<le> kMaxRttUs"
    using s assms(2) by (auto simp: offset_us_def)
  then have e: "\<bar>offset_us c' - \<theta>\<bar> \<le> (b - a + 1) div 2" using assms(3,4) by linarith
  have l: "lat = of_int (rc + offset_us c' - ex)" "0 \<le> rc + offset_us c' - ex" "rc + offset_us c' - ex \<le> i64_max"
    using assms(5)
    by (auto simp: exchange_to_recv_us_def i64_simps Option.bind_eq_Some_conv split: if_splits)
  then have "int (unat lat) = rc + offset_us c' - ex"
    using unat_of_int_small [of "rc + offset_us c' - ex"] by (simp only:)
  with e o(2) show ?thesis by linarith
qed

text \<open>Invariant of the calibration. After any sequence of samples and failures the stored offset is
  within 10 seconds, the stored round trip between 0 and 200 milliseconds, and every attempt has
  been counted once as accepted or failed; an attempt that is not accepted leaves offset and
  round trip as they were.
\<close>
theorem calibrator_invariant:
  assumes "calibrate new_calibrator es = Some c"
  shows "\<bar>offset_us c\<bar> \<le> kMaxAbsOffsetUs \<and> 0 \<le> last_rtt_us c \<and> last_rtt_us c \<le> kMaxRttUs
    \<and> accept_count c + fail_count c = of_nat (length es)
    \<and> (\<forall>a b s c' r. on_sample c a b s = Some (c', r) \<and> reason r \<noteq> Accepted \<longrightarrow>
         offset_us c' = offset_us c \<and> last_rtt_us c' = last_rtt_us c \<and> has_offset c' = has_offset c)"
proof -
  have "calibrator_inv c \<and> accept_count c + fail_count c = of_nat (length es)"
    using calibrate_inv [OF assms] by (simp add: calibrator_inv_def new_calibrator_def)
  then have "\<bar>offset_us c\<bar> \<le> kMaxAbsOffsetUs \<and> 0 \<le> last_rtt_us c \<and> last_rtt_us c \<le> kMaxRttUs
      \<and> accept_count c + fail_count c = of_nat (length es)"
    by (simp add: calibrator_inv_def offset_us_def)
  moreover have "offset_us c' = offset_us c \<and> last_rtt_us c' = last_rtt_us c \<and> has_offset c' = has_offset c"
    if "on_sample c a b s = Some (c', r)" "reason r \<noteq> Accepted" for a b s c' r
    using on_sample_cases [OF that(1)] that(2) by (simp add: count_failure_def offset_us_def)
  ultimately show ?thesis by blast
qed

theorem midpoint_error_bound_witness:
  "\<exists>c' r. on_sample new_calibrator 1000 5000 (2000 + 700000) = Some (c', r) \<and> reason r = Accepted
     \<and> \<bar>offset_us c' - 700000\<bar> \<le> 2000"
proof -
  obtain c' r where s: "on_sample new_calibrator 1000 5000 (2000 + 700000) = Some (c', r)" "reason r = Accepted"
    "offset_us c' = 699000"
    by (simp add: on_sample_def i64_simps new_calibrator_def offset_us_def)
  have "exchange_to_recv_us 1 1000000 (offset_us c') = Some (Some 1698999)"
    using s(3) by (simp add: exchange_to_recv_us_def i64_simps)
  from midpoint_error_bound [OF s(1,2) _ _ this] s show ?thesis by (auto simp: in_i64_def)
qed

theorem calibrator_invariant_witness:
  "\<exists>c. calibrate new_calibrator [Sample 1000 5000 702000, Transport, Sample 0 900000 702000] = Some c
     \<and> accept_count c + fail_count c = 3"
proof -
  obtain c where c: "calibrate new_calibrator [Sample 1000 5000 702000, Transport, Sample 0 900000 702000] = Some c"
    by (simp add: on_sample_def on_transport_failure_def count_failure_def i64_simps new_calibrator_def)
  then show ?thesis using calibrator_invariant [OF c] by simp
qed

end
