(* ===== verification/Json_Api.thy ===== *)
theory Json_Api
  imports MDS_Prelude "HOL-Library.Monad_Syntax"
begin

text \<open>
  The part of the JSON library \<^verbatim>\<open>nlohmann::json\<close> that the program calls. The library is not
  part of the repository, so it is a parameter: a record of the member functions the sources
  use, over an arbitrary type \<open>'j\<close> of JSON values. A function with an \<open>option\<close> result is one
  that throws \<^verbatim>\<open>nlohmann::json::exception\<close> where the result is \<^const>\<open>None\<close>. No law is
  assumed of it by any definition. \<open>jvalue\<close> is a small concrete type of JSON values, whose
  \<open>jvalue_api\<close> follows the library's documentation for the cases used; the witnesses of the
  development evaluate on it.
\<close>

record 'j json_api =
  js_parse :: "string \<Rightarrow> 'j option"              \<comment> \<open>\<open>json::parse\<close>\<close>
  js_read :: "string \<Rightarrow> 'j option"               \<comment> \<open>stream extraction \<open>file >> j\<close>\<close>
  js_find :: "'j \<Rightarrow> string \<Rightarrow> 'j option"          \<comment> \<open>\<open>find\<close>, \<open>contains\<close> and \<open>operator[]\<close> of a present key\<close>
  js_is_object :: "'j \<Rightarrow> bool"
  js_is_array :: "'j \<Rightarrow> bool"
  js_is_string :: "'j \<Rightarrow> bool"
  js_is_integer :: "'j \<Rightarrow> bool"                   \<comment> \<open>\<open>is_number_integer\<close>\<close>
  js_is_unsigned :: "'j \<Rightarrow> bool"                  \<comment> \<open>\<open>is_number_unsigned\<close>\<close>
  js_string :: "'j \<Rightarrow> string option"              \<comment> \<open>\<open>get<std::string>\<close>, \<open>get_ref\<close>\<close>
  js_strings :: "'j \<Rightarrow> string list option"        \<comment> \<open>\<open>get<std::vector<std::string>>\<close>\<close>
  js_int64 :: "'j \<Rightarrow> i64 option"
  js_uint64 :: "'j \<Rightarrow> u64 option"
  js_int :: "'j \<Rightarrow> 32 word option"
  js_bool :: "'j \<Rightarrow> bool option"
  js_equals :: "'j \<Rightarrow> string \<Rightarrow> bool"             \<comment> \<open>\<open>operator==\<close> with a string literal\<close>
  js_items :: "'j \<Rightarrow> 'j list"                     \<comment> \<open>range-for; \<open>size\<close> and \<open>operator[]\<close> of an array\<close>
  js_item_keys :: "'j \<Rightarrow> string list option"      \<comment> \<open>\<open>it.key()\<close> over all iterators\<close>

text \<open>\<^verbatim>\<open>value(key, default)\<close>: throws unless the value is an object; the default stands for a
  missing key.\<close>

definition js_value :: "'j json_api \<Rightarrow> ('j \<Rightarrow> 'a option) \<Rightarrow> 'j \<Rightarrow> string \<Rightarrow> 'a \<Rightarrow> 'a option" where
  "js_value api get j k dflt = (if js_is_object api j
     then (case js_find api j k of None \<Rightarrow> Some dflt | Some v \<Rightarrow> get v) else None)"

text \<open>The option monad's test: leave the function with \<open>None\<close> unless the condition holds.\<close>

definition ensure :: "bool \<Rightarrow> unit option" where
  "ensure b = (if b then Some () else None)"

lemma ensure_Some [simp]: "ensure b = Some u \<longleftrightarrow> b"
  by (simp add: ensure_def)

lemma ensure_bind [simp]: "(ensure b \<bind> f) = (if b then f () else None)"
  by (simp add: ensure_def)

section \<open>A concrete instance\<close>

datatype jvalue =
    JNull
  | JBool bool
  | JInt int                          \<comment> \<open>a number written without fraction or exponent\<close>
  | JString string
  | JArray "jvalue list"
  | JObject "(string \<times> jvalue) list"

fun jv_find :: "jvalue \<Rightarrow> string \<Rightarrow> jvalue option" where
  "jv_find (JObject kvs) k = map_of kvs k"
| "jv_find _ k = None"

fun jv_string :: "jvalue \<Rightarrow> string option" where
  "jv_string (JString s) = Some s"
| "jv_string _ = None"

fun jv_integer :: "jvalue \<Rightarrow> int option" where
  "jv_integer (JInt i) = Some i"
| "jv_integer (JBool b) = Some (if b then 1 else 0)"
| "jv_integer _ = None"

fun jv_bool :: "jvalue \<Rightarrow> bool option" where
  "jv_bool (JBool b) = Some b"
| "jv_bool _ = None"

fun jv_items :: "jvalue \<Rightarrow> jvalue list" where
  "jv_items JNull = []"
| "jv_items (JArray vs) = vs"
| "jv_items (JObject kvs) = map snd kvs"
| "jv_items v = [v]"

fun jv_item_keys :: "jvalue \<Rightarrow> string list option" where
  "jv_item_keys (JObject kvs) = Some (map fst kvs)"
| "jv_item_keys v = (if jv_items v = [] then Some [] else None)"

definition jvalue_api :: "(string \<Rightarrow> jvalue option) \<Rightarrow> jvalue json_api" where
  "jvalue_api p = \<lparr>js_parse = p, js_read = p, js_find = jv_find,
     js_is_object = (\<lambda>v. case v of JObject _ \<Rightarrow> True | _ \<Rightarrow> False),
     js_is_array = (\<lambda>v. case v of JArray _ \<Rightarrow> True | _ \<Rightarrow> False),
     js_is_string = (\<lambda>v. jv_string v \<noteq> None),
     js_is_integer = (\<lambda>v. case v of JInt _ \<Rightarrow> True | _ \<Rightarrow> False),
     js_is_unsigned = (\<lambda>v. case v of JInt i \<Rightarrow> 0 \<le> i | _ \<Rightarrow> False),
     js_string = jv_string,
     js_strings = (\<lambda>v. case v of JArray vs \<Rightarrow> those (map jv_string vs) | _ \<Rightarrow> None),
     js_int64 = map_option of_int \<circ> jv_integer, js_uint64 = map_option of_int \<circ> jv_integer,
     js_int = map_option of_int \<circ> jv_integer, js_bool = jv_bool,
     js_equals = (\<lambda>v s. v = JString s), js_items = jv_items, js_item_keys = jv_item_keys\<rparr>"

lemma jvalue_api_sel [simp]:
  "js_parse (jvalue_api p) = p" "js_read (jvalue_api p) = p" "js_find (jvalue_api p) = jv_find"
  "js_is_object (jvalue_api p) v = (case v of JObject _ \<Rightarrow> True | _ \<Rightarrow> False)"
  "js_is_array (jvalue_api p) v = (case v of JArray _ \<Rightarrow> True | _ \<Rightarrow> False)"
  "js_is_string (jvalue_api p) v = (jv_string v \<noteq> None)"
  "js_is_integer (jvalue_api p) v = (case v of JInt _ \<Rightarrow> True | _ \<Rightarrow> False)"
  "js_is_unsigned (jvalue_api p) v = (case v of JInt i \<Rightarrow> 0 \<le> i | _ \<Rightarrow> False)"
  "js_string (jvalue_api p) = jv_string"
  "js_strings (jvalue_api p) v = (case v of JArray vs \<Rightarrow> those (map jv_string vs) | _ \<Rightarrow> None)"
  "js_int64 (jvalue_api p) v = map_option of_int (jv_integer v)"
  "js_uint64 (jvalue_api p) v = map_option of_int (jv_integer v)"
  "js_int (jvalue_api p) v = map_option of_int (jv_integer v)"
  "js_bool (jvalue_api p) = jv_bool" "js_equals (jvalue_api p) v s = (v = JString s)"
  "js_items (jvalue_api p) = jv_items" "js_item_keys (jvalue_api p) = jv_item_keys"
  by (simp_all add: jvalue_api_def)

end
