(* ===== verification/Double_Parse.thy ===== *)
theory Double_Parse
  imports MDS_Prelude
begin

text \<open>
  The conversion of decimal text to \<^verbatim>\<open>double\<close> that the parser relies on:
  \<^verbatim>\<open>std::from_chars\<close> in its general format, of which
  \<^verbatim>\<open>parse_double_strict\<close> (\<^verbatim>\<open>src/parser/parser.cpp\<close>) accepts a text only when all
  of it was consumed. A double is its 64-bit pattern; a finite non-negative pattern denotes
  \<open>f64_scaled w / 2 ^ 1074\<close>, an integer multiple of the smallest positive double, so that
  rounding is stated without reals. The lemmas show that the conversion is correctly
  rounded: no finite double is nearer to the number the text denotes.
\<close>

section \<open>IEEE-754 bit patterns\<close>

abbreviation f64_unit :: nat where "f64_unit \<equiv> 4503599627370496"

text \<open>The pattern of \<open>+inf\<close>; every smaller pattern is a finite non-negative double.\<close>

abbreviation f64_inf :: nat where "f64_inf \<equiv> 9218868437227405312"

abbreviation f64_sign_bit :: nat where "f64_sign_bit \<equiv> 9223372036854775808"

definition f64_magnitude :: "f64 \<Rightarrow> nat" where
  "f64_magnitude w = unat w mod f64_sign_bit"

definition f64_negative :: "f64 \<Rightarrow> bool" where
  "f64_negative w \<longleftrightarrow> f64_sign_bit \<le> unat w"

text \<open>\<^verbatim>\<open>std::isfinite\<close>, and the comparison \<open>w <= 0\<close>, which no NaN satisfies.\<close>

definition f64_finite :: "f64 \<Rightarrow> bool" where
  "f64_finite w \<longleftrightarrow> f64_magnitude w < f64_inf"

definition f64_le_zero :: "f64 \<Rightarrow> bool" where
  "f64_le_zero w \<longleftrightarrow> f64_magnitude w \<le> f64_inf \<and> (f64_negative w \<or> f64_magnitude w = 0)"

text \<open>The magnitude of a finite double in multiples of \<open>2 ^ (-1074)\<close>.\<close>

definition scaled_of_bits :: "nat \<Rightarrow> nat" where
  "scaled_of_bits b = (if b div f64_unit = 0 then b mod f64_unit
     else (f64_unit + b mod f64_unit) * 2 ^ (b div f64_unit - 1))"

definition f64_scaled :: "f64 \<Rightarrow> nat" where
  "f64_scaled w = scaled_of_bits (f64_magnitude w)"

section \<open>Correct rounding\<close>

fun nat_log2 :: "nat \<Rightarrow> nat" where
  "nat_log2 n = (if n < 2 then 0 else Suc (nat_log2 (n div 2)))"

declare nat_log2.simps [simp del]

text \<open>Division rounded to the nearest integer, ties to the even one.\<close>

definition round_div :: "nat \<Rightarrow> nat \<Rightarrow> nat" where
  "round_div x d = (let q = x div d; r = x mod d
     in if d < 2 * r \<or> d = 2 * r \<and> odd q then q + 1 else q)"

text \<open>The magnitude pattern of the double nearest to \<open>n / d\<close>; \<open>f64_inf\<close> or more when it overflows.\<close>

definition round_bits :: "nat \<Rightarrow> nat \<Rightarrow> nat" where
  "round_bits n d = (let x = n * 2 ^ 1074; s = nat_log2 (x div d) - 52
     in round_div x (d * 2 ^ s) + s * f64_unit)"

section \<open>The text of a number\<close>

definition digits_val :: "string \<Rightarrow> nat" where
  "digits_val ds = foldl (\<lambda>n c. 10 * n + digit_val c) 0 ds"

text \<open>Digits with an optional point: the digits read as one integer, how many of them stood
  behind the point, and the rest of the text.\<close>

definition scan_mantissa :: "string \<Rightarrow> (nat \<times> nat \<times> string) option" where
  "scan_mantissa s =
     (let ip = takeWhile is_digit s; r1 = dropWhile is_digit s;
          (fp, r2) = (if r1 \<noteq> [] \<and> hd r1 = CHR ''.'' then (takeWhile is_digit (tl r1), dropWhile is_digit (tl r1))
                      else ([], r1))
      in if ip = [] \<and> fp = [] then None else Some (digits_val (ip @ fp), length fp, r2))"

text \<open>An exponent is consumed only when at least one digit follows it.\<close>

definition scan_exponent :: "string \<Rightarrow> int \<times> string" where
  "scan_exponent r =
     (if r \<noteq> [] \<and> (hd r = CHR ''e'' \<or> hd r = CHR ''E'') then
        (let r1 = tl r;
             signed = (r1 \<noteq> [] \<and> (hd r1 = CHR ''+'' \<or> hd r1 = CHR ''-''));
             r2 = (if signed then tl r1 else r1);
             ds = takeWhile is_digit r2
         in if ds = [] then (0, r)
            else ((if signed \<and> hd r1 = CHR ''-'' then - int (digits_val ds) else int (digits_val ds)),
                  dropWhile is_digit r2))
      else (0, r))"

text \<open>The number \<open>n / d\<close> an unsigned decimal text denotes, and the rest of the text.\<close>

definition scan_number :: "string \<Rightarrow> ((nat \<times> nat) \<times> string) option" where
  "scan_number s = (case scan_mantissa s of None \<Rightarrow> None
     | Some (m, k, r) \<Rightarrow> (case scan_exponent r of (e, r') \<Rightarrow>
         Some (if int k \<le> e then (m * 10 ^ nat (e - int k), 1) else (m, 10 ^ nat (int k - e)), r')))"

definition lower_char :: "char \<Rightarrow> char" where
  "lower_char c = (if 65 \<le> (of_char c :: nat) \<and> (of_char c :: nat) \<le> 90 then char_of ((of_char c :: nat) + 32) else c)"

definition has_prefix_nocase :: "string \<Rightarrow> string \<Rightarrow> bool" where
  "has_prefix_nocase p s \<longleftrightarrow> map lower_char (take (length p) s) = p"

definition is_nan_char :: "char \<Rightarrow> bool" where
  "is_nan_char c \<longleftrightarrow> is_digit c \<or> (97 \<le> (of_char (lower_char c) :: nat) \<and> (of_char (lower_char c) :: nat) \<le> 122) \<or> c = CHR ''_''"

text \<open>The optional \<open>(n-char-sequence)\<close> behind \<open>nan\<close>.\<close>

definition skip_nan_payload :: "string \<Rightarrow> string" where
  "skip_nan_payload r =
     (if r \<noteq> [] \<and> hd r = CHR ''('' \<and> dropWhile is_nan_char (tl r) \<noteq> [] \<and> hd (dropWhile is_nan_char (tl r)) = CHR '')''
      then tl (dropWhile is_nan_char (tl r)) else r)"

datatype chars_result = CharsInvalid | CharsOutOfRange string | CharsOk f64 string

definition from_chars_double :: "string \<Rightarrow> chars_result" where
  "from_chars_double text =
     (let neg = (text \<noteq> [] \<and> hd text = CHR ''-''); s = (if neg then tl text else text);
          sgn = (if neg then f64_sign_bit else 0)
      in if has_prefix_nocase ''infinity'' s then CharsOk (of_nat (sgn + f64_inf)) (drop 8 s)
         else if has_prefix_nocase ''inf'' s then CharsOk (of_nat (sgn + f64_inf)) (drop 3 s)
         else if has_prefix_nocase ''nan'' s then
           CharsOk (of_nat (sgn + f64_inf + 2251799813685248)) (skip_nan_payload (drop 3 s))
         else case scan_number s of
             None \<Rightarrow> CharsInvalid
           | Some ((n, d), r) \<Rightarrow>
               (let b = round_bits n d
                in if f64_inf \<le> b \<or> (b = 0 \<and> n \<noteq> 0) then CharsOutOfRange r
                   else CharsOk (of_nat (sgn + b)) r))"

text \<open>\<^verbatim>\<open>parse_double_strict\<close>: \<open>None\<close> is the result \<open>false\<close>.\<close>

definition parse_double_strict :: "string \<Rightarrow> f64 option" where
  "parse_double_strict text = (case from_chars_double text of
     CharsOk v r \<Rightarrow> (if r = [] then Some v else None) | _ \<Rightarrow> None)"

section \<open>Rounding is to the nearest double\<close>

lemma nat_log2_bounds:
  "0 < n \<Longrightarrow> 2 ^ nat_log2 n \<le> n \<and> n < 2 ^ Suc (nat_log2 n)"
proof (induction n rule: nat_log2.induct)
  case (1 n)
  show ?case
  proof (cases "n < 2")
    case True
    then show ?thesis using 1(2) by (simp add: nat_log2.simps [of n])
  next
    case False
    have e: "nat_log2 n = Suc (nat_log2 (n div 2))" using False by (simp add: nat_log2.simps [of n])
    have "0 < n div 2" using False by simp
    from 1(1) [OF False this]
    have "2 ^ nat_log2 (n div 2) \<le> n div 2" "n div 2 < 2 ^ Suc (nat_log2 (n div 2))" by blast+
    then have "2 * 2 ^ nat_log2 (n div 2) \<le> n" "n < 2 * 2 ^ Suc (nat_log2 (n div 2))" by linarith+
    then show ?thesis unfolding e by simp
  qed
qed

lemma round_div_half:
  assumes "0 < d"
  shows "2 * \<bar>int x - int (round_div x d * d)\<bar> \<le> int d"
proof -
  have x: "int x = int (x div d * d) + int (x mod d)"
    by (metis div_mult_mod_eq of_nat_add)
  have m: "x mod d < d" using assms by simp
  consider "round_div x d = x div d" "2 * (x mod d) \<le> d" | "round_div x d = x div d + 1" "d \<le> 2 * (x mod d)"
  proof (cases "d < 2 * (x mod d) \<or> d = 2 * (x mod d) \<and> odd (x div d)")
    case True
    then show ?thesis using that(2) by (simp add: round_div_def Let_def) linarith
  next
    case False
    then show ?thesis using that(1) by (simp add: round_div_def Let_def)
  qed
  then show ?thesis
  proof cases
    case 1
    then show ?thesis using x by simp
  next
    case 2
    have "int (round_div x d * d) = int (x div d * d) + int d" using 2(1) by (simp add: algebra_simps)
    then have "int x - int (round_div x d * d) = int (x mod d) - int d" using x by linarith
    then show ?thesis using m 2(2) by simp
  qed
qed

lemma nearest_from_gap: "k \<le> \<bar>b - c\<bar> \<Longrightarrow> 2 * \<bar>a - b\<bar> \<le> k \<Longrightarrow> \<bar>a - b\<bar> \<le> \<bar>a - c\<bar>" for a b c k :: int
  by (auto simp: abs_if split: if_splits)

lemma round_div_nearest:
  assumes "0 < d"
  shows "\<bar>int x - int (round_div x d * d)\<bar> \<le> \<bar>int x - int (y * d)\<bar>"
proof (cases "y = round_div x d")
  case False
  then have "1 \<le> \<bar>int (round_div x d) - int y\<bar>" by linarith
  then have "int d \<le> \<bar>int (round_div x d) - int y\<bar> * int d"
    using assms by (simp add: mult_le_cancel_right1)
  also have "\<dots> = \<bar>int (round_div x d * d) - int (y * d)\<bar>"
    by (simp add: abs_mult left_diff_distrib [symmetric])
  finally show ?thesis using round_div_half [OF assms, of x] by (rule nearest_from_gap)
qed simp

lemma round_div_bounds: "0 < d \<Longrightarrow> a * d \<le> x \<Longrightarrow> a \<le> round_div x d"
  "0 < d \<Longrightarrow> x < b * d \<Longrightarrow> round_div x d \<le> b"
proof -
  assume d: "0 < d"
  show "a \<le> round_div x d" if "a * d \<le> x"
  proof -
    have "a \<le> x div d" using that d by (simp add: less_eq_div_iff_mult_less_eq)
    then show ?thesis by (auto simp: round_div_def Let_def)
  qed
  show "round_div x d \<le> b" if "x < b * d"
  proof -
    have "x div d < b" using that d by (simp add: div_less_iff_less_mult)
    then show ?thesis by (auto simp: round_div_def Let_def)
  qed
qed

lemma scaled_of_round:
  assumes "q \<le> 2 * f64_unit" and "s = 0 \<or> f64_unit \<le> q"
  shows "scaled_of_bits (q + s * f64_unit) = q * 2 ^ s"
proof -
  consider "q < f64_unit" | "f64_unit \<le> q" "q < 2 * f64_unit" | "q = 2 * f64_unit" using assms(1) by linarith
  then show ?thesis
  proof cases
    case 1
    then show ?thesis using assms(2) by (auto simp: scaled_of_bits_def)
  next
    case 2
    then obtain r where r: "q = f64_unit + r" "r < f64_unit" using le_Suc_ex by fastforce
    have "q + s * f64_unit = r + Suc s * f64_unit" using r(1) by simp
    then have "(q + s * f64_unit) div f64_unit = Suc s" "(q + s * f64_unit) mod f64_unit = r"
      using r(2) by (simp_all only: div_mult_self1 mod_mult_self1) simp_all
    then show ?thesis using r(1) by (simp add: scaled_of_bits_def)
  next
    case 3
    have "q + s * f64_unit = 0 + Suc (Suc s) * f64_unit" using 3 by simp
    then have "(q + s * f64_unit) div f64_unit = Suc (Suc s)" "(q + s * f64_unit) mod f64_unit = 0"
      by (simp_all only: div_mult_self1 mod_mult_self1 div_0 mod_0 add_0) simp_all
    then show ?thesis using 3 by (simp add: scaled_of_bits_def)
  qed
qed

lemma scaled_of_bits_form: "\<exists>m s. scaled_of_bits b = m * 2 ^ s \<and> m < 2 * f64_unit"
proof (cases "b div f64_unit = 0")
  case True
  then have "scaled_of_bits b = (b mod f64_unit) * 2 ^ 0" by (simp add: scaled_of_bits_def)
  moreover have "b mod f64_unit < 2 * f64_unit" using mod_less_divisor [of f64_unit b] by linarith
  ultimately show ?thesis by blast
next
  case False
  have "f64_unit + b mod f64_unit < 2 * f64_unit" using mod_less_divisor [of f64_unit b] by linarith
  with False show ?thesis by (auto simp: scaled_of_bits_def)
qed

text \<open>The exponent that \<open>round_bits\<close> chooses puts the quotient between \<open>f64_unit\<close> and its double.\<close>

lemma round_exponent:
  assumes "0 < d" and "s = nat_log2 (x div d) - 52"
  shows "s \<noteq> 0 \<Longrightarrow> f64_unit * (d * 2 ^ s) \<le> x" and "x < 2 * f64_unit * (d * 2 ^ s)"
proof -
  have unit: "f64_unit = 2 ^ 52" by simp
  show "f64_unit * (d * 2 ^ s) \<le> x" if "s \<noteq> 0"
  proof -
    have l: "nat_log2 (x div d) = s + 52" using that by (simp add: assms(2))
    then have "0 < x div d" using nat_log2.simps [of "x div d"] by (cases "x div d = 0") simp_all
    then have "2 ^ (s + 52) \<le> x div d" using nat_log2_bounds [of "x div d"] l by simp
    then have "2 ^ (s + 52) * d \<le> x" using assms(1) by (simp add: less_eq_div_iff_mult_less_eq)
    then show ?thesis unfolding unit by (simp add: power_add ac_simps)
  qed
  have "x div d < 2 ^ (s + 53)"
  proof (cases "x div d = 0")
    case False
    then have "x div d < 2 ^ Suc (nat_log2 (x div d))" using nat_log2_bounds by simp
    also have "\<dots> \<le> 2 ^ (s + 53)" by (rule power_increasing) (simp_all add: assms(2))
    finally show ?thesis .
  qed simp
  then have "x < 2 ^ (s + 53) * d" using assms(1) by (simp add: div_less_iff_less_mult)
  moreover have "2 * f64_unit = 2 ^ 53" by simp
  ultimately show "x < 2 * f64_unit * (d * 2 ^ s)" by (simp only: power_add ac_simps)
qed

lemma round_bits_nearest:
  assumes "0 < d"
  shows "\<bar>int (n * 2 ^ 1074) - int (d * scaled_of_bits (round_bits n d))\<bar>
    \<le> \<bar>int (n * 2 ^ 1074) - int (d * scaled_of_bits b)\<bar>"
proof -
  define x where "x = n * 2 ^ 1074"
  define s where "s = nat_log2 (x div d) - 52"
  define D where "D = d * 2 ^ s"
  define q where "q = round_div x D"
  have D: "0 < D" using assms by (simp add: D_def)
  have bits: "round_bits n d = q + s * f64_unit"
    by (simp only: round_bits_def Let_def x_def [symmetric] s_def [symmetric] D_def [symmetric] q_def)
  have lo: "f64_unit * D \<le> x" if "s \<noteq> 0"
    using round_exponent(1) [OF assms s_def that] by (simp only: D_def)
  have hi: "x < 2 * f64_unit * D"
    using round_exponent(2) [OF assms s_def] by (simp only: D_def)
  have q: "q \<le> 2 * f64_unit" "s = 0 \<or> f64_unit \<le> q"
    unfolding q_def using round_div_bounds(2) [OF D hi] round_div_bounds(1) [OF D lo] by auto
  have v: "d * scaled_of_bits (round_bits n d) = q * D"
    unfolding bits scaled_of_round [OF q] by (simp add: D_def ac_simps)
  obtain m s' where w: "scaled_of_bits b = m * 2 ^ s'" "m < 2 * f64_unit" using scaled_of_bits_form by blast
  have near: "\<bar>int x - int (q * D)\<bar> \<le> \<bar>int x - int (y * D)\<bar>" for y
    unfolding q_def by (rule round_div_nearest [OF D])
  have "\<bar>int x - int (q * D)\<bar> \<le> \<bar>int x - int (d * scaled_of_bits b)\<bar>"
  proof (cases "s \<le> s'")
    case True
    then have "d * scaled_of_bits b = m * 2 ^ (s' - s) * D"
      unfolding w D_def by (simp add: power_add [symmetric] ac_simps)
    then show ?thesis using near [of "m * 2 ^ (s' - s)"] by (simp only:)
  next
    case False
    then obtain k where k: "s = Suc (s' + k)" using less_iff_Suc_add [of s' s] by auto
    have "m * 2 ^ s' \<le> 2 * f64_unit * 2 ^ s'" using w(2) by simp
    also have "\<dots> \<le> f64_unit * 2 ^ s" by (simp add: k power_add)
    finally have "d * scaled_of_bits b \<le> f64_unit * D" unfolding w D_def by (simp add: ac_simps mult_le_mono)
    moreover have "f64_unit * D \<le> x" using lo False by simp
    ultimately show ?thesis using near [of f64_unit] by linarith
  qed
  then show ?thesis unfolding v x_def by simp
qed

lemma round_bits_0 [simp]: "round_bits 0 d = 0"
  by (simp add: round_bits_def round_div_def nat_log2.simps [of 0])

lemma nat_log2_unique:
  assumes "2 ^ l \<le> n" and "n < 2 ^ Suc l"
  shows "nat_log2 n = l"
proof -
  have "0 < n" using assms(1) by (metis gr0I not_le zero_less_numeral zero_less_power)
  note b = nat_log2_bounds [OF this]
  have "2 ^ l < (2::nat) ^ Suc (nat_log2 n)" "2 ^ nat_log2 n < (2::nat) ^ Suc l" using assms b by linarith+
  then have "l < Suc (nat_log2 n)" "nat_log2 n < Suc l" by (metis one_less_numeral_iff power_less_imp_less_exp semiring_norm(76))+
  then show ?thesis by simp
qed

lemma round_div_exact [simp]: "0 < d \<Longrightarrow> round_div (q * d) d = q"
  by (simp add: round_div_def)

text \<open>A number that is a double is converted to it.\<close>

lemma round_bits_exact:
  assumes "0 < d" and "n * 2 ^ 1074 = d * scaled_of_bits b"
  shows "round_bits n d = b"
proof -
  have sc: "(n * 2 ^ 1074) div d = scaled_of_bits b" unfolding assms(2) using assms(1) by simp
  define e where "e = b div f64_unit"
  define f where "f = b mod f64_unit"
  have b: "b = f + e * f64_unit" by (simp add: e_def f_def)
  have f: "f < f64_unit" by (simp add: f_def)
  show ?thesis
  proof (cases "e = 0")
    case True
    then have v: "scaled_of_bits b = f" by (simp add: scaled_of_bits_def e_def f_def)
    have "nat_log2 f - 52 = 0"
    proof (cases "f = 0")
      case False
      then have "2 ^ nat_log2 f \<le> f" using nat_log2_bounds by simp
      also have "f < 2 ^ 52" using f by simp
      finally show ?thesis by (metis diff_is_0_eq less_imp_le one_less_numeral_iff power_less_imp_less_exp semiring_norm(76))
    qed (simp add: nat_log2.simps [of 0])
    then show ?thesis
      using assms(1) True b unfolding round_bits_def Let_def sc v assms(2)
      by (simp add: mult.commute [of d f])
  next
    case False
    then obtain k where k: "e = Suc k" using not0_implies_Suc by blast
    have v: "scaled_of_bits b = (f64_unit + f) * 2 ^ k"
      using k unfolding scaled_of_bits_def e_def [symmetric] f_def [symmetric] by simp
    have u: "f64_unit = 2 ^ 52" by simp
    have "2 ^ (52 + k) \<le> (f64_unit + f) * 2 ^ k" unfolding u by (simp add: power_add)
    moreover have "(f64_unit + f) * 2 ^ k < 2 ^ Suc (52 + k)"
    proof -
      have "f64_unit + f < 2 ^ 53" using f by simp
      then have "(f64_unit + f) * 2 ^ k < 2 ^ 53 * 2 ^ k" by simp
      also have "\<dots> = 2 ^ Suc (52 + k)" by (simp only: power_add [symmetric]) simp
      finally show ?thesis .
    qed
    ultimately have l: "nat_log2 ((f64_unit + f) * 2 ^ k) = 52 + k" by (rule nat_log2_unique)
    have "round_div (d * ((f64_unit + f) * 2 ^ k)) (d * 2 ^ k) = f64_unit + f"
      using round_div_exact [of "d * 2 ^ k" "f64_unit + f"] assms(1) by (simp only: ac_simps) simp
    then have "round_bits n d = f64_unit + f + k * f64_unit"
      unfolding round_bits_def Let_def sc unfolding assms(2) v l using assms(1) by simp
    then show ?thesis using b k by simp
  qed
qed

lemma has_prefix_nocase_append: "has_prefix_nocase (p @ q) s \<Longrightarrow> has_prefix_nocase p s"
  unfolding has_prefix_nocase_def
  by (drule arg_cong [where f = "take (length p)"]) (simp add: take_map [symmetric])

section \<open>Strict parsing\<close>

text \<open>What a complete decimal text denotes: its sign and the number \<open>n / d\<close>.\<close>

definition denoted :: "string \<Rightarrow> (bool \<times> nat \<times> nat) option" where
  "denoted text = (let neg = (text \<noteq> [] \<and> hd text = CHR ''-'')
     in case scan_number (if neg then tl text else text) of
          Some ((n, d), r) \<Rightarrow> (if r = [] then Some (neg, n, d) else None) | None \<Rightarrow> None)"

lemma f64_of_signed:
  assumes "b < f64_sign_bit"
  shows "f64_magnitude (of_nat ((if neg then f64_sign_bit else 0) + b)) = b"
    "f64_negative (of_nat ((if neg then f64_sign_bit else 0) + b)) \<longleftrightarrow> neg"
proof -
  have "unat (of_nat ((if neg then f64_sign_bit else 0) + b) :: f64) = (if neg then f64_sign_bit else 0) + b"
    unfolding unat_of_nat using assms by simp
  then show "f64_magnitude (of_nat ((if neg then f64_sign_bit else 0) + b)) = b"
    "f64_negative (of_nat ((if neg then f64_sign_bit else 0) + b)) \<longleftrightarrow> neg"
    unfolding f64_magnitude_def f64_negative_def using assms by auto
qed

lemma scan_number_den: "scan_number s = Some ((n, d), r) \<Longrightarrow> 0 < d"
  by (auto simp: scan_number_def split: option.splits prod.splits if_splits)

lemma parse_double_strict_finite:
  assumes "parse_double_strict text = Some v" and "f64_finite v"
  obtains n d where "denoted text = Some (f64_negative v, n, d)" and "0 < d"
    and "f64_magnitude v = round_bits n d" and "round_bits n d = 0 \<longrightarrow> n = 0"
proof -
  define neg where "neg \<longleftrightarrow> text \<noteq> [] \<and> hd text = CHR ''-''"
  define s where "s = (if neg then tl text else text)"
  note sgn = f64_of_signed [where neg = neg]
  have nf: "\<not> f64_finite (of_nat ((if neg then f64_sign_bit else 0) + b))" if "f64_inf \<le> b" "b < f64_sign_bit" for b
    using that sgn(1) [of b] by (simp add: f64_finite_def)
  have ok: "from_chars_double text = CharsOk v []"
    using assms(1) by (auto simp: parse_double_strict_def split: chars_result.splits if_splits)
  then obtain n d where nd: "scan_number s = Some ((n, d), [])" "\<not> f64_inf \<le> round_bits n d"
    "\<not> (round_bits n d = 0 \<and> n \<noteq> 0)" "v = of_nat ((if neg then f64_sign_bit else 0) + round_bits n d)"
    using assms(2) nf [of f64_inf] nf [of "f64_inf + 2251799813685248"]
    unfolding from_chars_double_def Let_def neg_def [symmetric] s_def [symmetric]
    by (auto simp: add.assoc split: if_splits option.splits prod.splits)
  have "denoted text = Some (f64_negative v, n, d)"
    using nd sgn(2) [of "round_bits n d"] by (simp add: denoted_def Let_def neg_def [symmetric] s_def [symmetric])
  moreover have "f64_magnitude v = round_bits n d" using nd sgn(1) [of "round_bits n d"] by simp
  ultimately show thesis using that [of n d] scan_number_den [OF nd(1)] nd(3) by auto
qed

text \<open>(C18) Strict parsing is correctly rounded: when a text is accepted with a finite value, the whole
  text denotes a number \<open>n / d\<close> with the sign of the value, no finite double has a magnitude
  nearer to it, and the value is zero only when the number is.
\<close>
theorem parse_double_nearest:
  assumes "parse_double_strict text = Some v" and "f64_finite v"
  shows "\<exists>n d. denoted text = Some (f64_negative v, n, d) \<and> 0 < d \<and> (f64_magnitude v = 0 \<longleftrightarrow> n = 0)
    \<and> (\<forall>w. f64_finite w \<longrightarrow> \<bar>int (n * 2 ^ 1074) - int (d * f64_scaled v)\<bar>
         \<le> \<bar>int (n * 2 ^ 1074) - int (d * f64_scaled w)\<bar>)"
proof -
  obtain n d where *: "denoted text = Some (f64_negative v, n, d)" "0 < d" "f64_magnitude v = round_bits n d"
    "round_bits n d = 0 \<longrightarrow> n = 0"
    by (rule parse_double_strict_finite [OF assms])
  have "\<bar>int (n * 2 ^ 1074) - int (d * f64_scaled v)\<bar> \<le> \<bar>int (n * 2 ^ 1074) - int (d * f64_scaled w)\<bar>" for w
    unfolding f64_scaled_def *(3) by (rule round_bits_nearest [OF *(2)])
  moreover have "f64_magnitude v = 0 \<longleftrightarrow> n = 0" using *(3,4) by (auto simp: round_bits_0)
  ultimately show ?thesis using *(1,2) by (intro exI [of _ n] exI [of _ d] conjI allI impI)
qed

lemma denoted_number:
  assumes "denoted text = Some (neg, n, d)" and "\<not> has_prefix_nocase ''inf'' (if neg then tl text else text)"
    and "\<not> has_prefix_nocase ''nan'' (if neg then tl text else text)"
    and "round_bits n d < f64_inf" and "round_bits n d \<noteq> 0"
  shows "parse_double_strict text = Some (of_nat ((if neg then f64_sign_bit else 0) + round_bits n d))"
proof -
  have neg: "neg \<longleftrightarrow> text \<noteq> [] \<and> hd text = CHR ''-''"
    and sc: "scan_number (if neg then tl text else text) = Some ((n, d), [])"
    using assms(1) by (auto simp: denoted_def Let_def split: option.splits if_splits prod.splits)
  have "\<not> has_prefix_nocase ''infinity'' (if neg then tl text else text)"
    using assms(2) has_prefix_nocase_append [of "''inf''" "''inity''"] by auto
  then show ?thesis
    using assms(2-) sc
    by (simp add: parse_double_strict_def from_chars_double_def Let_def neg [symmetric])
qed

lemma one_half_text: "denoted ''0.5'' = Some (False, 5, 10)" "\<not> has_prefix_nocase ''inf'' ''0.5''"
    "\<not> has_prefix_nocase ''nan'' ''0.5''"
  by code_simp+

lemma one_half_bits: "round_bits 5 10 = 4602678819172646912"
  by (rule round_bits_exact)
    (use power_add [of "2::nat" 53 1021] in \<open>simp_all add: scaled_of_bits_def\<close>)

lemma parse_one_half: "parse_double_strict ''0.5'' = Some 4602678819172646912"
  using denoted_number [OF one_half_text(1)] one_half_text(2,3) by (simp add: one_half_bits)

theorem parse_double_nearest_witness:
  "parse_double_strict ''0.5'' = Some 4602678819172646912
   \<and> (\<exists>n d. denoted ''0.5'' = Some (False, n, d) \<and> 0 < d \<and> n \<noteq> 0)"
proof -
  have "f64_finite 4602678819172646912" "\<not> f64_negative 4602678819172646912" "f64_magnitude 4602678819172646912 \<noteq> 0"
    by (simp_all add: f64_finite_def f64_negative_def f64_magnitude_def)
  then show ?thesis using parse_double_nearest [OF parse_one_half] parse_one_half by auto
qed

end
