(* ===== verification/Message_Parser.thy ===== *)
theory Message_Parser
  imports Json_Api Double_Parse MDS_Types
begin

text \<open>
  The message parser (\<^verbatim>\<open>src/parser/parser.cpp\<close>). Every \<^verbatim>\<open>return std::nullopt\<close> and
  every caught exception is the value \<^const>\<open>None\<close>; log output is not modelled. The lemmas show
  what an accepted message guarantees to everything behind the parser: finite positive prices
  and quantities, a microsecond timestamp that did not overflow, a lower-case NUL-terminated
  symbol, a positive update id and twenty levels padded with zeros.
\<close>

definition to_lower_ascii :: "string \<Rightarrow> string" where
  "to_lower_ascii s = map lower_char s"

text \<open>The test on a price or a quantity.\<close>

definition valid_amount :: "f64 \<Rightarrow> bool" where
  "valid_amount v \<longleftrightarrow> f64_finite v \<and> \<not> f64_le_zero v"

definition parse_trade :: "'j json_api \<Rightarrow> 'j \<Rightarrow> trade option" where
  "parse_trade api j = do {
     e \<leftarrow> js_find api j ''e'';
     ensure (js_equals api e ''trade'');
     s \<leftarrow> js_find api j ''s'';
     t \<leftarrow> js_find api j ''t'';
     p \<leftarrow> js_find api j ''p'';
     q \<leftarrow> js_find api j ''q'';
     tm \<leftarrow> js_find api j ''T'';
     m \<leftarrow> js_find api j ''m'';
     ensure (js_is_string api p \<and> js_is_string api q);
     price_text \<leftarrow> js_string api p;
     qty_text \<leftarrow> js_string api q;
     pr \<leftarrow> parse_double_strict price_text;
     qt \<leftarrow> parse_double_strict qty_text;
     ensure (valid_amount pr \<and> valid_amount qt);
     ts_ms \<leftarrow> js_int64 api tm;
     ensure (0 < sint ts_ms \<and> sint ts_ms \<le> i64_max div 1000);
     tid \<leftarrow> js_int64 api t;
     maker \<leftarrow> js_bool api m;
     sname \<leftarrow> js_string api s;
     Some (set_symbol (bytes_of_string (to_lower_ascii sname))
       (zero_trade\<lparr>price := pr, quantity := qt, exchange_ts_us := ts_ms * 1000, trade_id := tid,
                   is_buyer_maker := maker\<rparr>))
   }"

text \<open>The overload that takes the text of the message.\<close>

definition parse_trade_text :: "'j json_api \<Rightarrow> string \<Rightarrow> trade option" where
  "parse_trade_text api text = js_parse api text \<bind> parse_trade api"

definition parse_level :: "'j json_api \<Rightarrow> 'j \<Rightarrow> orderbook_level option" where
  "parse_level api level = do {
     ensure (js_is_array api level \<and> 2 \<le> length (js_items api level));
     ensure (js_is_string api (js_items api level ! 0) \<and> js_is_string api (js_items api level ! 1));
     price_text \<leftarrow> js_string api (js_items api level ! 0);
     pr \<leftarrow> parse_double_strict price_text;
     qty_text \<leftarrow> js_string api (js_items api level ! 1);
     qt \<leftarrow> parse_double_strict qty_text;
     ensure (valid_amount pr \<and> valid_amount qt);
     Some \<lparr>level_price = pr, level_quantity = qt\<rparr>
   }"

definition parse_levels :: "'j json_api \<Rightarrow> 'j \<Rightarrow> orderbook_level list option" where
  "parse_levels api arr = do {
     ensure (js_is_array api arr);
     ls \<leftarrow> those (map (parse_level api) (take ORDERBOOK_DEPTH (js_items api arr)));
     Some (ls @ replicate (ORDERBOOK_DEPTH - length ls) zero_level)
   }"

definition parse_orderbook :: "'j json_api \<Rightarrow> 'j \<Rightarrow> string \<Rightarrow> orderbook_snapshot option" where
  "parse_orderbook api j sname = do {
     bs \<leftarrow> js_find api j ''bids'';
     as \<leftarrow> js_find api j ''asks'';
     v \<leftarrow> js_find api j ''lastUpdateId'';
     ensure (js_is_integer api v);
     uid \<leftarrow> js_int64 api v;
     ensure (0 < sint uid);
     b \<leftarrow> parse_levels api bs;
     a \<leftarrow> parse_levels api as;
     Some (ob_set_symbol (bytes_of_string (to_lower_ascii sname))
       (zero_orderbook\<lparr>last_update_id := uid\<rparr>)\<lparr>bids := b, asks := a\<rparr>)
   }"

definition parse_orderbook_text :: "'j json_api \<Rightarrow> string \<Rightarrow> string \<Rightarrow> orderbook_snapshot option" where
  "parse_orderbook_text api text sname = js_parse api text \<bind> (\<lambda>j. parse_orderbook api j sname)"

section \<open>Accepted values\<close>

lemma valid_amount_iff: "valid_amount v \<longleftrightarrow> 0 < unat v \<and> unat v < f64_inf"
proof (cases "unat v < f64_sign_bit")
  case True
  then have "f64_magnitude v = unat v" "\<not> f64_negative v" by (simp_all add: f64_magnitude_def f64_negative_def)
  then show ?thesis by (auto simp: valid_amount_def f64_finite_def f64_le_zero_def)
next
  case False
  then have "f64_negative v" by (simp add: f64_negative_def)
  with False show ?thesis by (auto simp: valid_amount_def f64_finite_def f64_le_zero_def)
qed

lemma ms_to_us:
  assumes "0 < sint (w :: i64)" and "sint w \<le> i64_max div 1000"
  shows "sint (w * 1000) = sint w * 1000"
proof -
  have "in_i64 (sint w * 1000)" using assms by (simp add: in_i64_def)
  then have "sint (word_of_int (sint w * 1000) :: i64) = sint w * 1000" by (rule sint_of_in_i64)
  then show ?thesis by (simp only: of_int_mult of_int_sint) simp
qed

text \<open>The characters of a symbol are lower-cased one by one; those that were not upper case stay.\<close>

lemma lower_char_not_upper: "\<not> (65 \<le> (of_char (lower_char c) :: nat) \<and> (of_char (lower_char c) :: nat) \<le> 90)"
  by (auto simp: lower_char_def)

lemma lower_char_idem [simp]: "lower_char (lower_char c) = lower_char c"
  unfolding lower_char_def [of "lower_char c"] using lower_char_not_upper [of c] by (simp only: if_False)

lemma to_lower_ascii_idem [simp]: "to_lower_ascii (to_lower_ascii s) = to_lower_ascii s"
  by (simp add: to_lower_ascii_def)

lemma length_set_symbol_bytes [simp]: "0 < length arr \<Longrightarrow> length (set_symbol_bytes arr n) = length arr"
  by (cases arr) (simp_all add: set_symbol_bytes_def Let_def overwrite_def)

lemma take_min_length: "take (min (length xs) k) xs = take k xs"
  by (simp add: min_def)

lemma c_string_set_symbol:
  assumes "0 < length arr"
  shows "c_string (set_symbol_bytes arr n) = c_string (take (length arr - 1) n)"
proof -
  let ?l = "min (length n) (length arr - 1)"
  have "set_symbol_bytes arr n = take ?l n @ 0 # drop (Suc ?l) arr"
    using assms by (simp add: set_symbol_bytes_def Let_def overwrite_def)
  then have "c_string (set_symbol_bytes arr n) = c_string (take ?l n)"
    by (simp add: c_string_def takeWhile_tail)
  then show ?thesis by (simp add: take_min_length)
qed

lemma those_Some_iff: "those xs = Some ys \<longleftrightarrow> xs = map Some ys"
  by (induction xs arbitrary: ys) (auto split: option.splits simp: Cons_eq_map_conv)

lemma parse_levels_valid:
  assumes "parse_levels api arr = Some ls"
  shows "length ls = ORDERBOOK_DEPTH
    \<and> (\<forall>i < min ORDERBOOK_DEPTH (length (js_items api arr)).
         parse_level api (js_items api arr ! i) = Some (ls ! i)
         \<and> valid_amount (level_price (ls ! i)) \<and> valid_amount (level_quantity (ls ! i)))
    \<and> (\<forall>i. length (js_items api arr) \<le> i \<and> i < ORDERBOOK_DEPTH \<longrightarrow> ls ! i = zero_level)"
proof -
  obtain ps where ps: "map (parse_level api) (take ORDERBOOK_DEPTH (js_items api arr)) = map Some ps"
    and ls: "ls = ps @ replicate (ORDERBOOK_DEPTH - length ps) zero_level"
    using assms by (auto simp: parse_levels_def those_Some_iff split: if_splits bind_splits)
  have len: "length ps = min ORDERBOOK_DEPTH (length (js_items api arr))"
    using arg_cong [OF ps, of length] by simp
  have lv: "parse_level api v = Some l \<Longrightarrow> valid_amount (level_price l) \<and> valid_amount (level_quantity l)" for v l
    by (auto simp: parse_level_def split: if_splits bind_splits)
  have nth: "parse_level api (js_items api arr ! i) = Some (ps ! i)" if "i < length ps" for i
    using arg_cong [OF ps, of "\<lambda>xs. xs ! i"] that len by simp
  show ?thesis using ls len nth lv by (auto simp: nth_append)
qed

lemma parse_trade_wf: "parse_trade api j = Some t \<Longrightarrow> trade_wf t \<and> crc32 t = 0"
  by (auto simp: parse_trade_def trade_wf_def set_symbol_def zero_trade_def split: if_splits bind_splits)

lemma parse_orderbook_wf: "parse_orderbook api j n = Some b \<Longrightarrow> orderbook_wf b \<and> ob_crc32 b = 0"
  by (auto simp: parse_orderbook_def orderbook_wf_def ob_set_symbol_def zero_orderbook_def dest: parse_levels_valid
      split: if_splits bind_splits)

section \<open>Properties\<close>

text \<open>(C19) What an accepted trade guarantees: its price and quantity are the correctly rounded values of
  the message's texts and are positive finite doubles (bit patterns strictly between zero and
  infinity), its exchange time is exactly one thousand times a positive millisecond time, and
  its symbol is the NUL-terminated, lower-cased name, cut to fifteen characters. Nothing else
  of the record is set.
\<close>
theorem parse_trade_valid:
  assumes "parse_trade api j = Some t"
  shows "trade_wf t \<and> 0 < unat (price t) \<and> unat (price t) < f64_inf
    \<and> 0 < unat (quantity t) \<and> unat (quantity t) < f64_inf
    \<and> (\<exists>p text. js_find api j ''p'' = Some p \<and> js_string api p = Some text \<and> parse_double_strict text = Some (price t))
    \<and> (\<exists>q text. js_find api j ''q'' = Some q \<and> js_string api q = Some text \<and> parse_double_strict text = Some (quantity t))
    \<and> (\<exists>v ms. js_find api j ''T'' = Some v \<and> js_int64 api v = Some ms \<and> 0 < sint ms
         \<and> sint (exchange_ts_us t) = sint ms * 1000)
    \<and> (\<exists>v s. js_find api j ''s'' = Some v \<and> js_string api v = Some s
         \<and> c_string (symbol t) = c_string (take 15 (bytes_of_string (to_lower_ascii s))))
    \<and> (\<exists>v. js_find api j ''t'' = Some v \<and> js_int64 api v = Some (trade_id t))
    \<and> recv_ts_us t = 0 \<and> crc32 t = 0"
proof -
  obtain p q tm s tv m pt qt pr qy ms i b n where *:
    "js_find api j ''p'' = Some p" "js_find api j ''q'' = Some q" "js_find api j ''T'' = Some tm"
    "js_find api j ''s'' = Some s" "js_find api j ''t'' = Some tv" "js_string api p = Some pt" "js_string api q = Some qt"
    "parse_double_strict pt = Some pr" "parse_double_strict qt = Some qy" "valid_amount pr" "valid_amount qy"
    "js_int64 api tm = Some ms" "0 < sint ms" "sint ms \<le> i64_max div 1000" "js_int64 api tv = Some i"
    "js_string api s = Some n"
    and t: "t = set_symbol (bytes_of_string (to_lower_ascii n))
       (zero_trade\<lparr>price := pr, quantity := qy, exchange_ts_us := ms * 1000, trade_id := i, is_buyer_maker := b\<rparr>)"
    using assms by (auto simp: parse_trade_def split: if_splits bind_splits)
  have "trade_wf t" "price t = pr" "quantity t = qy" "exchange_ts_us t = ms * 1000" "trade_id t = i"
    "recv_ts_us t = 0" "crc32 t = 0"
    by (simp_all add: t trade_wf_def set_symbol_def zero_trade_def)
  moreover have "c_string (symbol t) = c_string (take 15 (bytes_of_string (to_lower_ascii n)))"
    using c_string_set_symbol [of "replicate 16 0"] by (simp add: t set_symbol_def zero_trade_def)
  ultimately show ?thesis using * ms_to_us [OF *(13,14)] by (simp add: valid_amount_iff)
qed

text \<open>(C20) What an accepted order book guarantees: a positive update id, the lower-cased stream symbol, and on
  both sides exactly twenty levels, of which those present in the message are their parsed
  values, positive and finite, and the others are zero.
\<close>
theorem parse_orderbook_valid:
  assumes "parse_orderbook api j n = Some b"
  shows "orderbook_wf b \<and> 0 < sint (last_update_id b)
    \<and> c_string (ob_symbol b) = c_string (take 15 (bytes_of_string (to_lower_ascii n)))
    \<and> (\<exists>bs as. js_find api j ''bids'' = Some bs \<and> js_find api j ''asks'' = Some as
        \<and> (\<forall>(ls, v) \<in> {(bids b, bs), (asks b, as)}.
             (\<forall>i < min ORDERBOOK_DEPTH (length (js_items api v)).
                parse_level api (js_items api v ! i) = Some (ls ! i)
                \<and> valid_amount (level_price (ls ! i)) \<and> valid_amount (level_quantity (ls ! i)))
           \<and> (\<forall>i. length (js_items api v) \<le> i \<and> i < ORDERBOOK_DEPTH \<longrightarrow> ls ! i = zero_level)))
    \<and> ob_exchange_ts_us b = 0 \<and> ob_recv_ts_us b = 0 \<and> ob_crc32 b = 0"
proof -
  obtain bs as v uid lb la where *: "js_find api j ''bids'' = Some bs" "js_find api j ''asks'' = Some as"
    "0 < sint uid" "parse_levels api bs = Some lb" "parse_levels api as = Some la"
    and b: "b = ob_set_symbol (bytes_of_string (to_lower_ascii n))
       (zero_orderbook\<lparr>last_update_id := uid\<rparr>)\<lparr>bids := lb, asks := la\<rparr>"
    using assms by (auto simp: parse_orderbook_def split: if_splits bind_splits)
  note vb = parse_levels_valid [OF *(4)] and va = parse_levels_valid [OF *(5)]
  have "orderbook_wf b" using vb va by (simp add: b orderbook_wf_def ob_set_symbol_def zero_orderbook_def)
  moreover have "c_string (ob_symbol b) = c_string (take 15 (bytes_of_string (to_lower_ascii n)))"
    using c_string_set_symbol [of "replicate 16 0"] by (simp add: b ob_set_symbol_def zero_orderbook_def)
  moreover have "last_update_id b = uid" "bids b = lb" "asks b = la" "ob_exchange_ts_us b = 0"
    "ob_recv_ts_us b = 0" "ob_crc32 b = 0"
    by (simp_all add: b ob_set_symbol_def zero_orderbook_def)
  ultimately show ?thesis using * vb va by auto
qed

section \<open>Concrete messages\<close>

text \<open>The business part of a trade message and of a depth message with one level per side, every
  amount being \<open>0.5\<close>.\<close>

definition trade_data :: "string \<Rightarrow> int \<Rightarrow> jvalue" where
  "trade_data n i = JObject [(''e'', JString ''trade''), (''s'', JString n), (''t'', JInt i), (''p'', JString ''0.5''),
     (''q'', JString ''0.5''), (''T'', JInt 1700000000000), (''m'', JBool True)]"

definition depth_data :: "int \<Rightarrow> jvalue" where
  "depth_data i = JObject [(''lastUpdateId'', JInt i), (''bids'', JArray [JArray [JString ''0.5'', JString ''0.5'']]),
     (''asks'', JArray [JArray [JString ''0.5'', JString ''0.5'']])]"

lemma valid_amount_half: "valid_amount 4602678819172646912"
  by (simp add: valid_amount_iff)

lemma parse_trade_data:
  "parse_trade (jvalue_api pf) (trade_data n i)
     = Some (set_symbol (bytes_of_string (to_lower_ascii n))
         (zero_trade\<lparr>price := 4602678819172646912, quantity := 4602678819172646912,
           exchange_ts_us := 1700000000000000, trade_id := of_int i, is_buyer_maker := True\<rparr>))"
  by (simp add: parse_trade_def trade_data_def parse_one_half valid_amount_half)

lemma parse_depth_data:
  assumes "0 < i" and "i \<le> i64_max"
  shows "\<exists>b. parse_orderbook (jvalue_api pf) (depth_data i) n = Some b \<and> last_update_id b = of_int i"
proof -
  have "sint (word_of_int i :: i64) = i" using assms by (simp add: in_i64_def)
  then show ?thesis
    using assms(1)
    by (simp add: parse_orderbook_def depth_data_def parse_levels_def parse_level_def parse_one_half valid_amount_half
        ob_set_symbol_def)
qed

theorem parse_trade_valid_witness:
  "\<exists>t. parse_trade (jvalue_api (\<lambda>_. None)) (trade_data ''BTCUSDT'' 7) = Some t \<and> trade_wf t
     \<and> 0 < unat (price t) \<and> unat (price t) < f64_inf"
proof -
  obtain t where t: "parse_trade (jvalue_api (\<lambda>_. None)) (trade_data ''BTCUSDT'' 7) = Some t"
    by (simp only: parse_trade_data)
  note v = parse_trade_valid [OF this]
  show ?thesis by (intro exI [of _ t] conjI t v [THEN conjunct1] v [THEN conjunct2, THEN conjunct1]
        v [THEN conjunct2, THEN conjunct2, THEN conjunct1])
qed

theorem parse_orderbook_valid_witness:
  "\<exists>b. parse_orderbook (jvalue_api (\<lambda>_. None)) (depth_data 5) ''btcusdt'' = Some b \<and> orderbook_wf b \<and> 0 < sint (last_update_id b)"
proof -
  obtain b where b: "parse_orderbook (jvalue_api (\<lambda>_. None)) (depth_data 5) ''btcusdt'' = Some b"
    using parse_depth_data [of 5 "\<lambda>_. None" "''btcusdt''"] by auto
  note v = parse_orderbook_valid [OF this]
  show ?thesis by (intro exI [of _ b] conjI b v [THEN conjunct1] v [THEN conjunct2, THEN conjunct1])
qed

end
