(* ===== verification/Config_Load.thy ===== *)
theory Config_Load
  imports Json_Api
begin

text \<open>
  The configuration of the process, \<^verbatim>\<open>Config\<close> and \<^verbatim>\<open>DataSourceConfig\<close> of
  \<^verbatim>\<open>src/config/config.h\<close>. \<open>config_load\<close> is \<^verbatim>\<open>Config::load\<close>: the contents of the file
  (\<^const>\<open>None\<close> when it cannot be opened), the environment and the JSON library are its
  arguments, and every exception is a value of \<open>config_error\<close>. The callers drop the object
  when \<^verbatim>\<open>load\<close> throws, so an error carries no configuration. Warnings about unknown
  keys are output only; the iteration behind them throws on a document that is not an object.
\<close>

section \<open>The configuration\<close>

record data_source =
  ds_name :: string
  ds_ws_url :: string
  ds_priority :: int
  ds_enabled :: bool

record config =
  data_sources :: "data_source list"
  cfg_symbols :: "string list"
  cfg_data_dir :: string
  ring_buffer_size :: nat
  reconnect_interval_ms :: int
  max_reconnect_attempts :: int
  proxy_url :: string
  ping_interval_ms :: int
  no_data_timeout_ms :: int
  enable_data_recovery :: bool
  rest_api_url :: string
  log_level :: int
  pin_cpu :: int

definition default_config :: config where
  "default_config = \<lparr>
     data_sources = [\<lparr>ds_name = ''binance_main'', ds_ws_url = ''wss://stream.binance.com:9443/stream'',
                      ds_priority = 0, ds_enabled = True\<rparr>],
     cfg_symbols = [''btcusdt'', ''ethusdt''], cfg_data_dir = ''./data'', ring_buffer_size = 100000,
     reconnect_interval_ms = 100, max_reconnect_attempts = 0, proxy_url = [], ping_interval_ms = 1000,
     no_data_timeout_ms = 3000, enable_data_recovery = True, rest_api_url = ''https://api.binance.com'',
     log_level = 1, pin_cpu = - 1\<rparr>"

datatype config_error =
    ConfigParse            \<comment> \<open>\<open>Config parse error\<close>\<close>
  | ConfigJson             \<comment> \<open>an exception of the JSON library that \<open>load\<close> does not catch\<close>
  | ConfigRingType
  | ConfigRingRange
  | ConfigProxyType
  | ConfigReconnect
  | ConfigPing
  | ConfigNoData
  | ConfigTiming

section \<open>Reading the fields\<close>

text \<open>\<open>if (j.contains(k)) x = j[k].get<T>()\<close>: a missing key keeps the value.\<close>

definition override :: "'j json_api \<Rightarrow> 'j \<Rightarrow> string \<Rightarrow> ('j \<Rightarrow> 'a option) \<Rightarrow> 'a \<Rightarrow> config_error + 'a" where
  "override api j k get old = (case js_find api j k of None \<Rightarrow> Inr old
     | Some v \<Rightarrow> (case get v of None \<Rightarrow> Inl ConfigJson | Some x \<Rightarrow> Inr x))"

abbreviation kMaxRingBufferSize :: int where "kMaxRingBufferSize \<equiv> 100000000"

definition load_ring_size :: "'j json_api \<Rightarrow> 'j \<Rightarrow> nat \<Rightarrow> config_error + nat" where
  "load_ring_size api j old = (case js_find api j ''ring_buffer_size'' of None \<Rightarrow> Inr old
     | Some v \<Rightarrow>
         if \<not> js_is_integer api v then Inl ConfigRingType
         else if js_is_unsigned api v \<and> js_uint64 api v = None then Inl ConfigJson
         else if js_is_unsigned api v \<and> kMaxRingBufferSize < uint (the (js_uint64 api v)) then Inl ConfigRingRange
         else (case js_int64 api v of None \<Rightarrow> Inl ConfigJson
           | Some raw \<Rightarrow> if sint raw \<le> 0 \<or> kMaxRingBufferSize < sint raw then Inl ConfigRingRange
               else Inr (nat (sint raw))))"

text \<open>The proxy: the key of the file wins, even when it is empty; otherwise the first non-empty
  variable of the environment.\<close>

definition load_proxy :: "'j json_api \<Rightarrow> (string \<Rightarrow> string option) \<Rightarrow> 'j \<Rightarrow> string \<Rightarrow> config_error + string" where
  "load_proxy api env j old = (case js_find api j ''proxy_url'' of
       Some v \<Rightarrow> if \<not> js_is_string api v then Inl ConfigProxyType
         else (case js_string api v of None \<Rightarrow> Inl ConfigJson | Some s \<Rightarrow> Inr s)
     | None \<Rightarrow>
         (let e1 = env ''https_proxy'';
              e2 = (if e1 = None \<or> e1 = Some [] then env ''HTTPS_PROXY'' else e1)
          in Inr (if e2 \<noteq> None \<and> e2 \<noteq> Some [] then the e2 else old)))"

definition load_data_source :: "'j json_api \<Rightarrow> 'j \<Rightarrow> config_error + data_source" where
  "load_data_source api ds =
     (case do {
        nm \<leftarrow> js_value api (js_string api) ds ''name'' ''unnamed'';
        url \<leftarrow> js_value api (js_string api) ds ''ws_url'' [];
        pr \<leftarrow> js_value api (\<lambda>v. map_option sint (js_int api v)) ds ''priority'' 0;
        en \<leftarrow> js_value api (js_bool api) ds ''enabled'' True;
        Some \<lparr>ds_name = nm, ds_ws_url = url, ds_priority = pr, ds_enabled = en\<rparr>
      } of None \<Rightarrow> Inl ConfigJson | Some d \<Rightarrow> Inr d)"

primrec load_data_source_list :: "'j json_api \<Rightarrow> 'j list \<Rightarrow> config_error + data_source list" where
  "load_data_source_list api [] = Inr []"
| "load_data_source_list api (d # ds) = (case load_data_source api d of Inl e \<Rightarrow> Inl e
     | Inr s \<Rightarrow> (case load_data_source_list api ds of Inl e \<Rightarrow> Inl e | Inr ss \<Rightarrow> Inr (s # ss)))"

definition load_data_sources :: "'j json_api \<Rightarrow> 'j \<Rightarrow> data_source list \<Rightarrow> config_error + data_source list" where
  "load_data_sources api j old = (case js_find api j ''data_sources'' of None \<Rightarrow> Inr old
     | Some v \<Rightarrow> load_data_source_list api (js_items api v))"

definition check_timing :: "config \<Rightarrow> config_error + config" where
  "check_timing c =
     (if reconnect_interval_ms c \<le> 0 then Inl ConfigReconnect
      else if ping_interval_ms c \<le> 0 then Inl ConfigPing
      else if no_data_timeout_ms c \<le> 0 then Inl ConfigNoData
      else if \<not> (ping_interval_ms c < no_data_timeout_ms c) then Inl ConfigTiming
      else Inr c)"

definition bind_sum :: "'e + 'a \<Rightarrow> ('a \<Rightarrow> 'e + 'b) \<Rightarrow> 'e + 'b" where
  "bind_sum m f = (case m of Inl e \<Rightarrow> Inl e | Inr x \<Rightarrow> f x)"

definition config_of_json :: "'j json_api \<Rightarrow> (string \<Rightarrow> string option) \<Rightarrow> 'j \<Rightarrow> config \<Rightarrow> config_error + config" where
  "config_of_json api env j c =
     (if js_item_keys api j = None then Inl ConfigJson else
      bind_sum (override api j ''symbols'' (js_strings api) (cfg_symbols c)) (\<lambda>syms.
      bind_sum (override api j ''data_dir'' (js_string api) (cfg_data_dir c)) (\<lambda>dir.
      bind_sum (load_ring_size api j (ring_buffer_size c)) (\<lambda>ring.
      bind_sum (override api j ''reconnect_interval_ms'' (\<lambda>v. map_option sint (js_int api v)) (reconnect_interval_ms c)) (\<lambda>rc.
      bind_sum (override api j ''ping_interval_ms'' (\<lambda>v. map_option sint (js_int api v)) (ping_interval_ms c)) (\<lambda>pg.
      bind_sum (override api j ''no_data_timeout_ms'' (\<lambda>v. map_option sint (js_int api v)) (no_data_timeout_ms c)) (\<lambda>nd.
      bind_sum (override api j ''log_level'' (\<lambda>v. map_option sint (js_int api v)) (log_level c)) (\<lambda>lg.
      bind_sum (override api j ''enable_data_recovery'' (js_bool api) (enable_data_recovery c)) (\<lambda>rec.
      bind_sum (override api j ''rest_api_url'' (js_string api) (rest_api_url c)) (\<lambda>rest.
      bind_sum (load_proxy api env j (proxy_url c)) (\<lambda>proxy.
      bind_sum (load_data_sources api j (data_sources c)) (\<lambda>srcs.
        check_timing (c\<lparr>cfg_symbols := syms, cfg_data_dir := dir, ring_buffer_size := ring,
          reconnect_interval_ms := rc, ping_interval_ms := pg, no_data_timeout_ms := nd, log_level := lg,
          enable_data_recovery := rec, rest_api_url := rest, proxy_url := proxy, data_sources := srcs\<rparr>)))))))))))))"

definition config_load :: "'j json_api \<Rightarrow> (string \<Rightarrow> string option) \<Rightarrow> string option \<Rightarrow> config \<Rightarrow> config_error + config" where
  "config_load api env contents c = (case contents of None \<Rightarrow> Inr c
     | Some text \<Rightarrow> (case js_read api text of None \<Rightarrow> Inl ConfigParse | Some j \<Rightarrow> config_of_json api env j c))"

section \<open>What a loaded configuration satisfies\<close>

definition config_valid :: "config \<Rightarrow> bool" where
  "config_valid c \<longleftrightarrow> 1 \<le> ring_buffer_size c \<and> int (ring_buffer_size c) \<le> kMaxRingBufferSize
     \<and> 0 < reconnect_interval_ms c \<and> 0 < ping_interval_ms c \<and> ping_interval_ms c < no_data_timeout_ms c"

lemma default_config_valid [simp]: "config_valid default_config"
  by (simp add: config_valid_def default_config_def)

lemma bind_sum_Inr: "bind_sum m f = Inr y \<longleftrightarrow> (\<exists>x. m = Inr x \<and> f x = Inr y)"
  by (cases m) (simp_all add: bind_sum_def)

lemma override_Inr:
  "override api j k get old = Inr x \<longleftrightarrow>
     (case js_find api j k of None \<Rightarrow> x = old | Some v \<Rightarrow> get v = Some x)"
  by (auto simp: override_def split: option.splits)

lemma load_ring_size_Inr:
  assumes "load_ring_size api j old = Inr n"
  shows "js_find api j ''ring_buffer_size'' = None \<and> n = old
    \<or> 1 \<le> n \<and> int n \<le> kMaxRingBufferSize
      \<and> (\<exists>v raw. js_find api j ''ring_buffer_size'' = Some v \<and> js_int64 api v = Some raw \<and> int n = sint raw)"
  using assms by (auto simp: load_ring_size_def split: option.splits if_splits)

lemma check_timing_Inr:
  "check_timing c = Inr c' \<longleftrightarrow> c' = c \<and> 0 < reconnect_interval_ms c \<and> 0 < ping_interval_ms c
     \<and> ping_interval_ms c < no_data_timeout_ms c"
  by (auto simp: check_timing_def)

lemma config_of_json_valid:
  assumes "config_of_json api env j c = Inr c'" and "config_valid c"
  shows "config_valid c'"
proof -
  obtain syms dir ring rc pg nd lg rec rest proxy srcs where
    ring: "load_ring_size api j (ring_buffer_size c) = Inr ring"
    and "check_timing (c\<lparr>cfg_symbols := syms, cfg_data_dir := dir, ring_buffer_size := ring,
          reconnect_interval_ms := rc, ping_interval_ms := pg, no_data_timeout_ms := nd, log_level := lg,
          enable_data_recovery := rec, rest_api_url := rest, proxy_url := proxy, data_sources := srcs\<rparr>) = Inr c'"
    using assms(1) by (auto simp: config_of_json_def bind_sum_Inr split: if_splits)
  then show ?thesis
    using load_ring_size_Inr [OF ring] assms(2) by (auto simp: check_timing_Inr config_valid_def)
qed

lemma config_load_keeps_valid: "config_load api env contents c = Inr c' \<Longrightarrow> config_valid c \<Longrightarrow> config_valid c'"
  by (auto simp: config_load_def split: option.splits intro: config_of_json_valid)


text \<open>The first offending field decides the error of a document whose other fields are readable: a ring
  size that is not an integer, or is not between 1 and \<open>10 ^ 8\<close> (also as an unsigned number
  above the \<open>int64_t\<close> range), and then the order of the timing checks.
\<close>
theorem config_load_rejects:
  assumes "js_read api text = Some j" and "js_item_keys api j = Some ks"
    and "js_find api j = [''ring_buffer_size'' \<mapsto> v]"
    and "\<not> js_is_integer api v
      \<or> js_int64 api v = Some raw \<and> js_uint64 api v = Some u
        \<and> (js_is_unsigned api v \<and> kMaxRingBufferSize < uint u \<or> sint raw \<le> 0 \<or> kMaxRingBufferSize < sint raw)"
  shows "config_load api env (Some text) c = Inl (if js_is_integer api v then ConfigRingRange else ConfigRingType)"
  using assms
  by (auto simp: config_load_def config_of_json_def bind_sum_def override_def load_ring_size_def)

section \<open>Witnesses\<close>

definition sample_config :: jvalue where
  "sample_config = JObject [(''symbols'', JArray [JString ''BTCUSDT'']), (''ring_buffer_size'', JInt 500), (''proxy_url'', JString [])]"

lemma sample_config_loads:
  "\<exists>c. config_load (jvalue_api (\<lambda>_. Some sample_config)) (\<lambda>_. Some ''http://p:1'') (Some []) default_config = Inr c
     \<and> ring_buffer_size c = 500 \<and> proxy_url c = [] \<and> cfg_symbols c = [''BTCUSDT'']"
  by (simp add: config_load_def config_of_json_def bind_sum_def override_def load_ring_size_def load_proxy_def
      load_data_sources_def check_timing_def sample_config_def default_config_def)


theorem config_load_rejects_witness:
  "config_load (jvalue_api (\<lambda>_. Some (JObject [(''ring_buffer_size'', JInt 0)]))) (\<lambda>_. None) (Some []) default_config
     = Inl ConfigRingRange"
  using config_load_rejects [of "jvalue_api (\<lambda>_. Some (JObject [(''ring_buffer_size'', JInt 0)]))" "[]"
      "JObject [(''ring_buffer_size'', JInt 0)]" "[''ring_buffer_size'']" "JInt 0" 0 0 "\<lambda>_. None" default_config]
  by (simp add: fun_eq_iff)

end
