(* ===== verification/Message_Handler.thy ===== *)
theory Message_Handler
  imports Metrics Trade_Seq_Gate Clock_Offset Message_Parser Config_Load
begin

text \<open>
  The message path of \<^verbatim>\<open>ConnectionManager\<close>: \<^verbatim>\<open>on_raw_message\<close> of
  \<^verbatim>\<open>src/network/connection_manager.cpp\<close> with everything it calls. One thread runs it, so a
  message is one step of the state \<open>conn\<close>. The clock readings the handler takes are an
  argument, the JSON library is the parameter \<open>api\<close>, and the callbacks are functions on the
  metrics and an arbitrary user state that also say whether they threw. \<^const>\<open>None\<close> is a
  signed overflow. Log output and the affinity call on the first message are not modelled
  beyond the flag that is set. The lemmas show that what reaches a callback is decided per
  symbol by the gate and the update ids alone.
\<close>

section \<open>State and arguments\<close>

record 'u conn =
  pin_attempted :: bool
  trade_seq_gates :: "string \<rightharpoonup> gate"
  last_orderbook_update_id :: "string \<rightharpoonup> int"
  clock_calibrator :: calibrator
  conn_metrics :: metrics
  user :: 'u

definition new_conn :: "'u \<Rightarrow> 'u conn" where
  "new_conn u = \<lparr>pin_attempted = False, trade_seq_gates = Map.empty, last_orderbook_update_id = Map.empty,
     clock_calibrator = new_calibrator, conn_metrics = new_metrics, user = u\<rparr>"

text \<open>A callback may be absent; the last component of its result says that it threw.\<close>

type_synonym ('r, 'u) callback = "('r \<Rightarrow> metrics \<Rightarrow> 'u \<Rightarrow> metrics \<times> 'u \<times> bool) option"

record 'u callbacks =
  on_trade :: "(trade, 'u) callback"
  on_orderbook :: "(orderbook_snapshot, 'u) callback"

text \<open>Readings of the steady clock in nanoseconds and of the wall clock in microseconds.\<close>

record raw_clock =
  t_enter :: int
  wall_us :: i64
  t_after_json :: int
  t_after_biz :: int
  t_after_cb :: int
  t_exit :: int

abbreviation with_metrics :: "(metrics \<Rightarrow> metrics) \<Rightarrow> 'u conn \<Rightarrow> 'u conn" where
  "with_metrics f c \<equiv> c\<lparr>conn_metrics := f (conn_metrics c)\<rparr>"

definition on_metrics :: "(metrics \<Rightarrow> metrics option) \<Rightarrow> 'u conn \<Rightarrow> 'u conn option" where
  "on_metrics f c = map_option (\<lambda>m. c\<lparr>conn_metrics := m\<rparr>) (f (conn_metrics c))"

definition count_parse_error :: "'u conn \<Rightarrow> 'u conn" where
  "count_parse_error = with_metrics (\<lambda>m. m\<lparr>parse_errors := parse_errors m + 1\<rparr>)"

section \<open>Routing\<close>

datatype 'j route = RouteError | Control | Routed string string 'j

definition subscribed :: "config \<Rightarrow> string \<Rightarrow> bool" where
  "subscribed cfg n \<longleftrightarrow> (\<exists>s \<in> set (cfg_symbols cfg). to_lower_ascii s = n)"

definition route :: "'j json_api \<Rightarrow> config \<Rightarrow> string \<Rightarrow> 'j route" where
  "route api cfg msg = (case js_parse api msg of None \<Rightarrow> RouteError
     | Some outer \<Rightarrow> (case (js_find api outer ''stream'', js_find api outer ''data'') of
         (Some sv, Some dv) \<Rightarrow> (case js_string api sv of None \<Rightarrow> RouteError
           | Some stream_name \<Rightarrow>
               (let before = takeWhile (\<lambda>ch. ch \<noteq> CHR ''@'') stream_name;
                    after = dropWhile (\<lambda>ch. ch \<noteq> CHR ''@'') stream_name
                in if after = [] \<or> before = [] then RouteError
                   else if \<not> subscribed cfg (to_lower_ascii before) then RouteError
                   else Routed (to_lower_ascii before) (tl after) dv))
       | _ \<Rightarrow> Control))"

section \<open>The handlers\<close>

definition safe_invoke :: "('r, 'u) callback \<Rightarrow> 'r \<Rightarrow> 'u conn \<Rightarrow> 'u conn" where
  "safe_invoke cb payload c = (case cb of None \<Rightarrow> c
     | Some f \<Rightarrow> (case f payload (conn_metrics c) (user c) of (m, u, threw) \<Rightarrow>
         c\<lparr>user := u, conn_metrics := (if threw then m\<lparr>callback_errors := callback_errors m + 1\<rparr> else m)\<rparr>))"

definition stamp_recv :: "trade \<Rightarrow> i64 \<Rightarrow> trade" where
  "stamp_recv t ts = t\<lparr>recv_ts_us := ts\<rparr>"

definition ob_stamp_recv :: "orderbook_snapshot \<Rightarrow> i64 \<Rightarrow> orderbook_snapshot" where
  "ob_stamp_recv b ts = b\<lparr>ob_recv_ts_us := ts\<rparr>"

text \<open>The two segments recorded as soon as the business part is parsed.\<close>

definition record_parse_segments :: "raw_clock \<Rightarrow> 'u conn \<Rightarrow> 'u conn option" where
  "record_parse_segments clk c = do {
     c1 \<leftarrow> on_metrics (record_segment_us json_parse_latency_update (t_enter clk) (t_after_json clk)) c;
     on_metrics (record_segment_us biz_parse_latency_update (t_after_json clk) (t_after_biz clk)) c1
   }"

definition record_exchange_latency :: "trade \<Rightarrow> 'u conn \<Rightarrow> 'u conn option" where
  "record_exchange_latency t c =
     (if sint (exchange_ts_us t) > 0 then do {
        lat \<leftarrow> exchange_to_recv_us (sint (exchange_ts_us t)) (sint (recv_ts_us t)) (offset_us (clock_calibrator c));
        Some (with_metrics (\<lambda>m. case lat of
            Some v \<Rightarrow> m\<lparr>trade_latency := hist_record (trade_latency m) v\<rparr>
          | None \<Rightarrow> m\<lparr>ext_latency_negative_drop := ext_latency_negative_drop m + 1\<rparr>) c)
      } else Some c)"

definition deliver_trade :: "'u callbacks \<Rightarrow> raw_clock \<Rightarrow> trade \<Rightarrow> 'u conn \<Rightarrow> 'u conn option" where
  "deliver_trade cbs clk t0 c = (let t = stamp_recv t0 (wall_us clk) in do {
     c1 \<leftarrow> on_metrics (record_segment_us recv_to_app_latency_update (t_enter clk) (t_after_biz clk)) c;
     c2 \<leftarrow> record_exchange_latency t c1;
     on_metrics (record_segment_us callback_latency_update (t_after_biz clk) (t_after_cb clk))
       (safe_invoke (on_trade cbs) t (with_metrics (\<lambda>m. m\<lparr>trades_parsed := trades_parsed m + 1\<rparr>) c2))
   })"

definition gate_of :: "'u conn \<Rightarrow> string \<Rightarrow> gate" where
  "gate_of c n = (case trade_seq_gates c n of None \<Rightarrow> new_gate | Some g \<Rightarrow> g)"

definition count_gap :: "u64 \<Rightarrow> metrics \<Rightarrow> metrics" where
  "count_gap missing m = m\<lparr>gap_count := gap_count m + 1, missing_records := missing_records m + missing,
     recovering_symbols := recovering_symbols m + 1\<rparr>"

definition handle_trade ::
  "'j json_api \<Rightarrow> 'u callbacks \<Rightarrow> raw_clock \<Rightarrow> string \<Rightarrow> 'j \<Rightarrow> 'u conn \<Rightarrow> 'u conn option" where
  "handle_trade api cbs clk n dv c = do {
     c1 \<leftarrow> record_parse_segments clk c;
     case parse_trade api dv of
       None \<Rightarrow> Some (count_parse_error c1)
     | Some t \<Rightarrow> do {
         (g, seq) \<leftarrow> on_live_trade (gate_of c1 n) (sint (trade_id t));
         let c2 = c1\<lparr>trade_seq_gates := (trade_seq_gates c1)(n \<mapsto> g)\<rparr>;
         (case action seq of
            Accept \<Rightarrow> deliver_trade cbs clk t c2
          | Duplicate \<Rightarrow> Some (with_metrics (\<lambda>m. m\<lparr>duplicate_count := duplicate_count m + 1\<rparr>) c2)
          | Gap \<Rightarrow> do { missing \<leftarrow> missing_count seq; Some (with_metrics (count_gap missing) c2) }
          | Hold \<Rightarrow> Some c2)
       }
   }"

definition last_update_of :: "'u conn \<Rightarrow> string \<Rightarrow> int" where
  "last_update_of c n = (case last_orderbook_update_id c n of None \<Rightarrow> 0 | Some i \<Rightarrow> i)"

definition deliver_orderbook :: "'u callbacks \<Rightarrow> raw_clock \<Rightarrow> orderbook_snapshot \<Rightarrow> 'u conn \<Rightarrow> 'u conn option" where
  "deliver_orderbook cbs clk b0 c = (let b = ob_stamp_recv b0 (wall_us clk) in do {
     c1 \<leftarrow> on_metrics (record_segment_us recv_to_app_latency_update (t_enter clk) (t_after_biz clk)) c;
     on_metrics (record_segment_us callback_latency_update (t_after_biz clk) (t_after_cb clk))
       (safe_invoke (on_orderbook cbs) b (with_metrics (\<lambda>m. m\<lparr>orderbooks_parsed := orderbooks_parsed m + 1\<rparr>) c1))
   })"

text \<open>\<open>operator[]\<close> inserts a zero for a symbol that has no entry yet.\<close>

definition handle_depth ::
  "'j json_api \<Rightarrow> 'u callbacks \<Rightarrow> raw_clock \<Rightarrow> string \<Rightarrow> 'j \<Rightarrow> 'u conn \<Rightarrow> 'u conn option" where
  "handle_depth api cbs clk n dv c = do {
     c1 \<leftarrow> record_parse_segments clk c;
     case parse_orderbook api dv n of
       None \<Rightarrow> Some (count_parse_error c1)
     | Some b \<Rightarrow>
         (let lst = last_update_of c1 n;
              uid = sint (last_update_id b)
          in if lst \<noteq> 0 \<and> uid < lst
             then Some (with_metrics (\<lambda>m. m\<lparr>orderbook_id_rollback_count := orderbook_id_rollback_count m + 1\<rparr>)
               (c1\<lparr>last_orderbook_update_id := (last_orderbook_update_id c1)(n \<mapsto> lst)\<rparr>))
             else deliver_orderbook cbs clk b
               (c1\<lparr>last_orderbook_update_id := (last_orderbook_update_id c1)(n \<mapsto> uid)\<rparr>))
   }"

definition has_prefix :: "string \<Rightarrow> string \<Rightarrow> bool" where
  "has_prefix p s \<longleftrightarrow> take (length p) s = p"

definition dispatch ::
  "'j json_api \<Rightarrow> config \<Rightarrow> 'u callbacks \<Rightarrow> raw_clock \<Rightarrow> string \<Rightarrow> 'u conn \<Rightarrow> 'u conn option" where
  "dispatch api cfg cbs clk msg c = (case route api cfg msg of
       RouteError \<Rightarrow> Some (count_parse_error c)
     | Control \<Rightarrow> Some c
     | Routed n ty dv \<Rightarrow>
         if has_prefix ''trade'' ty then handle_trade api cbs clk n dv c
         else if has_prefix ''depth'' ty then handle_depth api cbs clk n dv c
         else Some c)"

text \<open>The latency recorder is destroyed on every path, behind whatever the body did.\<close>

definition on_raw_message ::
  "'j json_api \<Rightarrow> config \<Rightarrow> 'u callbacks \<Rightarrow> raw_clock \<Rightarrow> string \<Rightarrow> 'u conn \<Rightarrow> 'u conn option" where
  "on_raw_message api cfg cbs clk msg c = do {
     c1 \<leftarrow> dispatch api cfg cbs clk msg
       (with_metrics (\<lambda>m. m\<lparr>msgs_recv := msgs_recv m + 1\<rparr>) (c\<lparr>pin_attempted := True\<rparr>));
     on_metrics (record_pipeline (t_enter clk) (t_exit clk)) c1
   }"

definition can_trade :: "'u conn \<Rightarrow> string \<Rightarrow> bool" where
  "can_trade c n = (case trade_seq_gates c n of None \<Rightarrow> True | Some g \<Rightarrow> gate_can_trade g)"

end
