(* ===== verification/Message_Flow.thy ===== *)
theory Message_Flow
  imports Message_Handler
begin

text \<open>
  What reaches the callbacks over a run of messages. The callbacks log what they are given and
  may throw on any payload; the clock readings are arbitrary. The reference is the list of
  well-formed trades and books that the messages carry for a symbol.
\<close>

section \<open>Runs with a logging user\<close>

record feed_log =
  trade_log :: "trade list"
  book_log :: "orderbook_snapshot list"

definition log_callbacks :: "(trade \<Rightarrow> bool) \<Rightarrow> (orderbook_snapshot \<Rightarrow> bool) \<Rightarrow> feed_log callbacks" where
  "log_callbacks tt tb = \<lparr>on_trade = Some (\<lambda>t m u. (m, u\<lparr>trade_log := trade_log u @ [t]\<rparr>, tt t)),
     on_orderbook = Some (\<lambda>b m u. (m, u\<lparr>book_log := book_log u @ [b]\<rparr>, tb b))\<rparr>"

fun run_messages ::
  "'j json_api \<Rightarrow> config \<Rightarrow> 'u callbacks \<Rightarrow> (raw_clock \<times> string) list \<Rightarrow> 'u conn \<Rightarrow> 'u conn option" where
  "run_messages api cfg cbs [] c = Some c"
| "run_messages api cfg cbs ((clk, msg) # ms) c = on_raw_message api cfg cbs clk msg c \<bind> run_messages api cfg cbs ms"

text \<open>The trade or the book a message carries, with the symbol of its stream.\<close>

definition carried_trade :: "'j json_api \<Rightarrow> config \<Rightarrow> string \<Rightarrow> (string \<times> trade) option" where
  "carried_trade api cfg msg = (case route api cfg msg of
     Routed n ty dv \<Rightarrow> (if has_prefix ''trade'' ty then map_option (Pair n) (parse_trade api dv) else None) | _ \<Rightarrow> None)"

definition carried_book :: "'j json_api \<Rightarrow> config \<Rightarrow> string \<Rightarrow> (string \<times> orderbook_snapshot) option" where
  "carried_book api cfg msg = (case route api cfg msg of
     Routed n ty dv \<Rightarrow> (if \<not> has_prefix ''trade'' ty \<and> has_prefix ''depth'' ty
       then map_option (Pair n) (parse_orderbook api dv n) else None) | _ \<Rightarrow> None)"

abbreviation tid :: "trade \<Rightarrow> int" where "tid t \<equiv> sint (trade_id t)"
abbreviation uid :: "orderbook_snapshot \<Rightarrow> int" where "uid b \<equiv> sint (last_update_id b)"

section \<open>One message\<close>

lemma on_metrics_Some: "on_metrics f c = Some c' \<longleftrightarrow> (\<exists>m. f (conn_metrics c) = Some m \<and> c' = c\<lparr>conn_metrics := m\<rparr>)"
  by (auto simp: on_metrics_def)

lemma segment_counts:
  assumes "on_metrics (record_segment_us upd a b) c = Some c'" and "\<And>f m. message_counts (upd f m) = message_counts m"
  obtains m where "c' = c\<lparr>conn_metrics := m\<rparr>" and "message_counts m = message_counts (conn_metrics c)"
  using assms record_segment_counts [of upd a b "conn_metrics c"] by (auto simp: on_metrics_Some)

lemma record_parse_segments_counts:
  assumes "record_parse_segments clk c = Some c'"
  obtains m where "c' = c\<lparr>conn_metrics := m\<rparr>" and "message_counts m = message_counts (conn_metrics c)"
proof -
  obtain c1 where 1: "on_metrics (record_segment_us json_parse_latency_update (t_enter clk) (t_after_json clk)) c = Some c1"
    and 2: "on_metrics (record_segment_us biz_parse_latency_update (t_after_json clk) (t_after_biz clk)) c1 = Some c'"
    using assms by (auto simp: record_parse_segments_def split: bind_splits)
  from segment_counts [OF 1] obtain m1 where "c1 = c\<lparr>conn_metrics := m1\<rparr>" "message_counts m1 = message_counts (conn_metrics c)" by auto
  moreover from segment_counts [OF 2] obtain m2 where "c' = c1\<lparr>conn_metrics := m2\<rparr>" "message_counts m2 = message_counts (conn_metrics c1)" by auto
  ultimately show thesis using that [of m2] by simp
qed

lemma record_exchange_latency_counts:
  assumes "record_exchange_latency t c = Some c'"
  obtains m where "c' = c\<lparr>conn_metrics := m\<rparr>" and "message_counts m = message_counts (conn_metrics c)"
proof (cases "sint (exchange_ts_us t) > 0")
  case True
  then obtain lat where "c' = with_metrics (\<lambda>m. case lat of
            Some v \<Rightarrow> m\<lparr>trade_latency := hist_record (trade_latency m) v\<rparr>
          | None \<Rightarrow> m\<lparr>ext_latency_negative_drop := ext_latency_negative_drop m + 1\<rparr>) c"
    using assms by (auto simp: record_exchange_latency_def split: bind_splits)
  then show thesis using that by (cases lat) simp_all
next
  case False
  then show thesis using assms that [of "conn_metrics c"] by (simp add: record_exchange_latency_def)
qed

text \<open>The counters of \<^const>\<open>message_counts\<close> as additions to the old ones.\<close>

definition add_counts :: "u64 list \<Rightarrow> u64 list \<Rightarrow> u64 list" where
  "add_counts xs ys = map2 (+) xs ys"

lemma deliver_trade_log:
  assumes "deliver_trade (log_callbacks tt tb) clk t c = Some c'"
  obtains m where "c' = c\<lparr>conn_metrics := m, user := (user c)\<lparr>trade_log := trade_log (user c) @ [stamp_recv t (wall_us clk)]\<rparr>\<rparr>"
    and "message_counts m = add_counts (message_counts (conn_metrics c))
      [0, 1, 0, 0, 0, 0, 0, 0, 0, of_bool (tt (stamp_recv t (wall_us clk)))]"
proof -
  let ?t = "stamp_recv t (wall_us clk)"
  obtain c1 c2 where 1: "on_metrics (record_segment_us recv_to_app_latency_update (t_enter clk) (t_after_biz clk)) c = Some c1"
    and 2: "record_exchange_latency ?t c1 = Some c2"
    and 3: "on_metrics (record_segment_us callback_latency_update (t_after_biz clk) (t_after_cb clk))
       (safe_invoke (on_trade (log_callbacks tt tb)) ?t
         (with_metrics (\<lambda>m. m\<lparr>trades_parsed := trades_parsed m + 1\<rparr>) c2)) = Some c'"
    using assms by (auto simp: deliver_trade_def Let_def split: bind_splits)
  from segment_counts [OF 1] obtain m1 where m1: "c1 = c\<lparr>conn_metrics := m1\<rparr>" "message_counts m1 = message_counts (conn_metrics c)" by auto
  from record_exchange_latency_counts [OF 2] obtain m2 where m2: "c2 = c1\<lparr>conn_metrics := m2\<rparr>"
    "message_counts m2 = message_counts (conn_metrics c1)" by blast
  define m3 where "m3 = (if tt ?t then m2\<lparr>trades_parsed := trades_parsed m2 + 1, callback_errors := callback_errors m2 + 1\<rparr>
    else m2\<lparr>trades_parsed := trades_parsed m2 + 1\<rparr>)"
  have inv: "safe_invoke (on_trade (log_callbacks tt tb)) ?t (with_metrics (\<lambda>m. m\<lparr>trades_parsed := trades_parsed m + 1\<rparr>) c2)
     = c\<lparr>conn_metrics := m3, user := (user c)\<lparr>trade_log := trade_log (user c) @ [?t]\<rparr>\<rparr>"
    by (simp add: safe_invoke_def log_callbacks_def m1 m2 m3_def)
  obtain m4 where m4: "c' = c\<lparr>conn_metrics := m3, user := (user c)\<lparr>trade_log := trade_log (user c) @ [?t]\<rparr>\<rparr>
      \<lparr>conn_metrics := m4\<rparr>" "message_counts m4 = message_counts m3"
    by (rule segment_counts [OF 3 [unfolded inv]]) simp_all
  have "message_counts m3 = add_counts (message_counts m2) [0, 1, 0, 0, 0, 0, 0, 0, 0, of_bool (tt ?t)]"
    by (simp add: m3_def message_counts_def add_counts_def)
  with m4 m1 m2 show thesis using that [of m4] by simp
qed

lemma deliver_orderbook_log:
  assumes "deliver_orderbook (log_callbacks tt tb) clk b c = Some c'"
  obtains m where "c' = c\<lparr>conn_metrics := m, user := (user c)\<lparr>book_log := book_log (user c) @ [ob_stamp_recv b (wall_us clk)]\<rparr>\<rparr>"
    and "message_counts m = add_counts (message_counts (conn_metrics c))
      [0, 0, 1, 0, 0, 0, 0, 0, 0, of_bool (tb (ob_stamp_recv b (wall_us clk)))]"
proof -
  let ?b = "ob_stamp_recv b (wall_us clk)"
  obtain c1 where 1: "on_metrics (record_segment_us recv_to_app_latency_update (t_enter clk) (t_after_biz clk)) c = Some c1"
    and 3: "on_metrics (record_segment_us callback_latency_update (t_after_biz clk) (t_after_cb clk))
       (safe_invoke (on_orderbook (log_callbacks tt tb)) ?b
         (with_metrics (\<lambda>m. m\<lparr>orderbooks_parsed := orderbooks_parsed m + 1\<rparr>) c1)) = Some c'"
    using assms by (auto simp: deliver_orderbook_def Let_def split: bind_splits)
  from segment_counts [OF 1] obtain m1 where m1: "c1 = c\<lparr>conn_metrics := m1\<rparr>" "message_counts m1 = message_counts (conn_metrics c)" by auto
  define m3 where "m3 = (if tb ?b then m1\<lparr>orderbooks_parsed := orderbooks_parsed m1 + 1, callback_errors := callback_errors m1 + 1\<rparr>
    else m1\<lparr>orderbooks_parsed := orderbooks_parsed m1 + 1\<rparr>)"
  have inv: "safe_invoke (on_orderbook (log_callbacks tt tb)) ?b (with_metrics (\<lambda>m. m\<lparr>orderbooks_parsed := orderbooks_parsed m + 1\<rparr>) c1)
     = c\<lparr>conn_metrics := m3, user := (user c)\<lparr>book_log := book_log (user c) @ [?b]\<rparr>\<rparr>"
    by (simp add: safe_invoke_def log_callbacks_def m1 m3_def)
  obtain m4 where m4: "c' = c\<lparr>conn_metrics := m3, user := (user c)\<lparr>book_log := book_log (user c) @ [?b]\<rparr>\<rparr>
      \<lparr>conn_metrics := m4\<rparr>" "message_counts m4 = message_counts m3"
    by (rule segment_counts [OF 3 [unfolded inv]]) simp_all
  have "message_counts m3 = add_counts (message_counts m1) [0, 0, 1, 0, 0, 0, 0, 0, 0, of_bool (tb ?b)]"
    by (simp add: m3_def message_counts_def add_counts_def)
  with m4 m1 show thesis using that [of m4] by simp
qed

text \<open>What one trade adds to the counters (the message itself is counted before).\<close>

definition trade_counts :: "gate_result \<Rightarrow> bool \<Rightarrow> u64 list" where
  "trade_counts r threw = (case action r of
       Accept \<Rightarrow> [0, 1, 0, 0, 0, 0, 0, 0, 0, of_bool threw]
     | Duplicate \<Rightarrow> [0, 0, 0, 0, 0, 1, 0, 0, 0, 0]
     | Gap \<Rightarrow> [0, 0, 0, 0, 1, 0, the (missing_count r), 1, 0, 0]
     | Hold \<Rightarrow> [0, 0, 0, 0, 0, 0, 0, 0, 0, 0])"

definition log_trade :: "gate_result \<Rightarrow> trade \<Rightarrow> feed_log \<Rightarrow> feed_log" where
  "log_trade r t u = (if action r = Accept then u\<lparr>trade_log := trade_log u @ [t]\<rparr> else u)"

lemma message_counts_add_0 [simp]: "add_counts (message_counts m) [0, 0, 0, 0, 0, 0, 0, 0, 0, 0] = message_counts m"
  by (simp add: message_counts_def add_counts_def)

lemma parse_error_counts:
  "message_counts (conn_metrics (count_parse_error c)) = add_counts (message_counts (conn_metrics c)) [0, 0, 0, 1, 0, 0, 0, 0, 0, 0]"
  by (simp_all add: count_parse_error_def message_counts_def add_counts_def)

lemma gated_trade_log:
  assumes "(case action r of
      Accept \<Rightarrow> deliver_trade (log_callbacks tt tb) clk t c
    | Duplicate \<Rightarrow> Some (with_metrics (\<lambda>m. m\<lparr>duplicate_count := duplicate_count m + 1\<rparr>) c)
    | Gap \<Rightarrow> do { missing \<leftarrow> missing_count r; Some (with_metrics (count_gap missing) c) }
    | Hold \<Rightarrow> Some c) = Some c'"
  obtains m where "c' = c\<lparr>conn_metrics := m, user := log_trade r (stamp_recv t (wall_us clk)) (user c)\<rparr>"
    and "message_counts m = add_counts (message_counts (conn_metrics c)) (trade_counts r (tt (stamp_recv t (wall_us clk))))"
proof (cases "action r")
  case Accept
  with assms have "deliver_trade (log_callbacks tt tb) clk t c = Some c'" by simp
  then show thesis by (rule deliver_trade_log) (use that Accept in \<open>simp add: log_trade_def trade_counts_def\<close>)
next
  case Duplicate
  let ?m = "(conn_metrics c)\<lparr>duplicate_count := duplicate_count (conn_metrics c) + 1\<rparr>"
  have "message_counts ?m = add_counts (message_counts (conn_metrics c)) [0, 0, 0, 0, 0, 1, 0, 0, 0, 0]"
    by (simp add: message_counts_def add_counts_def)
  with that [of ?m] assms Duplicate show thesis by (simp add: log_trade_def trade_counts_def)
next
  case Gap
  then obtain k where "missing_count r = Some k" "c' = with_metrics (count_gap k) c" using assms by (auto split: bind_splits)
  then show thesis using that [of "count_gap k (conn_metrics c)"] Gap
    by (simp add: log_trade_def trade_counts_def) (simp add: message_counts_def add_counts_def count_gap_def)
next
  case Hold
  then show thesis using that [of "conn_metrics c"] assms by (simp add: log_trade_def trade_counts_def)
qed

lemma handle_trade_step:
  assumes "handle_trade api (log_callbacks tt tb) clk n dv c = Some c'"
  obtains (bad) m where "parse_trade api dv = None" and "c' = c\<lparr>conn_metrics := m\<rparr>"
      and "message_counts m = add_counts (message_counts (conn_metrics c)) [0, 0, 0, 1, 0, 0, 0, 0, 0, 0]"
    | (good) t g r m where "parse_trade api dv = Some t" and "on_live_trade (gate_of c n) (tid t) = Some (g, r)"
      and "c' = c\<lparr>conn_metrics := m, trade_seq_gates := (trade_seq_gates c)(n \<mapsto> g),
                  user := log_trade r (stamp_recv t (wall_us clk)) (user c)\<rparr>"
      and "message_counts m = add_counts (message_counts (conn_metrics c)) (trade_counts r (tt (stamp_recv t (wall_us clk))))"
proof -
  obtain c1 where 1: "record_parse_segments clk c = Some c1" using assms by (auto simp: handle_trade_def split: bind_splits)
  obtain m1 where m1: "c1 = c\<lparr>conn_metrics := m1\<rparr>" "message_counts m1 = message_counts (conn_metrics c)"
    by (rule record_parse_segments_counts [OF 1])
  show thesis
  proof (cases "parse_trade api dv")
    case None
    then have "c' = count_parse_error c1" using assms 1 by (simp add: handle_trade_def)
    then have "c' = c\<lparr>conn_metrics := conn_metrics (count_parse_error c1)\<rparr>" by (simp add: count_parse_error_def m1)
    then show thesis using bad [OF None] parse_error_counts [of c1] m1 by simp
  next
    case (Some t)
    have "gate_of c1 n = gate_of c n" by (simp add: m1 gate_of_def)
    then obtain g r where r: "on_live_trade (gate_of c n) (tid t) = Some (g, r)"
      and c': "(case action r of
            Accept \<Rightarrow> deliver_trade (log_callbacks tt tb) clk t (c1\<lparr>trade_seq_gates := (trade_seq_gates c1)(n \<mapsto> g)\<rparr>)
          | Duplicate \<Rightarrow> Some (with_metrics (\<lambda>m. m\<lparr>duplicate_count := duplicate_count m + 1\<rparr>) (c1\<lparr>trade_seq_gates := (trade_seq_gates c1)(n \<mapsto> g)\<rparr>))
          | Gap \<Rightarrow> do { missing \<leftarrow> missing_count r; Some (with_metrics (count_gap missing) (c1\<lparr>trade_seq_gates := (trade_seq_gates c1)(n \<mapsto> g)\<rparr>)) }
          | Hold \<Rightarrow> Some (c1\<lparr>trade_seq_gates := (trade_seq_gates c1)(n \<mapsto> g)\<rparr>)) = Some c'"
      using assms 1 Some by (auto simp: handle_trade_def Let_def split: bind_splits)
    then obtain m where "c' = (c1\<lparr>trade_seq_gates := (trade_seq_gates c1)(n \<mapsto> g)\<rparr>)\<lparr>conn_metrics := m,
        user := log_trade r (stamp_recv t (wall_us clk)) (user c)\<rparr>"
      "message_counts m = add_counts (message_counts (conn_metrics c)) (trade_counts r (tt (stamp_recv t (wall_us clk))))"
      using m1 by (auto elim: gated_trade_log)
    then show thesis using good [OF Some r, of m] m1 by simp
  qed
qed

definition log_book :: "bool \<Rightarrow> orderbook_snapshot \<Rightarrow> feed_log \<Rightarrow> feed_log" where
  "log_book ok b u = (if ok then u\<lparr>book_log := book_log u @ [b]\<rparr> else u)"

text \<open>The test on a book's update id, and the id remembered after it.\<close>

definition book_ok :: "int \<Rightarrow> orderbook_snapshot \<Rightarrow> bool" where
  "book_ok lst b \<longleftrightarrow> lst = 0 \<or> lst \<le> uid b"

lemma handle_depth_step:
  assumes "handle_depth api (log_callbacks tt tb) clk n dv c = Some c'"
  obtains (bad) m where "parse_orderbook api dv n = None" and "c' = c\<lparr>conn_metrics := m\<rparr>"
      and "message_counts m = add_counts (message_counts (conn_metrics c)) [0, 0, 0, 1, 0, 0, 0, 0, 0, 0]"
    | (good) b m where "parse_orderbook api dv n = Some b"
      and "c' = c\<lparr>conn_metrics := m, last_orderbook_update_id := (last_orderbook_update_id c)
                    (n \<mapsto> if book_ok (last_update_of c n) b then uid b else last_update_of c n),
                  user := log_book (book_ok (last_update_of c n) b) (ob_stamp_recv b (wall_us clk)) (user c)\<rparr>"
      and "message_counts m = add_counts (message_counts (conn_metrics c))
        (if book_ok (last_update_of c n) b
         then [0, 0, 1, 0, 0, 0, 0, 0, 0, of_bool (tb (ob_stamp_recv b (wall_us clk)))]
         else [0, 0, 0, 0, 0, 0, 0, 0, 1, 0])"
proof -
  obtain c1 where 1: "record_parse_segments clk c = Some c1" using assms by (auto simp: handle_depth_def split: bind_splits)
  obtain m1 where m1: "c1 = c\<lparr>conn_metrics := m1\<rparr>" "message_counts m1 = message_counts (conn_metrics c)"
    by (rule record_parse_segments_counts [OF 1])
  have lst: "last_update_of c1 n = last_update_of c n" by (simp add: m1 last_update_of_def)
  show thesis
  proof (cases "parse_orderbook api dv n")
    case None
    then have "c' = count_parse_error c1" using assms 1 by (simp add: handle_depth_def)
    then have "c' = c\<lparr>conn_metrics := conn_metrics (count_parse_error c1)\<rparr>" by (simp add: count_parse_error_def m1)
    then show thesis using bad [OF None] parse_error_counts [of c1] m1 by simp
  next
    case (Some b)
    show thesis
    proof (cases "book_ok (last_update_of c n) b")
      case True
      then have "deliver_orderbook (log_callbacks tt tb) clk b
          (c1\<lparr>last_orderbook_update_id := (last_orderbook_update_id c1)(n \<mapsto> uid b)\<rparr>) = Some c'"
        using assms 1 Some by (auto simp: handle_depth_def Let_def lst book_ok_def not_less)
      then obtain m where "c' = c1\<lparr>last_orderbook_update_id := (last_orderbook_update_id c1)(n \<mapsto> uid b)\<rparr>\<lparr>conn_metrics := m,
          user := (user c)\<lparr>book_log := book_log (user c) @ [ob_stamp_recv b (wall_us clk)]\<rparr>\<rparr>"
        "message_counts m = add_counts (message_counts (conn_metrics c))
          [0, 0, 1, 0, 0, 0, 0, 0, 0, of_bool (tb (ob_stamp_recv b (wall_us clk)))]"
        by (rule deliver_orderbook_log) (simp add: m1)
      then show thesis using good [OF Some, of m] True m1 by (simp add: log_book_def)
    next
      case False
      then have "c' = with_metrics (\<lambda>m. m\<lparr>orderbook_id_rollback_count := orderbook_id_rollback_count m + 1\<rparr>)
               (c1\<lparr>last_orderbook_update_id := (last_orderbook_update_id c1)(n \<mapsto> last_update_of c n)\<rparr>)"
        using assms 1 Some by (auto simp: handle_depth_def Let_def lst book_ok_def not_less)
      then show thesis
        using False m1 good [OF Some, of "m1\<lparr>orderbook_id_rollback_count := orderbook_id_rollback_count m1 + 1\<rparr>"]
        by (simp add: log_book_def) (simp add: message_counts_def add_counts_def)
    qed
  qed
qed

text \<open>One message of any kind. Every message adds one to the messages received.\<close>

abbreviation one_message :: "u64 list" where "one_message \<equiv> [1, 0, 0, 0, 0, 0, 0, 0, 0, 0]"

definition counts_add :: "'u conn \<Rightarrow> 'u conn \<Rightarrow> u64 list \<Rightarrow> bool" where
  "counts_add c c' d \<longleftrightarrow>
     message_counts (conn_metrics c') = add_counts (add_counts (message_counts (conn_metrics c)) one_message) d"

lemma dispatch_step:
  assumes "dispatch api cfg (log_callbacks tt tb) clk msg c = Some c'"
  obtains (trade) n t g r m where "carried_trade api cfg msg = Some (n, t)" and "carried_book api cfg msg = None"
      and "on_live_trade (gate_of c n) (tid t) = Some (g, r)"
      and "c' = c\<lparr>conn_metrics := m, trade_seq_gates := (trade_seq_gates c)(n \<mapsto> g),
                  user := log_trade r (stamp_recv t (wall_us clk)) (user c)\<rparr>"
      and "message_counts m = add_counts (message_counts (conn_metrics c)) (trade_counts r (tt (stamp_recv t (wall_us clk))))"
    | (book) n b m where "carried_trade api cfg msg = None" and "carried_book api cfg msg = Some (n, b)"
      and "c' = c\<lparr>conn_metrics := m, last_orderbook_update_id := (last_orderbook_update_id c)
                    (n \<mapsto> if book_ok (last_update_of c n) b then uid b else last_update_of c n),
                  user := log_book (book_ok (last_update_of c n) b) (ob_stamp_recv b (wall_us clk)) (user c)\<rparr>"
      and "message_counts m = add_counts (message_counts (conn_metrics c))
        (if book_ok (last_update_of c n) b
         then [0, 0, 1, 0, 0, 0, 0, 0, 0, of_bool (tb (ob_stamp_recv b (wall_us clk)))]
         else [0, 0, 0, 0, 0, 0, 0, 0, 1, 0])"
    | (other) m k where "carried_trade api cfg msg = None" and "carried_book api cfg msg = None" and "c' = c\<lparr>conn_metrics := m\<rparr>"
      and "message_counts m = add_counts (message_counts (conn_metrics c)) [0, 0, 0, k, 0, 0, 0, 0, 0, 0]"
proof (cases "route api cfg msg")
  case RouteError
  then have "c' = count_parse_error c" using assms by (simp add: dispatch_def)
  then have "c' = c\<lparr>conn_metrics := conn_metrics (count_parse_error c)\<rparr>" by (simp add: count_parse_error_def)
  then show thesis using other parse_error_counts [of c] RouteError by (simp add: carried_trade_def carried_book_def)
next
  case Control
  then show thesis using other [of "conn_metrics c" 0] assms by (simp add: dispatch_def carried_trade_def carried_book_def)
next
  case (Routed n ty dv)
  consider "has_prefix ''trade'' ty" | "\<not> has_prefix ''trade'' ty" "has_prefix ''depth'' ty"
    | "\<not> has_prefix ''trade'' ty" "\<not> has_prefix ''depth'' ty" by blast
  then show thesis
  proof cases
    case 1
    then have "handle_trade api (log_callbacks tt tb) clk n dv c = Some c'" using assms Routed by (simp add: dispatch_def)
    then show thesis
      by (cases rule: handle_trade_step) (use other trade Routed 1 in \<open>simp_all add: carried_trade_def carried_book_def\<close>)
  next
    case 2
    then have "handle_depth api (log_callbacks tt tb) clk n dv c = Some c'" using assms Routed by (simp add: dispatch_def)
    then show thesis
      by (cases rule: handle_depth_step) (use other book Routed 2 in \<open>simp_all add: carried_trade_def carried_book_def\<close>)
  next
    case 3
    then show thesis using other [of "conn_metrics c" 0] assms Routed by (simp add: dispatch_def carried_trade_def carried_book_def)
  qed
qed

lemma message_step:
  assumes "on_raw_message api cfg (log_callbacks tt tb) clk msg c = Some c'"
  obtains (trade) n t g r where "carried_trade api cfg msg = Some (n, t)" and "carried_book api cfg msg = None"
      and "on_live_trade (gate_of c n) (tid t) = Some (g, r)"
      and "trade_seq_gates c' = (trade_seq_gates c)(n \<mapsto> g)" and "last_orderbook_update_id c' = last_orderbook_update_id c"
      and "user c' = log_trade r (stamp_recv t (wall_us clk)) (user c)"
      and "counts_add c c' (trade_counts r (tt (stamp_recv t (wall_us clk))))"
    | (book) n b where "carried_trade api cfg msg = None" and "carried_book api cfg msg = Some (n, b)"
      and "trade_seq_gates c' = trade_seq_gates c"
      and "last_orderbook_update_id c' = (last_orderbook_update_id c)
             (n \<mapsto> if book_ok (last_update_of c n) b then uid b else last_update_of c n)"
      and "user c' = log_book (book_ok (last_update_of c n) b) (ob_stamp_recv b (wall_us clk)) (user c)"
      and "counts_add c c' (if book_ok (last_update_of c n) b
         then [0, 0, 1, 0, 0, 0, 0, 0, 0, of_bool (tb (ob_stamp_recv b (wall_us clk)))]
         else [0, 0, 0, 0, 0, 0, 0, 0, 1, 0])"
    | (other) k where "carried_trade api cfg msg = None" and "carried_book api cfg msg = None"
      and "trade_seq_gates c' = trade_seq_gates c" and "last_orderbook_update_id c' = last_orderbook_update_id c"
      and "user c' = user c" and "counts_add c c' [0, 0, 0, k, 0, 0, 0, 0, 0, 0]"
proof -
  define c0 where "c0 = with_metrics (\<lambda>m. m\<lparr>msgs_recv := msgs_recv m + 1\<rparr>) (c\<lparr>pin_attempted := True\<rparr>)"
  have c0: "trade_seq_gates c0 = trade_seq_gates c" "last_orderbook_update_id c0 = last_orderbook_update_id c"
    "user c0 = user c" "message_counts (conn_metrics c0) = add_counts (message_counts (conn_metrics c)) one_message"
    "gate_of c0 = gate_of c" "last_update_of c0 = last_update_of c"
    by (simp_all add: c0_def message_counts_def add_counts_def gate_of_def last_update_of_def fun_eq_iff)
  obtain c1 where d: "dispatch api cfg (log_callbacks tt tb) clk msg c0 = Some c1"
    and p: "on_metrics (record_pipeline (t_enter clk) (t_exit clk)) c1 = Some c'"
    using assms by (auto simp: on_raw_message_def c0_def split: bind_splits)
  from p obtain m where c': "c' = c1\<lparr>conn_metrics := m\<rparr>" "message_counts m = message_counts (conn_metrics c1)"
    using record_pipeline_counts by (auto simp: on_metrics_Some)
  from d show thesis
    by (cases rule: dispatch_step) (use trade book other c' c0 in \<open>simp_all add: counts_add_def\<close>)
qed

section \<open>Runs\<close>

definition carried_trades :: "'j json_api \<Rightarrow> config \<Rightarrow> string \<Rightarrow> (raw_clock \<times> string) list \<Rightarrow> trade list" where
  "carried_trades api cfg n ms = concat (map (\<lambda>(clk, msg). case carried_trade api cfg msg of
     Some (n', t) \<Rightarrow> (if n' = n then [t] else []) | None \<Rightarrow> []) ms)"

definition carried_books :: "'j json_api \<Rightarrow> config \<Rightarrow> string \<Rightarrow> (raw_clock \<times> string) list \<Rightarrow> orderbook_snapshot list" where
  "carried_books api cfg n ms = concat (map (\<lambda>(clk, msg). case carried_book api cfg msg of
     Some (n', b) \<Rightarrow> (if n' = n then [b] else []) | None \<Rightarrow> []) ms)"

lemma carried_simps [simp]:
  "carried_trades api cfg n [] = []" "carried_books api cfg n [] = []"
  "carried_trades api cfg n ((clk, msg) # ms) = (case carried_trade api cfg msg of
     Some (n', t) \<Rightarrow> (if n' = n then [t] else []) | None \<Rightarrow> []) @ carried_trades api cfg n ms"
  "carried_books api cfg n ((clk, msg) # ms) = (case carried_book api cfg msg of
     Some (n', b) \<Rightarrow> (if n' = n then [b] else []) | None \<Rightarrow> []) @ carried_books api cfg n ms"
  by (simp_all add: carried_trades_def carried_books_def)

text \<open>The items that belong to a symbol.\<close>

definition tagged_with :: "string \<Rightarrow> (string \<times> 'r) list \<Rightarrow> 'r list" where
  "tagged_with n xs = map snd (filter (\<lambda>(n', _). n' = n) xs)"

lemma tagged_with_simps [simp]:
  "tagged_with n [] = []"
  "tagged_with n (x # xs) = (if fst x = n then snd x # tagged_with n xs else tagged_with n xs)"
  "tagged_with n (xs @ ys) = tagged_with n xs @ tagged_with n ys"
  by (auto simp: tagged_with_def split: prod.splits)

lemma route_subscribed: "route api cfg msg = Routed n ty dv \<Longrightarrow> subscribed cfg n"
  by (auto simp: route_def Let_def split: option.splits if_splits)

lemma carried_subscribed:
  "carried_trade api cfg msg = Some (n, t) \<Longrightarrow> subscribed cfg n"
  "carried_book api cfg msg = Some (n, b) \<Longrightarrow> subscribed cfg n"
  by (auto simp: carried_trade_def carried_book_def split: route.splits if_splits dest: route_subscribed)

lemma stamp_recv_tid [simp]: "trade_id (stamp_recv t ts) = trade_id t"
  by (simp add: stamp_recv_def)

lemma ob_stamp_recv_uid [simp]: "last_update_id (ob_stamp_recv b ts) = last_update_id b"
  by (simp add: ob_stamp_recv_def)

lemma trades_step:
  assumes "on_raw_message api cfg (log_callbacks tt tb) clk msg c = Some c'"
  shows "\<exists>new. trade_log (user c') = trade_log (user c) @ map snd new \<and> (\<forall>x \<in> set new. subscribed cfg (fst x))
    \<and> (\<forall>n es. gate_run (gate_of c n) (map (\<lambda>t. LiveTrade (tid t)) (carried_trades api cfg n [(clk, msg)]) @ es)
         = map_option (\<lambda>(g, ids). (g, map tid (tagged_with n new) @ ids)) (gate_run (gate_of c' n) es))"
  using assms
proof (cases rule: message_step)
  case (trade n t g r)
  have g: "gate_of c' k = (if k = n then g else gate_of c k)" for k using trade(4) by (simp add: gate_of_def)
  show ?thesis
    by (rule exI [of _ "if action r = Accept then [(n, stamp_recv t (wall_us clk))] else []"])
      (use trade(1,3,6) carried_subscribed(1) [OF trade(1)] in \<open>auto simp: g log_trade_def option.map_ident option.map_id\<close>)
next
  case (book n b)
  then have "gate_of c' = gate_of c" by (simp add: gate_of_def fun_eq_iff)
  then show ?thesis using book by (intro exI [of _ "[]"]) (simp add: log_book_def option.map_ident option.map_id)
next
  case (other k)
  then have "gate_of c' = gate_of c" by (simp add: gate_of_def fun_eq_iff)
  then show ?thesis using other by (intro exI [of _ "[]"]) (simp add: option.map_ident option.map_id)
qed

lemma run_trades:
  assumes "run_messages api cfg (log_callbacks tt tb) ms c = Some c'"
  shows "\<exists>tagged. trade_log (user c') = trade_log (user c) @ map snd tagged
    \<and> (\<forall>n. gate_run (gate_of c n) (map (\<lambda>t. LiveTrade (tid t)) (carried_trades api cfg n ms))
           = Some (gate_of c' n, map tid (tagged_with n tagged)))
    \<and> (\<forall>x \<in> set tagged. subscribed cfg (fst x))"
  using assms
proof (induction ms arbitrary: c)
  case Nil
  then show ?case by (auto intro: exI [of _ "[]"])
next
  case (Cons m ms)
  obtain clk msg where m: "m = (clk, msg)" by (cases m)
  then obtain c1 where 1: "on_raw_message api cfg (log_callbacks tt tb) clk msg c = Some c1"
    and 2: "run_messages api cfg (log_callbacks tt tb) ms c1 = Some c'"
    using Cons.prems by (auto split: bind_splits)
  from Cons.IH [OF 2] obtain tagged where
    log: "trade_log (user c') = trade_log (user c1) @ map snd tagged"
    and gates: "\<And>n. gate_run (gate_of c1 n) (map (\<lambda>t. LiveTrade (tid t)) (carried_trades api cfg n ms))
           = Some (gate_of c' n, map tid (tagged_with n tagged))"
    and sub: "\<forall>x \<in> set tagged. subscribed cfg (fst x)" by blast
  obtain new where new: "trade_log (user c1) = trade_log (user c) @ map snd new" "\<forall>x \<in> set new. subscribed cfg (fst x)"
    "\<And>n es. gate_run (gate_of c n) (map (\<lambda>t. LiveTrade (tid t)) (carried_trades api cfg n [(clk, msg)]) @ es)
       = map_option (\<lambda>(g, ids). (g, map tid (tagged_with n new) @ ids)) (gate_run (gate_of c1 n) es)"
    using trades_step [OF 1] by blast
  show ?case
  proof (intro exI [of _ "new @ tagged"] conjI allI)
    show "gate_run (gate_of c n) (map (\<lambda>t. LiveTrade (tid t)) (carried_trades api cfg n (m # ms)))
        = Some (gate_of c' n, map tid (tagged_with n (new @ tagged)))" for n
      using new(3) [of n "map (\<lambda>t. LiveTrade (tid t)) (carried_trades api cfg n ms)"] gates [of n] by (simp add: m)
  qed (use log new sub in auto)
qed

text \<open>Update ids that are not below the last kept one; a last id of zero keeps everything.\<close>

fun keep_forward :: "int \<Rightarrow> int list \<Rightarrow> int list" where
  "keep_forward lst [] = []"
| "keep_forward lst (i # is) = (if lst = 0 \<or> lst \<le> i then i # keep_forward i is else keep_forward lst is)"

lemma books_step:
  assumes "on_raw_message api cfg (log_callbacks tt tb) clk msg c = Some c'"
  shows "\<exists>new. book_log (user c') = book_log (user c) @ map snd new \<and> (\<forall>x \<in> set new. subscribed cfg (fst x))
    \<and> (\<forall>n ids. keep_forward (last_update_of c n) (map uid (carried_books api cfg n [(clk, msg)]) @ ids)
         = map uid (tagged_with n new) @ keep_forward (last_update_of c' n) ids)"
  using assms
proof (cases rule: message_step)
  case (trade n t g r)
  then have "last_update_of c' = last_update_of c" by (simp add: last_update_of_def fun_eq_iff)
  then show ?thesis using trade by (intro exI [of _ "[]"]) (simp add: log_trade_def)
next
  case (book n b)
  have l: "last_update_of c' k = (if k \<noteq> n then last_update_of c k else if book_ok (last_update_of c n) b then uid b else last_update_of c n)" for k
    using book(4) by (simp add: last_update_of_def)
  show ?thesis
    by (rule exI [of _ "if book_ok (last_update_of c n) b then [(n, ob_stamp_recv b (wall_us clk))] else []"])
      (use book(2,5) carried_subscribed(2) [OF book(2)] in \<open>auto simp: l log_book_def book_ok_def\<close>)
next
  case (other k)
  then have "last_update_of c' = last_update_of c" by (simp add: last_update_of_def fun_eq_iff)
  then show ?thesis using other by (intro exI [of _ "[]"]) simp
qed

lemma run_books:
  assumes "run_messages api cfg (log_callbacks tt tb) ms c = Some c'"
  shows "\<exists>tagged. book_log (user c') = book_log (user c) @ map snd tagged
    \<and> (\<forall>n. map uid (tagged_with n tagged) = keep_forward (last_update_of c n) (map uid (carried_books api cfg n ms)))
    \<and> (\<forall>x \<in> set tagged. subscribed cfg (fst x))"
  using assms
proof (induction ms arbitrary: c)
  case Nil
  then show ?case by (auto intro: exI [of _ "[]"])
next
  case (Cons m ms)
  obtain clk msg where m: "m = (clk, msg)" by (cases m)
  then obtain c1 where 1: "on_raw_message api cfg (log_callbacks tt tb) clk msg c = Some c1"
    and 2: "run_messages api cfg (log_callbacks tt tb) ms c1 = Some c'"
    using Cons.prems by (auto split: bind_splits)
  from Cons.IH [OF 2] obtain tagged where
    log: "book_log (user c') = book_log (user c1) @ map snd tagged"
    and keep: "\<And>n. map uid (tagged_with n tagged) = keep_forward (last_update_of c1 n) (map uid (carried_books api cfg n ms))"
    and sub: "\<forall>x \<in> set tagged. subscribed cfg (fst x)" by blast
  obtain new where new: "book_log (user c1) = book_log (user c) @ map snd new" "\<forall>x \<in> set new. subscribed cfg (fst x)"
    "\<And>n ids. keep_forward (last_update_of c n) (map uid (carried_books api cfg n [(clk, msg)]) @ ids)
       = map uid (tagged_with n new) @ keep_forward (last_update_of c1 n) ids"
    using books_step [OF 1] by blast
  show ?case
  proof (intro exI [of _ "new @ tagged"] conjI allI)
    show "map uid (tagged_with n (new @ tagged)) = keep_forward (last_update_of c n) (map uid (carried_books api cfg n (m # ms)))" for n
      using new(3) [of n "map uid (carried_books api cfg n ms)"] keep [of n] by (simp add: m)
  qed (use log new sub in auto)
qed

lemma keep_forward_sorted:
  "\<forall>i \<in> set is. 0 < i \<Longrightarrow> sorted (keep_forward lst is) \<and> (\<forall>i \<in> set (keep_forward lst is). lst \<le> i \<or> lst = 0)
     \<and> (\<forall>i \<in> set (keep_forward lst is). 0 < i)"
proof (induction "is" arbitrary: lst)
  case (Cons i "is")
  then show ?case by (auto intro: order_trans [of lst i])
qed simp

end
