(* ===== verification/Feed_Delivery.thy ===== *)
theory Feed_Delivery
  imports Message_Flow
begin

text \<open>
  What a run of messages guarantees to the users of \<^verbatim>\<open>ConnectionManager\<close>: the handler
  reaches no undefined behaviour for sane clocks and ids, trades of a symbol are delivered with
  consecutive ids and books with non-decreasing update ids, the counters agree with what was
  delivered, and a symbol that lost a trade is never delivered again.
\<close>

section \<open>Totality\<close>

text \<open>Clock readings for which no difference the handler forms overflows.\<close>

definition sane_clock :: "raw_clock \<Rightarrow> bool" where
  "sane_clock clk \<longleftrightarrow> (\<forall>t \<in> {t_enter clk, t_after_json clk, t_after_biz clk, t_after_cb clk, t_exit clk}. 0 \<le> t \<and> t \<le> i64_max)
     \<and> 10000000 \<le> sint (wall_us clk) \<and> sint (wall_us clk) \<le> 4611686018427387904"

lemma diff_in_total: "0 \<le> a \<Longrightarrow> a \<le> i64_max \<Longrightarrow> 0 \<le> b \<Longrightarrow> b \<le> i64_max \<Longrightarrow> \<exists>d. diff_in k a b = Some d"
  by (simp add: diff_in_def i64_sub_def in_i64_def)

lemma on_metrics_segment_total:
  "0 \<le> a \<Longrightarrow> a \<le> i64_max \<Longrightarrow> 0 \<le> b \<Longrightarrow> b \<le> i64_max \<Longrightarrow> \<exists>m. on_metrics (record_segment_us upd a b) c = Some (c\<lparr>conn_metrics := m\<rparr>)"
  "0 \<le> a \<Longrightarrow> a \<le> i64_max \<Longrightarrow> 0 \<le> b \<Longrightarrow> b \<le> i64_max \<Longrightarrow> \<exists>m. on_metrics (record_pipeline a b) c = Some (c\<lparr>conn_metrics := m\<rparr>)"
  using diff_in_total [of a b 1000]
  by (auto simp: on_metrics_def record_segment_us_def record_pipeline_def)

lemma record_parse_segments_total: "sane_clock clk \<Longrightarrow> \<exists>m. record_parse_segments clk c = Some (c\<lparr>conn_metrics := m\<rparr>)"
proof -
  assume s: "sane_clock clk"
  obtain m where 1: "on_metrics (record_segment_us json_parse_latency_update (t_enter clk) (t_after_json clk)) c = Some (c\<lparr>conn_metrics := m\<rparr>)"
    using on_metrics_segment_total(1) [of "t_enter clk" "t_after_json clk" json_parse_latency_update c] s by (auto simp: sane_clock_def)
  obtain m' where "on_metrics (record_segment_us biz_parse_latency_update (t_after_json clk) (t_after_biz clk)) (c\<lparr>conn_metrics := m\<rparr>)
      = Some (c\<lparr>conn_metrics := m\<rparr>\<lparr>conn_metrics := m'\<rparr>)"
    using on_metrics_segment_total(1) [of "t_after_json clk" "t_after_biz clk" biz_parse_latency_update "c\<lparr>conn_metrics := m\<rparr>"] s by (auto simp: sane_clock_def)
  with 1 have "record_parse_segments clk c = Some (c\<lparr>conn_metrics := m'\<rparr>)" by (simp add: record_parse_segments_def)
  then show ?thesis by blast
qed

lemma record_exchange_latency_total:
  assumes "10000000 \<le> sint (recv_ts_us t)" and "sint (recv_ts_us t) \<le> 4611686018427387904"
    and "\<bar>offset_us (clock_calibrator c)\<bar> \<le> kMaxAbsOffsetUs"
  shows "\<exists>m. record_exchange_latency t c = Some (c\<lparr>conn_metrics := m\<rparr>)"
proof (cases "sint (exchange_ts_us t) > 0")
  case True
  have "sint (exchange_ts_us t) \<le> i64_max" using sint_in_i64 [of "exchange_ts_us t"] by (simp add: in_i64_def)
  then have "\<exists>lat. exchange_to_recv_us (sint (exchange_ts_us t)) (sint (recv_ts_us t)) (offset_us (clock_calibrator c)) = Some lat"
    using True assms by (auto simp: exchange_to_recv_us_def i64_add_def i64_sub_def in_i64_def abs_le_iff)
  then show ?thesis using True by (auto simp: record_exchange_latency_def)
qed (simp add: record_exchange_latency_def, metis conn.surjective conn.update_convs(5))

lemma safe_invoke_fields: "\<exists>m u. safe_invoke cb x c = c\<lparr>conn_metrics := m, user := u\<rparr>"
proof (cases cb)
  case None
  then show ?thesis by (intro exI [of _ "conn_metrics c"] exI [of _ "user c"]) (simp add: safe_invoke_def)
next
  case (Some f)
  obtain m u threw where "f x (conn_metrics c) (user c) = (m, u, threw)" by (cases "f x (conn_metrics c) (user c)") auto
  then show ?thesis
    using Some
    by (intro exI [of _ "if threw then m\<lparr>callback_errors := callback_errors m + 1\<rparr> else m"] exI [of _ u])
      (simp add: safe_invoke_def)
qed

lemma deliver_trade_total:
  assumes "sane_clock clk" and "\<bar>offset_us (clock_calibrator c)\<bar> \<le> kMaxAbsOffsetUs"
  shows "\<exists>m u. deliver_trade cbs clk t c = Some (c\<lparr>conn_metrics := m, user := u\<rparr>)"
proof -
  let ?t = "stamp_recv t (wall_us clk)"
  obtain m1 where 1: "on_metrics (record_segment_us recv_to_app_latency_update (t_enter clk) (t_after_biz clk)) c = Some (c\<lparr>conn_metrics := m1\<rparr>)"
    using on_metrics_segment_total(1) [of "t_enter clk" "t_after_biz clk"] assms(1) by (auto simp: sane_clock_def)
  obtain m2 where 2: "record_exchange_latency ?t (c\<lparr>conn_metrics := m1\<rparr>) = Some (c\<lparr>conn_metrics := m2\<rparr>)"
    using record_exchange_latency_total [of ?t "c\<lparr>conn_metrics := m1\<rparr>"] assms by (auto simp: sane_clock_def stamp_recv_def)
  obtain m3 u where 3: "safe_invoke (on_trade cbs) ?t (with_metrics (\<lambda>m. m\<lparr>trades_parsed := trades_parsed m + 1\<rparr>) (c\<lparr>conn_metrics := m2\<rparr>))
      = c\<lparr>conn_metrics := m3, user := u\<rparr>"
    using safe_invoke_fields [of "on_trade cbs" ?t "with_metrics (\<lambda>m. m\<lparr>trades_parsed := trades_parsed m + 1\<rparr>) (c\<lparr>conn_metrics := m2\<rparr>)"] by auto
  obtain m4 where "on_metrics (record_segment_us callback_latency_update (t_after_biz clk) (t_after_cb clk)) (c\<lparr>conn_metrics := m3, user := u\<rparr>)
      = Some (c\<lparr>conn_metrics := m3, user := u\<rparr>\<lparr>conn_metrics := m4\<rparr>)"
    using on_metrics_segment_total(1) [of "t_after_biz clk" "t_after_cb clk" callback_latency_update "c\<lparr>conn_metrics := m3, user := u\<rparr>"] assms(1) by (auto simp: sane_clock_def)
  then show ?thesis using 1 2 3 by (intro exI [of _ m4] exI [of _ u]) (simp add: deliver_trade_def Let_def)
qed

lemma deliver_orderbook_total:
  assumes "sane_clock clk"
  shows "\<exists>m u. deliver_orderbook cbs clk b c = Some (c\<lparr>conn_metrics := m, user := u\<rparr>)"
proof -
  let ?b = "ob_stamp_recv b (wall_us clk)"
  obtain m1 where 1: "on_metrics (record_segment_us recv_to_app_latency_update (t_enter clk) (t_after_biz clk)) c = Some (c\<lparr>conn_metrics := m1\<rparr>)"
    using on_metrics_segment_total(1) [of "t_enter clk" "t_after_biz clk"] assms(1) by (auto simp: sane_clock_def)
  obtain m3 u where 3: "safe_invoke (on_orderbook cbs) ?b (with_metrics (\<lambda>m. m\<lparr>orderbooks_parsed := orderbooks_parsed m + 1\<rparr>) (c\<lparr>conn_metrics := m1\<rparr>))
      = c\<lparr>conn_metrics := m3, user := u\<rparr>"
    using safe_invoke_fields [of "on_orderbook cbs" ?b "with_metrics (\<lambda>m. m\<lparr>orderbooks_parsed := orderbooks_parsed m + 1\<rparr>) (c\<lparr>conn_metrics := m1\<rparr>)"] by auto
  obtain m4 where "on_metrics (record_segment_us callback_latency_update (t_after_biz clk) (t_after_cb clk)) (c\<lparr>conn_metrics := m3, user := u\<rparr>)
      = Some (c\<lparr>conn_metrics := m3, user := u\<rparr>\<lparr>conn_metrics := m4\<rparr>)"
    using on_metrics_segment_total(1) [of "t_after_biz clk" "t_after_cb clk" callback_latency_update "c\<lparr>conn_metrics := m3, user := u\<rparr>"] assms(1) by (auto simp: sane_clock_def)
  then show ?thesis using 1 3 by (intro exI [of _ m4] exI [of _ u]) (simp add: deliver_orderbook_def Let_def)
qed

text \<open>A state in which the next trades cannot overflow a gate, and latencies can be computed.\<close>

definition flow_safe :: "'u conn \<Rightarrow> bool" where
  "flow_safe c \<longleftrightarrow> \<bar>offset_us (clock_calibrator c)\<bar> \<le> kMaxAbsOffsetUs
     \<and> (\<forall>n. 0 \<le> last_id (gate_of c n) \<and> last_id (gate_of c n) < i64_max)"

definition safe_id :: "int \<Rightarrow> bool" where
  "safe_id i \<longleftrightarrow> 0 \<le> i \<and> i < i64_max"

lemma on_live_trade_total:
  assumes "0 \<le> last_id g" and "last_id g < i64_max" and "safe_id i"
  shows "\<exists>g' r. on_live_trade g i = Some (g', r) \<and> (action r = Gap \<longrightarrow> (\<exists>k. missing_count r = Some k))
    \<and> 0 \<le> last_id g' \<and> last_id g' < i64_max"
  using assms
  by (auto simp: on_live_trade_def i64_add_def i64_sub_def in_i64_def Let_def missing_count_def safe_id_def)

lemma handle_trade_total:
  assumes "sane_clock clk" and "flow_safe c" and "\<And>t. parse_trade api dv = Some t \<Longrightarrow> safe_id (tid t)"
  shows "\<exists>c'. handle_trade api cbs clk n dv c = Some c' \<and> flow_safe c'"
proof -
  obtain m1 where 1: "record_parse_segments clk c = Some (c\<lparr>conn_metrics := m1\<rparr>)"
    using record_parse_segments_total [OF assms(1)] by blast
  show ?thesis
  proof (cases "parse_trade api dv")
    case None
    then show ?thesis using 1 assms(2) by (simp add: handle_trade_def count_parse_error_def flow_safe_def gate_of_def)
  next
    case (Some t)
    let ?c = "c\<lparr>conn_metrics := m1\<rparr>"
    have g: "gate_of ?c n = gate_of c n" by (simp add: gate_of_def)
    have "0 \<le> last_id (gate_of c n)" "last_id (gate_of c n) < i64_max" using assms(2) by (simp_all add: flow_safe_def)
    from on_live_trade_total [OF this assms(3) [OF Some]] obtain g' r where
      r: "on_live_trade (gate_of c n) (tid t) = Some (g', r)" "action r = Gap \<longrightarrow> (\<exists>k. missing_count r = Some k)"
        "0 \<le> last_id g'" "last_id g' < i64_max" by blast
    let ?c2 = "c\<lparr>conn_metrics := m1, trade_seq_gates := (trade_seq_gates c)(n \<mapsto> g')\<rparr>"
    have safe: "flow_safe (?c2\<lparr>conn_metrics := m, user := u\<rparr>)" for m u
      using assms(2) r(3,4) by (simp add: flow_safe_def gate_of_def)
    have safe2: "flow_safe ?c2" using assms(2) r(3,4) by (simp add: flow_safe_def gate_of_def)
    obtain m u where "deliver_trade cbs clk t ?c2 = Some (?c2\<lparr>conn_metrics := m, user := u\<rparr>)"
      using deliver_trade_total [OF assms(1), of ?c2 cbs t] assms(2) unfolding flow_safe_def by fastforce
    then show ?thesis
      using 1 r safe safe2 safe [of "user c"] Some
      by (cases "action r") (auto simp: handle_trade_def g Let_def)
  qed
qed

lemma handle_depth_total:
  assumes "sane_clock clk" and "flow_safe c"
  shows "\<exists>c'. handle_depth api cbs clk n dv c = Some c' \<and> flow_safe c'"
proof -
  obtain m1 where 1: "record_parse_segments clk c = Some (c\<lparr>conn_metrics := m1\<rparr>)"
    using record_parse_segments_total [OF assms(1)] by blast
  show ?thesis
  proof (cases "parse_orderbook api dv n")
    case None
    then show ?thesis using 1 assms(2) by (simp add: handle_depth_def count_parse_error_def flow_safe_def gate_of_def)
  next
    case (Some b)
    let ?c2 = "c\<lparr>conn_metrics := m1, last_orderbook_update_id := (last_orderbook_update_id c)(n \<mapsto> uid b)\<rparr>"
    obtain m u where "deliver_orderbook cbs clk b ?c2 = Some (?c2\<lparr>conn_metrics := m, user := u\<rparr>)"
      using deliver_orderbook_total [OF assms(1), of cbs b ?c2] by blast
    then show ?thesis
      using 1 Some assms(2) by (auto simp: handle_depth_def Let_def flow_safe_def gate_of_def)
  qed
qed

lemma on_raw_message_total:
  assumes "sane_clock clk" and "flow_safe c" and "\<And>n t. carried_trade api cfg msg = Some (n, t) \<Longrightarrow> safe_id (tid t)"
  shows "\<exists>c'. on_raw_message api cfg cbs clk msg c = Some c' \<and> flow_safe c'"
proof -
  let ?c0 = "with_metrics (\<lambda>m. m\<lparr>msgs_recv := msgs_recv m + 1\<rparr>) (c\<lparr>pin_attempted := True\<rparr>)"
  have s0: "flow_safe ?c0" using assms(2) by (simp add: flow_safe_def gate_of_def)
  have "\<exists>c1. dispatch api cfg cbs clk msg ?c0 = Some c1 \<and> flow_safe c1"
  proof (cases "route api cfg msg")
    case (Routed n ty dv)
    have "parse_trade api dv = Some t \<Longrightarrow> has_prefix ''trade'' ty \<Longrightarrow> safe_id (tid t)" for t
      using assms(3) [of n t] Routed by (simp add: carried_trade_def)
    then show ?thesis
      using Routed s0 handle_trade_total [OF assms(1) s0, of api dv cbs n] handle_depth_total [OF assms(1) s0, of api cbs n dv]
      by (auto simp: dispatch_def)
  qed (use s0 in \<open>auto simp: dispatch_def count_parse_error_def flow_safe_def gate_of_def\<close>)
  then obtain c1 where c1: "dispatch api cfg cbs clk msg ?c0 = Some c1" "flow_safe c1" by blast
  obtain m where "on_metrics (record_pipeline (t_enter clk) (t_exit clk)) c1 = Some (c1\<lparr>conn_metrics := m\<rparr>)"
    using on_metrics_segment_total(2) [of "t_enter clk" "t_exit clk" c1] assms(1) by (auto simp: sane_clock_def)
  then show ?thesis using c1 by (simp add: on_raw_message_def flow_safe_def gate_of_def)
qed

lemma run_messages_total:
  assumes "\<And>clk msg. (clk, msg) \<in> set ms \<Longrightarrow> sane_clock clk"
    and "\<And>clk msg n t. (clk, msg) \<in> set ms \<Longrightarrow> carried_trade api cfg msg = Some (n, t) \<Longrightarrow> safe_id (tid t)"
    and "flow_safe c"
  shows "\<exists>c'. run_messages api cfg cbs ms c = Some c' \<and> flow_safe c'"
  using assms
proof (induction ms arbitrary: c)
  case (Cons m ms)
  obtain clk msg where m: "m = (clk, msg)" by (cases m)
  obtain c1 where 1: "on_raw_message api cfg cbs clk msg c = Some c1" "flow_safe c1"
    using on_raw_message_total [of clk c api cfg msg cbs] Cons.prems(1) [of clk msg] Cons.prems(2) [of clk msg] Cons.prems(3) m
    by (metis list.set_intros(1))
  have "\<exists>c'. run_messages api cfg cbs ms c1 = Some c' \<and> flow_safe c'"
    using Cons.IH [OF _ _ 1(2)] Cons.prems by (meson list.set_intros(2))
  then show ?case using 1 m by simp
qed simp

lemma new_conn_safe: "flow_safe (new_conn u)"
  by (simp add: flow_safe_def new_conn_def gate_of_def new_gate_def offset_us_def new_calibrator_def)

section \<open>Accounting\<close>

lemma can_trade_gate: "can_trade c n \<longleftrightarrow> gstate (gate_of c n) = Live"
  by (simp add: can_trade_def gate_of_def gate_can_trade_def new_gate_def split: option.splits)

lemma on_live_trade_state:
  "on_live_trade g i = Some (g', r) \<Longrightarrow> (gstate g' = Live \<longleftrightarrow> gstate g = Live \<and> action r \<noteq> Gap)
     \<and> (action r = Gap \<longrightarrow> gstate g = Live)"
  by (cases "gstate g") (auto simp: on_live_trade_def Let_def split: if_splits option.splits)

text \<open>The counters after \<open>k\<close> messages, against what was delivered and which symbols are held.\<close>

definition accounts :: "(trade \<Rightarrow> bool) \<Rightarrow> (orderbook_snapshot \<Rightarrow> bool) \<Rightarrow> nat \<Rightarrow> feed_log conn \<Rightarrow> bool" where
  "accounts tt tb k c \<longleftrightarrow> (let m = conn_metrics c in
     msgs_recv m = of_nat k \<and> trades_parsed m = of_nat (length (trade_log (user c)))
     \<and> orderbooks_parsed m = of_nat (length (book_log (user c)))
     \<and> callback_errors m = of_nat (length (filter tt (trade_log (user c))) + length (filter tb (book_log (user c))))
     \<and> finite {n. \<not> can_trade c n} \<and> recovering_symbols m = of_nat (card {n. \<not> can_trade c n})
     \<and> gap_count m = of_nat (card {n. \<not> can_trade c n}))"

lemma counts_add_fields:
  assumes "counts_add c c' [a, b, d, e, f, g, h, i, j, k]"
  shows "msgs_recv (conn_metrics c') = msgs_recv (conn_metrics c) + 1 + a"
    "trades_parsed (conn_metrics c') = trades_parsed (conn_metrics c) + b"
    "orderbooks_parsed (conn_metrics c') = orderbooks_parsed (conn_metrics c) + d"
    "gap_count (conn_metrics c') = gap_count (conn_metrics c) + f"
    "recovering_symbols (conn_metrics c') = recovering_symbols (conn_metrics c) + i"
    "callback_errors (conn_metrics c') = callback_errors (conn_metrics c) + k"
  using assms by (simp_all add: counts_add_def message_counts_def add_counts_def)

lemma accounts_trade:
  assumes "accounts tt tb k c" and "on_live_trade (gate_of c n) (tid t) = Some (g, r)" and "trade_seq_gates c' = (trade_seq_gates c)(n \<mapsto> g)"
    and "user c' = log_trade r (stamp_recv t (wall_us clk)) (user c)" and "counts_add c c' (trade_counts r (tt (stamp_recv t (wall_us clk))))"
  shows "accounts tt tb (Suc k) c'"
proof -
  note a = assms(1) [unfolded accounts_def Let_def]
  have gates: "gate_of c' = (gate_of c)(n := g)" using assms(3) by (simp add: gate_of_def fun_eq_iff)
  note st = on_live_trade_state [OF assms(2)]
  let ?H = "{n. \<not> can_trade c n}"
  have held: "{n. \<not> can_trade c' n} = (if action r = Gap then insert n ?H else ?H)"
    using st gates by (auto simp: can_trade_gate)
  have new: "n \<notin> ?H" if "action r = Gap" using st that by (simp add: can_trade_gate)
  show ?thesis
  proof (cases "action r")
    case Accept
    with assms(5) have d: "counts_add c c' [0, 1, 0, 0, 0, 0, 0, 0, 0, of_bool (tt (stamp_recv t (wall_us clk)))]"
      by (simp add: trade_counts_def)
    show ?thesis using a Accept held assms(4) counts_add_fields [OF d] by (simp add: accounts_def log_trade_def)
  next
    case Duplicate
    with assms(5) have d: "counts_add c c' [0, 0, 0, 0, 0, 1, 0, 0, 0, 0]" by (simp add: trade_counts_def)
    show ?thesis using a Duplicate held assms(4) counts_add_fields [OF d] by (simp add: accounts_def log_trade_def)
  next
    case Gap
    with assms(5) have d: "counts_add c c' [0, 0, 0, 0, 1, 0, the (missing_count r), 1, 0, 0]" by (simp add: trade_counts_def)
    show ?thesis using a Gap held new assms(4) counts_add_fields [OF d] by (simp add: accounts_def log_trade_def)
  next
    case Hold
    with assms(5) have d: "counts_add c c' [0, 0, 0, 0, 0, 0, 0, 0, 0, 0]" by (simp add: trade_counts_def)
    show ?thesis using a Hold held assms(4) counts_add_fields [OF d] by (simp add: accounts_def log_trade_def)
  qed
qed

lemma accounts_step:
  assumes "on_raw_message api cfg (log_callbacks tt tb) clk msg c = Some c'" and "accounts tt tb k c"
  shows "accounts tt tb (Suc k) c'"
proof -
  note a = assms(2) [unfolded accounts_def Let_def]
  have same: "{n. \<not> can_trade c' n} = {n. \<not> can_trade c n}" if "trade_seq_gates c' = trade_seq_gates c"
    using that by (simp add: can_trade_def)
  from assms(1) show ?thesis
  proof (cases rule: message_step)
    case (trade n t g r)
    then show ?thesis using accounts_trade [OF assms(2)] by blast
  next
    case (book n b)
    show ?thesis
    proof (cases "book_ok (last_update_of c n) b")
      case True
      with book(6) have d: "counts_add c c' [0, 0, 1, 0, 0, 0, 0, 0, 0, of_bool (tb (ob_stamp_recv b (wall_us clk)))]" by simp
      show ?thesis using a same [OF book(3)] book(5) True counts_add_fields [OF d] by (simp add: accounts_def log_book_def)
    next
      case False
      with book(6) have d: "counts_add c c' [0, 0, 0, 0, 0, 0, 0, 0, 1, 0]" by simp
      show ?thesis using a same [OF book(3)] book(5) False counts_add_fields [OF d] by (simp add: accounts_def log_book_def)
    qed
  next
    case (other e)
    show ?thesis using a same [OF other(3)] other(5) counts_add_fields [OF other(6)] by (simp add: accounts_def)
  qed
qed

lemma accounts_run:
  "run_messages api cfg (log_callbacks tt tb) ms c = Some c' \<Longrightarrow> accounts tt tb k c \<Longrightarrow> accounts tt tb (k + length ms) c'"
proof (induction ms arbitrary: c k)
  case (Cons m ms)
  obtain clk msg where m: "m = (clk, msg)" by (cases m)
  then obtain c1 where 1: "on_raw_message api cfg (log_callbacks tt tb) clk msg c = Some c1"
    and 2: "run_messages api cfg (log_callbacks tt tb) ms c1 = Some c'"
    using Cons.prems by (auto split: bind_splits)
  from Cons.IH [OF 2 accounts_step [OF 1 Cons.prems(2)]] show ?case by simp
qed simp

section \<open>Properties\<close>

abbreviation empty_log :: feed_log where "empty_log \<equiv> \<lparr>trade_log = [], book_log = []\<rparr>"

lemma gate_of_new_conn [simp]: "gate_of (new_conn u) n = new_gate" "last_update_of (new_conn u) n = 0"
  "can_trade (new_conn u) n" "user (new_conn u) = u"
  by (simp_all add: gate_of_def last_update_of_def can_trade_def new_conn_def)

text \<open>(C2) Delivered trades. Whatever messages arrive and whatever callbacks throw, the trades handed to the
  user split by stream symbol so that, for every symbol, their ids are exactly what that
  symbol's gate lets through from the well-formed trades of that symbol alone, and are
  consecutive: no gap, no duplicate, no reordering, and no influence of other symbols, of order
  books, of malformed messages or of the clocks. Only subscribed streams are delivered.
\<close>
theorem delivered_trades_consecutive:
  assumes "run_messages api cfg (log_callbacks tt tb) ms (new_conn empty_log) = Some c"
  shows "\<exists>tagged. map snd tagged = trade_log (user c) \<and> (\<forall>x \<in> set tagged. subscribed cfg (fst x))
    \<and> (\<forall>n. gate_run new_gate (map (\<lambda>t. LiveTrade (tid t)) (carried_trades api cfg n ms))
           = Some (gate_of c n, map tid (tagged_with n tagged))
         \<and> (tagged_with n tagged = [] \<or> consecutive (tid (hd (tagged_with n tagged))) (map tid (tagged_with n tagged))))"
proof -
  obtain tagged where *: "trade_log (user c) = map snd tagged"
    "\<And>n. gate_run new_gate (map (\<lambda>t. LiveTrade (tid t)) (carried_trades api cfg n ms)) = Some (gate_of c n, map tid (tagged_with n tagged))"
    "\<forall>x \<in> set tagged. subscribed cfg (fst x)"
    using run_trades [OF assms] by auto
  have "tagged_with n tagged = [] \<or> consecutive (tid (hd (tagged_with n tagged))) (map tid (tagged_with n tagged))" for n
    using gate_run_first [OF *(2) [of n]] by (cases "tagged_with n tagged") (auto simp: new_gate_def)
  with * show ?thesis by (intro exI [of _ tagged]) simp
qed

lemma parse_orderbook_uid: "parse_orderbook api j n = Some b \<Longrightarrow> 0 < uid b"
  by (auto simp: parse_orderbook_def ob_set_symbol_def split: if_splits bind_splits)

lemma carried_book_pos: "carried_book api cfg msg = Some (n, b) \<Longrightarrow> 0 < uid b"
  by (auto simp: carried_book_def split: route.splits if_splits dest: parse_orderbook_uid)

lemma carried_books_pos: "b \<in> set (carried_books api cfg n ms) \<Longrightarrow> 0 < uid b"
proof (induction ms)
  case (Cons m ms)
  obtain clk msg where "m = (clk, msg)" by (cases m)
  with Cons show ?case using carried_book_pos [of api cfg msg n b]
    by (cases "carried_book api cfg msg") (auto split: if_splits)
qed simp

text \<open>(C16) Delivered order books. The books handed to the user split by stream symbol so that, for every symbol,
  their update ids are those of the symbol's well-formed books that do not go back behind the
  last delivered one; they are positive and never decrease.
\<close>
theorem delivered_books_forward:
  assumes "run_messages api cfg (log_callbacks tt tb) ms (new_conn empty_log) = Some c"
  shows "\<exists>tagged. map snd tagged = book_log (user c) \<and> (\<forall>x \<in> set tagged. subscribed cfg (fst x))
    \<and> (\<forall>n. map uid (tagged_with n tagged) = keep_forward 0 (map uid (carried_books api cfg n ms))
         \<and> sorted (map uid (tagged_with n tagged)) \<and> (\<forall>b \<in> set (tagged_with n tagged). 0 < uid b))"
proof -
  obtain tagged where *: "book_log (user c) = map snd tagged"
    "\<And>n. map uid (tagged_with n tagged) = keep_forward 0 (map uid (carried_books api cfg n ms))"
    "\<forall>x \<in> set tagged. subscribed cfg (fst x)"
    using run_books [OF assms] by auto
  have "sorted (map uid (tagged_with n tagged)) \<and> (\<forall>i \<in> set (map uid (tagged_with n tagged)). 0 < i)" for n
  proof -
    have "\<forall>i \<in> set (map uid (carried_books api cfg n ms)). 0 < i"
      using carried_books_pos [of _ api cfg n ms] by auto
    then show ?thesis unfolding *(2) using keep_forward_sorted by blast
  qed
  then have "sorted (map uid (tagged_with n tagged)) \<and> (\<forall>b \<in> set (tagged_with n tagged). 0 < uid b)" for n by simp
  then have "map uid (tagged_with n tagged) = keep_forward 0 (map uid (carried_books api cfg n ms))
    \<and> sorted (map uid (tagged_with n tagged)) \<and> (\<forall>b \<in> set (tagged_with n tagged). 0 < uid b)" for n
    using *(2) by blast
  then have all: "\<forall>n. map uid (tagged_with n tagged) = keep_forward 0 (map uid (carried_books api cfg n ms))
    \<and> sorted (map uid (tagged_with n tagged)) \<and> (\<forall>b \<in> set (tagged_with n tagged). 0 < uid b)" by (rule allI)
  show ?thesis by (rule exI [of _ tagged], intro conjI all *(3) *(1) [symmetric])
qed

text \<open>(C8) Accounting. After any run the counters are exact (modulo their width): messages received, trades and
  books delivered, callbacks that threw; and both the number of gaps and the number of
  recovering symbols are the number of symbols for which \<open>can_trade\<close> is false.
\<close>
theorem flow_accounting:
  assumes "run_messages api cfg (log_callbacks tt tb) ms (new_conn empty_log) = Some c"
  shows "accounts tt tb (length ms) c"
proof -
  have "accounts tt tb 0 (new_conn empty_log)"
    by (simp add: accounts_def) (simp add: new_conn_def new_metrics_def)
  from accounts_run [OF assms this] show ?thesis by simp
qed

lemma gate_run_held: "gstate g = Recovering \<Longrightarrow> gate_run g (map (\<lambda>t. LiveTrade (f t)) ts) = Some (g, [])"
  by (induction ts) (simp_all add: on_live_trade_def)

text \<open>A gap is final. Once a symbol is not tradable, no later message delivers a trade of its stream and
  it stays that way: the message path never leaves the recovering state, because nothing in it
  feeds retransmitted trades to the gate.
\<close>
theorem held_forever:
  assumes "run_messages api cfg (log_callbacks tt tb) ms c = Some c'" and "\<not> can_trade c n"
  shows "\<not> can_trade c' n \<and> (\<exists>tagged. trade_log (user c') = trade_log (user c) @ map snd tagged \<and> tagged_with n tagged = [])"
proof -
  obtain tagged where *: "trade_log (user c') = trade_log (user c) @ map snd tagged"
    "gate_run (gate_of c n) (map (\<lambda>t. LiveTrade (tid t)) (carried_trades api cfg n ms)) = Some (gate_of c' n, map tid (tagged_with n tagged))"
    using run_trades [OF assms(1)] by blast
  have "gstate (gate_of c n) = Recovering"
    using assms(2) by (cases "gstate (gate_of c n)") (simp_all add: can_trade_gate)
  from gate_run_held [OF this, of tid] *(2) have "gate_of c' n = gate_of c n" "tagged_with n tagged = []" by simp_all
  with *(1) assms(2) show ?thesis by (auto simp: can_trade_gate)
qed

text \<open>(C15) No undefined behaviour. With steady clock readings that are non-negative 64-bit values, a wall clock past
  the first ten seconds of the epoch and trade ids from 0 to \<open>INT64_MAX - 1\<close>, the handler
  returns for every message, whatever its text, with any callbacks.
\<close>
theorem feed_never_overflows:
  assumes "\<forall>(clk, msg) \<in> set ms. sane_clock clk
    \<and> (\<forall>n t. carried_trade api cfg msg = Some (n, t) \<longrightarrow> safe_id (tid t))"
  shows "\<exists>c. run_messages api cfg cbs ms (new_conn u) = Some c"
  using run_messages_total [of ms api cfg "new_conn u" cbs, OF _ _ new_conn_safe] assms by fastforce

section \<open>A concrete feed\<close>

definition wrap :: "string \<Rightarrow> jvalue \<Rightarrow> jvalue" where
  "wrap stream d = JObject [(''stream'', JString stream), (''data'', d)]"

definition demo_parse :: "string \<Rightarrow> jvalue option" where
  "demo_parse = map_of [(''t1'', wrap ''btcusdt@trade'' (trade_data ''BTCUSDT'' 1)),
     (''t2'', wrap ''btcusdt@trade'' (trade_data ''BTCUSDT'' 2)), (''t4'', wrap ''btcusdt@trade'' (trade_data ''BTCUSDT'' 4)),
     (''x9'', wrap ''btcusdt@trade'' (trade_data ''XRPUSDT'' 9)),
     (''b5'', wrap ''btcusdt@depth20@100ms'' (depth_data 5)), (''b4'', wrap ''btcusdt@depth20@100ms'' (depth_data 4))]"

definition demo_clock :: raw_clock where
  "demo_clock = \<lparr>t_enter = 0, wall_us = 1700000000000000, t_after_json = 0, t_after_biz = 0, t_after_cb = 0, t_exit = 0\<rparr>"

abbreviation "demo_api \<equiv> jvalue_api demo_parse"

abbreviation demo_messages :: "(raw_clock \<times> string) list" where
  "demo_messages \<equiv> map (Pair demo_clock) [''t1'', ''b5'', ''t2'', ''bad'', ''b4'', ''t4'', ''t2'']"

lemma sane_demo_clock: "sane_clock demo_clock"
  by (simp add: sane_clock_def demo_clock_def)

lemma demo_lower: "to_lower_ascii ''btcusdt'' = ''btcusdt''"
  by code_simp

lemma demo_subscribed: "subscribed default_config ''btcusdt''"
  by (simp add: subscribed_def default_config_def demo_lower)

lemmas demo_symbol = demo_lower demo_subscribed

lemma demo_routes:
  "route demo_api default_config ''t1'' = Routed ''btcusdt'' ''trade'' (trade_data ''BTCUSDT'' 1)"
  "route demo_api default_config ''t2'' = Routed ''btcusdt'' ''trade'' (trade_data ''BTCUSDT'' 2)"
  "route demo_api default_config ''t4'' = Routed ''btcusdt'' ''trade'' (trade_data ''BTCUSDT'' 4)"
  "route demo_api default_config ''x9'' = Routed ''btcusdt'' ''trade'' (trade_data ''XRPUSDT'' 9)"
  "route demo_api default_config ''b5'' = Routed ''btcusdt'' ''depth20@100ms'' (depth_data 5)"
  "route demo_api default_config ''b4'' = Routed ''btcusdt'' ''depth20@100ms'' (depth_data 4)"
  "route demo_api default_config ''bad'' = RouteError"
  by (simp_all add: route_def demo_parse_def wrap_def demo_symbol)

lemma demo_trades:
  "carried_trade demo_api default_config ''b5'' = None" "carried_trade demo_api default_config ''b4'' = None"
  "carried_trade demo_api default_config ''bad'' = None"
  "\<exists>t. carried_trade demo_api default_config ''t1'' = Some (''btcusdt'', t) \<and> tid t = 1"
  "\<exists>t. carried_trade demo_api default_config ''t2'' = Some (''btcusdt'', t) \<and> tid t = 2"
  "\<exists>t. carried_trade demo_api default_config ''t4'' = Some (''btcusdt'', t) \<and> tid t = 4"
  "\<exists>t. carried_trade demo_api default_config ''x9'' = Some (''btcusdt'', t) \<and> tid t = 9"
  by (simp_all add: carried_trade_def demo_routes parse_trade_data has_prefix_def set_symbol_def)

lemma demo_runs:
  assumes "set ms \<subseteq> Pair demo_clock ` {''t1'', ''t2'', ''t4'', ''x9'', ''b5'', ''b4'', ''bad''}"
  shows "\<forall>(clk, msg) \<in> set ms. sane_clock clk
    \<and> (\<forall>n t. carried_trade demo_api default_config msg = Some (n, t) \<longrightarrow> safe_id (tid t))"
proof -
  have "sane_clock clk \<and> (\<forall>n t. carried_trade demo_api default_config msg = Some (n, t) \<longrightarrow> safe_id (tid t))"
    if "(clk, msg) \<in> set ms" for clk msg
  proof -
    have "clk = demo_clock" "msg \<in> {''t1'', ''t2'', ''t4'', ''x9'', ''b5'', ''b4'', ''bad''}" using assms that by auto
    then show ?thesis using demo_trades sane_demo_clock by (auto simp: safe_id_def)
  qed
  then show ?thesis by blast
qed

lemma demo_run: "\<exists>c. run_messages demo_api default_config (log_callbacks (\<lambda>_. True) (\<lambda>_. False)) demo_messages (new_conn empty_log) = Some c"
  using run_messages_total [of demo_messages demo_api default_config "new_conn empty_log" "log_callbacks (\<lambda>_. True) (\<lambda>_. False)", OF _ _ new_conn_safe]
    demo_runs [of demo_messages] by fastforce

theorem delivered_trades_consecutive_witness:
  "\<exists>c tagged. run_messages demo_api default_config (log_callbacks (\<lambda>_. True) (\<lambda>_. False)) demo_messages (new_conn empty_log) = Some c
     \<and> map snd tagged = trade_log (user c) \<and> map tid (tagged_with ''btcusdt'' tagged) = [1, 2]"
proof -
  obtain c where c: "run_messages demo_api default_config (log_callbacks (\<lambda>_. True) (\<lambda>_. False)) demo_messages (new_conn empty_log) = Some c"
    using demo_run by blast
  have ids: "map (\<lambda>t. LiveTrade (tid t)) (carried_trades demo_api default_config ''btcusdt'' demo_messages)
      = [LiveTrade 1, LiveTrade 2, LiveTrade 4, LiveTrade 2]"
    using demo_trades by auto
  obtain tagged where t: "map snd tagged = trade_log (user c)"
    "gate_run new_gate (map (\<lambda>t. LiveTrade (tid t)) (carried_trades demo_api default_config ''btcusdt'' demo_messages))
       = Some (gate_of c ''btcusdt'', map tid (tagged_with ''btcusdt'' tagged))"
    using delivered_trades_consecutive [OF c] by blast
  have "map tid (tagged_with ''btcusdt'' tagged) = [1, 2]"
    using t(2) unfolding ids by (simp add: on_live_trade_def new_gate_def i64_add_def i64_sub_def in_i64_def)
  with c t(1) show ?thesis by (intro exI [of _ c] exI [of _ tagged] conjI)
qed

lemma demo_book:
  assumes "carried_trade demo_api default_config ''b5'' = None"
  shows "\<exists>b. carried_book demo_api default_config ''b5'' = Some (''btcusdt'', b) \<and> uid b = 5"
    and "\<exists>b. carried_book demo_api default_config ''b4'' = Some (''btcusdt'', b) \<and> uid b = 4"
  using parse_depth_data [of 5 demo_parse "''btcusdt''"] parse_depth_data [of 4 demo_parse "''btcusdt''"]
  by (auto simp: carried_book_def demo_routes has_prefix_def)

lemma demo_no_book:
  "carried_book demo_api default_config ''t1'' = None" "carried_book demo_api default_config ''t2'' = None"
  "carried_book demo_api default_config ''t4'' = None" "carried_book demo_api default_config ''bad'' = None"
  by (simp_all add: carried_book_def demo_routes has_prefix_def)

theorem delivered_books_forward_witness:
  "\<exists>c tagged. run_messages demo_api default_config (log_callbacks (\<lambda>_. True) (\<lambda>_. False)) demo_messages (new_conn empty_log) = Some c
     \<and> map snd tagged = book_log (user c) \<and> map uid (tagged_with ''btcusdt'' tagged) = [5]"
proof -
  obtain c where c: "run_messages demo_api default_config (log_callbacks (\<lambda>_. True) (\<lambda>_. False)) demo_messages (new_conn empty_log) = Some c"
    using demo_run by blast
  have ids: "map uid (carried_books demo_api default_config ''btcusdt'' demo_messages) = [5, 4]"
    using demo_book [OF demo_trades(1)] demo_no_book by auto
  obtain tagged where t: "map snd tagged = book_log (user c)"
    "map uid (tagged_with ''btcusdt'' tagged) = keep_forward 0 (map uid (carried_books demo_api default_config ''btcusdt'' demo_messages))"
    using delivered_books_forward [OF c] by blast
  have "map uid (tagged_with ''btcusdt'' tagged) = [5]" using t(2) unfolding ids by simp
  with c t(1) show ?thesis by (intro exI [of _ c] exI [of _ tagged] conjI)
qed

theorem flow_accounting_witness:
  "\<exists>c. run_messages demo_api default_config (log_callbacks (\<lambda>_. True) (\<lambda>_. False)) demo_messages (new_conn empty_log) = Some c
     \<and> msgs_recv (conn_metrics c) = 7 \<and> finite {n. \<not> can_trade c n}"
proof -
  obtain c where c: "run_messages demo_api default_config (log_callbacks (\<lambda>_. True) (\<lambda>_. False)) demo_messages (new_conn empty_log) = Some c"
    using demo_run by blast
  then show ?thesis using flow_accounting [OF c] by (simp add: accounts_def Let_def)
qed

text \<open>A manager whose only gate is recovering, and a trade that arrives for it.\<close>

definition held_conn :: "feed_log conn" where
  "held_conn = (new_conn empty_log)\<lparr>trade_seq_gates := [''btcusdt'' \<mapsto>
     new_gate\<lparr>has_last := True, last_id := 2, gstate := Recovering, missing_begin := 3, missing_end := 3\<rparr>]\<rparr>"

theorem held_forever_witness:
  "\<exists>c. run_messages demo_api default_config (log_callbacks (\<lambda>_. False) (\<lambda>_. False)) [(demo_clock, ''t4'')] held_conn = Some c
     \<and> \<not> can_trade c ''btcusdt''"
proof -
  have "flow_safe held_conn"
    by (simp add: flow_safe_def held_conn_def gate_of_def new_conn_def new_gate_def offset_us_def new_calibrator_def)
  then obtain c where c: "run_messages demo_api default_config (log_callbacks (\<lambda>_. False) (\<lambda>_. False)) [(demo_clock, ''t4'')] held_conn = Some c"
    using run_messages_total [of "[(demo_clock, ''t4'')]" demo_api default_config held_conn "log_callbacks (\<lambda>_. False) (\<lambda>_. False)"]
      demo_runs [of "[(demo_clock, ''t4'')]"] by fastforce
  have "\<not> can_trade held_conn ''btcusdt''" by (simp add: can_trade_def held_conn_def gate_can_trade_def)
  from held_forever [OF c this] c show ?thesis by blast
qed

theorem feed_never_overflows_witness:
  "\<exists>c. run_messages demo_api default_config (log_callbacks (\<lambda>_. True) (\<lambda>_. False)) demo_messages (new_conn empty_log) = Some c"
  by (rule feed_never_overflows, rule demo_runs) simp

section \<open>The symbol inside a trade\<close>

text \<open>The stream's symbol is checked against the subscriptions, the symbol inside the trade is not: a message
  of the subscribed stream \<^verbatim>\<open>btcusdt@trade\<close> whose data name \<^verbatim>\<open>XRPUSDT\<close> delivers a trade
  of the symbol \<^verbatim>\<open>xrpusdt\<close>, to which nobody subscribed.
\<close>
theorem trade_symbol_unchecked:
  "\<exists>c t. on_raw_message demo_api default_config (log_callbacks (\<lambda>_. False) (\<lambda>_. False)) demo_clock ''x9'' (new_conn empty_log) = Some c
     \<and> trade_log (user c) = [t] \<and> c_string (symbol t) = bytes_of_string ''xrpusdt'' \<and> \<not> subscribed default_config ''xrpusdt''"
proof -
  have "\<exists>c. run_messages demo_api default_config (log_callbacks (\<lambda>_. False) (\<lambda>_. False)) [(demo_clock, ''x9'')] (new_conn empty_log) = Some c"
    using run_messages_total [of "[(demo_clock, ''x9'')]" demo_api default_config "new_conn empty_log" "log_callbacks (\<lambda>_. False) (\<lambda>_. False)", OF _ _ new_conn_safe]
      demo_runs [of "[(demo_clock, ''x9'')]"] by fastforce
  then obtain c where c: "on_raw_message demo_api default_config (log_callbacks (\<lambda>_. False) (\<lambda>_. False)) demo_clock ''x9'' (new_conn empty_log) = Some c"
    by (auto split: bind_splits)
  obtain t where t: "carried_trade demo_api default_config ''x9'' = Some (''btcusdt'', t)"
    "symbol t = set_symbol_bytes (replicate 16 0) (bytes_of_string (to_lower_ascii ''XRPUSDT''))"
    by (simp add: carried_trade_def demo_routes parse_trade_data has_prefix_def set_symbol_def zero_trade_def)
  from c have "user c = \<lparr>trade_log = [stamp_recv t (wall_us demo_clock)], book_log = []\<rparr>"
    by (cases rule: message_step) (simp_all add: t(1) on_live_trade_def new_gate_def log_trade_def)
  moreover have "c_string (symbol (stamp_recv t (wall_us demo_clock))) = bytes_of_string ''xrpusdt''"
    unfolding stamp_recv_def by (simp add: t(2)) code_simp
  moreover have "\<not> subscribed default_config ''xrpusdt''"
    by (simp add: subscribed_def default_config_def) code_simp
  ultimately show ?thesis using c by auto
qed

end
