(* ===== verification/Net_Urls.thy ===== *)
theory Net_Urls
  imports MDS_Prelude
begin

text \<open>
  The URLs of \<^verbatim>\<open>src/network/websocket_client.cpp\<close> and \<^verbatim>\<open>src/network/https_client.cpp\<close>, and
  the decisions of \<^verbatim>\<open>http_get\<close> around its network calls. The sources match regular
  expressions; since the host group excludes \<open>:\<close> and \<open>/\<close>, the longest host is the only one
  that can match, and each expression is a left-to-right scan here. The dot of the path group
  does not match line terminators. What the network does is the argument \<open>net\<close>.
\<close>

section \<open>Scanning\<close>

definition strip_prefix :: "string \<Rightarrow> string \<Rightarrow> string option" where
  "strip_prefix p s = (if take (length p) s = p then Some (drop (length p) s) else None)"

definition is_host_char :: "char \<Rightarrow> bool" where
  "is_host_char c \<longleftrightarrow> c \<noteq> CHR '':'' \<and> c \<noteq> CHR ''/''"

definition is_dot_char :: "char \<Rightarrow> bool" where
  "is_dot_char c \<longleftrightarrow> c \<noteq> CHR 0x0A \<and> c \<noteq> CHR 0x0D"

text \<open>The group \<^verbatim>\<open>(/.*)?\<close> up to the end of the text.\<close>

definition is_path :: "string \<Rightarrow> bool" where
  "is_path s \<longleftrightarrow> s = [] \<or> hd s = CHR ''/'' \<and> list_all is_dot_char s"

section \<open>WebSocket URLs\<close>

record url_parts =
  url_host :: string
  url_port :: string
  url_path :: string

text \<open>\<^verbatim>\<open>UrlParts::parse\<close>: \<^verbatim>\<open>wss?://([^:/]+):?(\d*)(/.*)?\<close>; empty parts when it does not match.\<close>

definition parse_ws_url :: "string \<Rightarrow> url_parts" where
  "parse_ws_url url =
     (let rest = (case strip_prefix ''wss://'' url of Some r \<Rightarrow> Some r | None \<Rightarrow> strip_prefix ''ws://'' url);
          none = \<lparr>url_host = [], url_port = [], url_path = []\<rparr>
      in case rest of None \<Rightarrow> none
       | Some r \<Rightarrow>
           (let h = takeWhile is_host_char r; r1 = dropWhile is_host_char r;
                r2 = (if r1 \<noteq> [] \<and> hd r1 = CHR '':'' then tl r1 else r1);
                p = takeWhile is_digit r2; r3 = dropWhile is_digit r2
            in if h = [] \<or> \<not> is_path r3 then none
               else \<lparr>url_host = h, url_port = (if p \<noteq> [] then p else ''443''),
                     url_path = (if r3 \<noteq> [] then r3 else ''/'')\<rparr>))"

section \<open>Proxy URLs\<close>

record proxy_target =
  proxy_host :: string
  proxy_port :: string

text \<open>\<^verbatim>\<open>^https?://([^:/]+):(\d+)/?$\<close>: \<open>Inl\<close> is the exception, \<open>Inr None\<close> a direct connection.\<close>

definition parse_proxy_url :: "string \<Rightarrow> string + proxy_target option" where
  "parse_proxy_url url =
     (if url = [] then Inr None
      else
        let rest = (case strip_prefix ''https://'' url of Some r \<Rightarrow> Some r | None \<Rightarrow> strip_prefix ''http://'' url);
            bad = Inl ''Invalid proxy_url format (expected http://host:port, no auth/path)''
        in case rest of None \<Rightarrow> bad
         | Some r \<Rightarrow>
             (let h = takeWhile is_host_char r; r1 = dropWhile is_host_char r; p = takeWhile is_digit (tl r1)
              in if h = [] \<or> r1 = [] \<or> hd r1 \<noteq> CHR '':'' \<or> p = []
                    \<or> (dropWhile is_digit (tl r1) \<noteq> [] \<and> dropWhile is_digit (tl r1) \<noteq> ''/'') then bad
                 else Inr (Some \<lparr>proxy_host = h, proxy_port = p\<rparr>)))"

section \<open>HTTP requests\<close>

record http_url =
  http_tls :: bool
  http_host :: string
  http_port :: string
  http_path :: string

text \<open>\<^verbatim>\<open>^(https?)://([^:/]+)(?::(\d+))?(/.*)?$\<close>.\<close>

definition parse_http_url :: "string \<Rightarrow> http_url option" where
  "parse_http_url url =
     (let tls = (strip_prefix ''https://'' url \<noteq> None);
          rest = (if tls then strip_prefix ''https://'' url else strip_prefix ''http://'' url)
      in case rest of None \<Rightarrow> None
       | Some r \<Rightarrow>
           (let h = takeWhile is_host_char r; r1 = dropWhile is_host_char r;
                colon = (r1 \<noteq> [] \<and> hd r1 = CHR '':'');
                p = (if colon then takeWhile is_digit (tl r1) else []);
                r2 = (if colon then dropWhile is_digit (tl r1) else r1)
            in if h = [] \<or> (colon \<and> p = []) \<or> \<not> is_path r2 then None
               else Some \<lparr>http_tls = tls, http_host = h,
                 http_port = (if p \<noteq> [] then p else if tls then ''443'' else ''80''),
                 http_path = (if r2 \<noteq> [] then r2 else ''/'')\<rparr>))"

record http_result =
  hr_ok :: bool
  hr_status :: nat
  hr_body :: string
  hr_error :: string

definition no_http_result :: http_result where
  "no_http_result = \<lparr>hr_ok = False, hr_status = 0, hr_body = [], hr_error = []\<rparr>"

text \<open>What the proxy answers to \<^verbatim>\<open>CONNECT\<close> (status, reason, bytes read beyond the header), and what
  comes of the connection, the handshake and the exchange with the server.\<close>

datatype tunnel = TunnelThrow string | TunnelReply nat string nat

datatype exchange = ExchangeThrow string | SniFailed | Response nat string

record http_net =
  net_tunnel :: "proxy_target \<Rightarrow> http_url \<Rightarrow> tunnel"
  net_exchange :: "http_url \<Rightarrow> exchange"

text \<open>\<^verbatim>\<open>connect_via_proxy\<close>: the message of the exception it throws, if any.\<close>

definition connect_via_proxy :: "http_net \<Rightarrow> proxy_target \<Rightarrow> http_url \<Rightarrow> string option" where
  "connect_via_proxy net p u = (case net_tunnel net p u of
       TunnelThrow e \<Rightarrow> Some e
     | TunnelReply status reason left \<Rightarrow>
         if status \<noteq> 200 then Some (''Proxy CONNECT failed: '' @ show_nat status @ '' '' @ reason)
         else if left \<noteq> 0 then Some ''Proxy returned unexpected bytes after CONNECT''
         else None)"

abbreviation kMaxBody :: nat where "kMaxBody \<equiv> 65536"

text \<open>\<^verbatim>\<open>write_and_read\<close> on the response that was read.\<close>

definition write_and_read :: "nat \<Rightarrow> string \<Rightarrow> http_result" where
  "write_and_read status body =
     (let out = no_http_result\<lparr>hr_status := status, hr_body := body\<rparr>
      in if kMaxBody < length body then out\<lparr>hr_body := [], hr_error := ''response body too large''\<rparr>
         else if status \<noteq> 200 then out\<lparr>hr_error := ''http status '' @ show_nat status\<rparr>
         else out\<lparr>hr_ok := True\<rparr>)"

definition http_exchange :: "http_net \<Rightarrow> http_url \<Rightarrow> http_result" where
  "http_exchange net u = (case net_exchange net u of
       ExchangeThrow e \<Rightarrow> no_http_result\<lparr>hr_error := e\<rparr>
     | SniFailed \<Rightarrow> no_http_result\<lparr>hr_error := ''SNI failed''\<rparr>
     | Response status body \<Rightarrow> write_and_read status body)"

definition http_get :: "http_net \<Rightarrow> string \<Rightarrow> string \<Rightarrow> http_result" where
  "http_get net url proxy_url = (case parse_http_url url of
       None \<Rightarrow> no_http_result\<lparr>hr_error := ''invalid url''\<rparr>
     | Some u \<Rightarrow> (case parse_proxy_url proxy_url of
           Inl e \<Rightarrow> no_http_result\<lparr>hr_error := e\<rparr>
         | Inr None \<Rightarrow> http_exchange net u
         | Inr (Some p) \<Rightarrow>
             if \<not> http_tls u then no_http_result\<lparr>hr_error := ''proxy requires https url''\<rparr>
             else (case connect_via_proxy net p u of
                 Some e \<Rightarrow> no_http_result\<lparr>hr_error := e\<rparr>
               | None \<Rightarrow> http_exchange net u)))"

section \<open>Scanning what was built\<close>

lemma takeWhile_all_append: "list_all P xs \<Longrightarrow> ys = [] \<or> \<not> P (hd ys) \<Longrightarrow> takeWhile P (xs @ ys) = xs \<and> dropWhile P (xs @ ys) = ys"
  by (induction xs) (cases ys; auto)+

lemma strip_prefix_append [simp]: "strip_prefix p (p @ s) = Some s"
  by (simp add: strip_prefix_def)

lemma host_char_simps [simp]: "\<not> is_host_char CHR '':''" "\<not> is_host_char CHR ''/''" "\<not> is_digit CHR ''/''" "is_dot_char CHR ''/''"
  by (simp_all add: is_host_char_def is_digit_def is_dot_char_def)

text \<open>The parts a URL may be built from.\<close>

definition good_host :: "string \<Rightarrow> bool" where
  "good_host h \<longleftrightarrow> h \<noteq> [] \<and> list_all is_host_char h"

definition good_port :: "string \<Rightarrow> bool" where
  "good_port p \<longleftrightarrow> p \<noteq> [] \<and> list_all is_digit p"

definition good_path :: "string \<Rightarrow> bool" where
  "good_path s \<longleftrightarrow> s \<noteq> [] \<and> is_path s"

lemma good_path_hd: "good_path s \<Longrightarrow> s \<noteq> [] \<and> hd s = CHR ''/'' \<and> is_path s \<and> \<not> is_host_char (hd s) \<and> \<not> is_digit (hd s)"
  by (auto simp: good_path_def is_path_def)

lemma scan_host:
  assumes "good_host h" and "r = [] \<or> \<not> is_host_char (hd r)"
  shows "takeWhile is_host_char (h @ r) = h" "dropWhile is_host_char (h @ r) = r"
  using takeWhile_all_append [of is_host_char h r] assms by (auto simp: good_host_def)

lemma scan_port:
  assumes "good_port p" and "r = [] \<or> \<not> is_digit (hd r)"
  shows "takeWhile is_digit (p @ r) = p" "dropWhile is_digit (p @ r) = r"
  using takeWhile_all_append [of is_digit p r] assms by (auto simp: good_port_def)

text \<open>Parsing recovers the parts a URL was built from: host, port and path of a WebSocket URL and of an HTTP
  URL, with the documented defaults where a part is missing, and host and port of a proxy, with
  or without a final slash. A proxy URL with a user name or a path is refused.
\<close>
theorem url_roundtrip:
  assumes "good_host h" and "good_port p" and "good_path q"
  shows "parse_ws_url (''wss://'' @ h @ '':'' @ p @ q) = \<lparr>url_host = h, url_port = p, url_path = q\<rparr>
    \<and> parse_ws_url (''wss://'' @ h) = \<lparr>url_host = h, url_port = ''443'', url_path = ''/''\<rparr>
    \<and> parse_http_url (''https://'' @ h @ '':'' @ p @ q) = Some \<lparr>http_tls = True, http_host = h, http_port = p, http_path = q\<rparr>
    \<and> parse_http_url (''https://'' @ h @ q) = Some \<lparr>http_tls = True, http_host = h, http_port = ''443'', http_path = q\<rparr>
    \<and> parse_proxy_url (''http://'' @ h @ '':'' @ p) = Inr (Some \<lparr>proxy_host = h, proxy_port = p\<rparr>)
    \<and> parse_proxy_url (''http://'' @ h @ '':'' @ p @ ''/'') = Inr (Some \<lparr>proxy_host = h, proxy_port = p\<rparr>)
    \<and> (q \<noteq> ''/'' \<longrightarrow> (\<exists>e. parse_proxy_url (''http://'' @ h @ '':'' @ p @ q) = Inl e))"
proof -
  note q = good_path_hd [OF assms(3)]
  have ne: "h \<noteq> []" "p \<noteq> []" using assms by (simp_all add: good_host_def good_port_def)
  have hq: "takeWhile is_host_char (h @ q) = h" "dropWhile is_host_char (h @ q) = q"
    using scan_host [OF assms(1)] q by blast+
  have hc: "takeWhile is_host_char (h @ CHR '':'' # r) = h" "dropWhile is_host_char (h @ CHR '':'' # r) = CHR '':'' # r" for r
    using scan_host [OF assms(1), of "CHR '':'' # r"] by simp_all
  have h0: "takeWhile is_host_char h = h" "dropWhile is_host_char h = []" using scan_host [OF assms(1), of "[]"] by simp_all
  have pq: "takeWhile is_digit (p @ q) = p" "dropWhile is_digit (p @ q) = q" using scan_port [OF assms(2)] q by blast+
  have p0: "takeWhile is_digit p = p" "dropWhile is_digit p = []" using scan_port [OF assms(2), of "[]"] by simp_all
  have ps: "takeWhile is_digit (p @ ''/'') = p" "dropWhile is_digit (p @ ''/'') = ''/''"
    using scan_port [OF assms(2), of "''/''"] by simp_all
  have path: "is_path q" "is_path []" "q \<noteq> []" "hd q \<noteq> CHR '':''" using q by (auto simp: is_path_def)
  note scans = strip_prefix_def hq hc h0 pq p0 ps path ne
  have "parse_ws_url (''wss://'' @ h @ '':'' @ p @ q) = \<lparr>url_host = h, url_port = p, url_path = q\<rparr>"
    "parse_ws_url (''wss://'' @ h) = \<lparr>url_host = h, url_port = ''443'', url_path = ''/''\<rparr>"
    by (simp_all add: parse_ws_url_def Let_def scans del: dropWhile_eq_Nil_conv takeWhile_eq_Nil_iff)
  moreover have "parse_http_url (''https://'' @ h @ '':'' @ p @ q) = Some \<lparr>http_tls = True, http_host = h, http_port = p, http_path = q\<rparr>"
    "parse_http_url (''https://'' @ h @ q) = Some \<lparr>http_tls = True, http_host = h, http_port = ''443'', http_path = q\<rparr>"
    by (simp_all add: parse_http_url_def Let_def scans del: dropWhile_eq_Nil_conv takeWhile_eq_Nil_iff)
  moreover have "parse_proxy_url (''http://'' @ h @ '':'' @ p) = Inr (Some \<lparr>proxy_host = h, proxy_port = p\<rparr>)"
    "parse_proxy_url (''http://'' @ h @ '':'' @ p @ ''/'') = Inr (Some \<lparr>proxy_host = h, proxy_port = p\<rparr>)"
    by (simp_all add: parse_proxy_url_def Let_def scans del: dropWhile_eq_Nil_conv takeWhile_eq_Nil_iff)
  moreover have "\<exists>e. parse_proxy_url (''http://'' @ h @ '':'' @ p @ q) = Inl e" if "q \<noteq> ''/''"
    using that by (simp add: parse_proxy_url_def Let_def scans del: dropWhile_eq_Nil_conv takeWhile_eq_Nil_iff)
  ultimately show ?thesis by blast
qed

text \<open>A successful request was made to a well-formed URL, through a proxy only with TLS, and its body
  is complete and of bounded size.\<close>

lemma http_exchange_ok:
  assumes "hr_ok (http_exchange net u)"
  shows "hr_status (http_exchange net u) = 200 \<and> length (hr_body (http_exchange net u)) \<le> kMaxBody
    \<and> net_exchange net u = Response 200 (hr_body (http_exchange net u))"
  using assms
  by (cases "net_exchange net u") (auto simp: http_exchange_def write_and_read_def no_http_result_def Let_def split: if_splits)

lemma http_get_ok:
  assumes "hr_ok (http_get net url proxy)"
  shows "hr_status (http_get net url proxy) = 200 \<and> length (hr_body (http_get net url proxy)) \<le> kMaxBody
    \<and> (\<exists>u. parse_http_url url = Some u \<and> net_exchange net u = Response 200 (hr_body (http_get net url proxy))
         \<and> (proxy = [] \<or> http_tls u))"
proof -
  have no: "\<not> hr_ok (no_http_result\<lparr>hr_error := e\<rparr>)" for e by (simp add: no_http_result_def)
  obtain u where u: "parse_http_url url = Some u" using assms no by (auto simp: http_get_def split: option.splits)
  obtain pr where pr: "parse_proxy_url proxy = Inr pr" using assms no u by (auto simp: http_get_def split: sum.splits)
  have "proxy = []" if "pr = None" using pr that by (auto simp: parse_proxy_url_def Let_def split: if_splits option.splits)
  moreover have "http_get net url proxy = http_exchange net u \<and> (pr \<noteq> None \<longrightarrow> http_tls u)"
    using assms no u pr by (cases pr) (auto simp: http_get_def split: if_splits option.splits)
  ultimately show ?thesis using http_exchange_ok [of net u] assms u by auto
qed

lemma example_url_parts:
  "good_host ''stream.binance.com''" "good_port ''9443''" "good_path ''/stream''"
  by code_simp+

theorem url_roundtrip_witness:
  "parse_ws_url ''wss://stream.binance.com:9443/stream''
     = \<lparr>url_host = ''stream.binance.com'', url_port = ''9443'', url_path = ''/stream''\<rparr>"
  using url_roundtrip [OF example_url_parts] by simp

end
