(* ===== verification/Clock_Sync.thy ===== *)
theory Clock_Sync
  imports Clock_Offset Metrics Json_Api Net_Urls Config_Load
begin

text \<open>
  The calibration thread: \<^verbatim>\<open>clock_sync_loop\<close> of \<^verbatim>\<open>src/network/connection_manager.cpp\<close> and
  \<^verbatim>\<open>parse_binance_server_time_us\<close> of \<^verbatim>\<open>src/network/https_client.cpp\<close>. A round takes the wall
  clock before and after the request and the result of \<^verbatim>\<open>http_get\<close>; it updates the
  calibrator, copies its values to the metrics and yields the time to wait. Log output is not
  modelled. \<^const>\<open>None\<close> is a signed overflow.
\<close>

section \<open>The server's answer\<close>

abbreviation max_ms :: int where "max_ms \<equiv> i64_max div 1000"

definition parse_binance_server_time_us :: "'j json_api \<Rightarrow> string \<Rightarrow> int option" where
  "parse_binance_server_time_us api text = do {
     j \<leftarrow> js_parse api text;
     ensure (js_is_object api j);
     v \<leftarrow> js_find api j ''serverTime'';
     if js_is_unsigned api v then do {
       u \<leftarrow> js_uint64 api v;
       ensure (\<not> (u = 0 \<or> max_ms < uint u));
       Some (uint u * 1000)
     } else if js_is_integer api v then do {
       i \<leftarrow> js_int64 api v;
       ensure (\<not> (sint i \<le> 0 \<or> max_ms < sint i));
       Some (sint i * 1000)
     } else None
   }"

definition time_url :: "config \<Rightarrow> string" where
  "time_url cfg = rev (dropWhile (\<lambda>c. c = CHR ''/'') (rev (rest_api_url cfg))) @ ''/api/v3/time''"

section \<open>A round\<close>

record sync_state =
  sync_cal :: calibrator
  sync_metrics :: metrics
  fail_streak :: nat

definition new_sync :: sync_state where
  "new_sync = \<lparr>sync_cal = new_calibrator, sync_metrics = new_metrics, fail_streak = 0\<rparr>"

definition publish_clock :: "calibrator \<Rightarrow> metrics \<Rightarrow> metrics" where
  "publish_clock c m = m\<lparr>clock_offset_us := of_int (offset_us c), clock_offset_ready := (if has_offset c then 1 else 0),
     clock_sync_ok := accept_count c, clock_sync_fail := fail_count c,
     clock_sync_rtt_us := (if last_rtt_us c < 0 then 0 else of_int (last_rtt_us c))\<rparr>"

definition wait_ms :: "nat \<Rightarrow> int" where
  "wait_ms streak = (if 0 < streak then min 300000 (30000 * 2 ^ min (streak - 1) 4) else 30000)"

definition sync_round :: "'j json_api \<Rightarrow> int \<times> int \<Rightarrow> http_result \<Rightarrow> sync_state \<Rightarrow> (sync_state \<times> int) option" where
  "sync_round api tms resp s = do {
     (c, r) \<leftarrow> (if \<not> hr_ok resp then Some (on_transport_failure (sync_cal s))
       else on_sample (sync_cal s) (fst tms) (snd tms)
         (case parse_binance_server_time_us api (hr_body resp) of Some us \<Rightarrow> us | None \<Rightarrow> 0));
     let streak = (if reason r = Accepted then 0 else fail_streak s + 1);
     Some (\<lparr>sync_cal = c, sync_metrics = publish_clock c (sync_metrics s), fail_streak = streak\<rparr>, wait_ms streak)
   }"

text \<open>The rounds made while \<open>running_\<close> is true; each request is to \<^const>\<open>time_url\<close> through the
  configured proxy.\<close>

fun clock_sync_loop :: "'j json_api \<Rightarrow> config \<Rightarrow> ((int \<times> int) \<times> http_net) list \<Rightarrow> sync_state \<Rightarrow> (sync_state \<times> int list) option" where
  "clock_sync_loop api cfg [] s = Some (s, [])"
| "clock_sync_loop api cfg ((tms, net) # rs) s = do {
     (s1, w) \<leftarrow> sync_round api tms (http_get net (time_url cfg) (proxy_url cfg)) s;
     (s2, ws) \<leftarrow> clock_sync_loop api cfg rs s1;
     Some (s2, w # ws)
   }"

section \<open>Lemmas\<close>

lemma server_time_bounds:
  "parse_binance_server_time_us api text = Some us \<Longrightarrow> 0 < us \<and> us \<le> i64_max \<and> us mod 1000 = 0"
  by (auto simp: parse_binance_server_time_us_def not_le word_neq_0_conv split: if_splits bind_splits)
    (metis word_gt_0 unsigned_eq_0_iff less_le uint_ge_0)

lemma wait_ms_bounds: "30000 \<le> wait_ms k \<and> wait_ms k \<le> 300000"
proof -
  have "1 \<le> (2::int) ^ min (k - 1) 4" by simp
  then show ?thesis by (simp add: wait_ms_def min_def)
qed

lemma wait_ms_eval: "map wait_ms [0, 1, 2, 3, 4, 5, 6] = [30000, 30000, 60000, 120000, 240000, 300000, 300000]"
  by (simp add: wait_ms_def)

definition sync_inv :: "nat \<Rightarrow> sync_state \<Rightarrow> bool" where
  "sync_inv n s \<longleftrightarrow> calibrator_inv (sync_cal s)
     \<and> accept_count (sync_cal s) + fail_count (sync_cal s) = of_nat n
     \<and> (0 < n \<longrightarrow> sync_metrics s = publish_clock (sync_cal s) (sync_metrics s))"

lemma publish_clock_idem [simp]: "publish_clock c (publish_clock c m) = publish_clock c m"
  by (simp add: publish_clock_def)

lemma sync_round_inv:
  assumes "sync_round api tms resp s = Some (s', w)" and "sync_inv n s"
  shows "sync_inv (Suc n) s' \<and> w = wait_ms (fail_streak s') \<and> (fail_streak s' = 0 \<or> fail_streak s' = Suc (fail_streak s))"
proof -
  obtain c r where cr: "(if \<not> hr_ok resp then Some (on_transport_failure (sync_cal s))
       else on_sample (sync_cal s) (fst tms) (snd tms)
         (case parse_binance_server_time_us api (hr_body resp) of Some us \<Rightarrow> us | None \<Rightarrow> 0)) = Some (c, r)"
    and s': "s' = \<lparr>sync_cal = c, sync_metrics = publish_clock c (sync_metrics s),
        fail_streak = (if reason r = Accepted then 0 else fail_streak s + 1)\<rparr>" "w = wait_ms (fail_streak s')"
    using assms(1) by (auto simp: sync_round_def Let_def split: bind_splits)
  have "calibrate (sync_cal s) [if hr_ok resp then Sample (fst tms) (snd tms)
       (case parse_binance_server_time_us api (hr_body resp) of Some us \<Rightarrow> us | None \<Rightarrow> 0) else Transport] = Some c"
    using cr by (auto split: if_splits)
  from calibrate_inv [OF this] assms(2) have "calibrator_inv c \<and> accept_count c + fail_count c = of_nat (Suc n)"
    by (simp add: sync_inv_def)
  then show ?thesis using s' by (simp add: sync_inv_def)
qed

lemma clock_sync_loop_inv:
  "clock_sync_loop api cfg rs s = Some (s', ws) \<Longrightarrow> sync_inv n s \<Longrightarrow>
     sync_inv (n + length rs) s' \<and> length ws = length rs \<and> (\<forall>w \<in> set ws. 30000 \<le> w \<and> w \<le> 300000)
     \<and> (ws \<noteq> [] \<longrightarrow> last ws = wait_ms (fail_streak s'))"
proof (induction rs arbitrary: s n ws)
  case (Cons r rs)
  obtain tms net where r: "r = (tms, net)" by (cases r)
  obtain s1 w ws1 where 1: "sync_round api tms (http_get net (time_url cfg) (proxy_url cfg)) s = Some (s1, w)"
    "clock_sync_loop api cfg rs s1 = Some (s', ws1)" "ws = w # ws1"
    using Cons.prems(1) by (auto simp: r split: bind_splits)
  note i = sync_round_inv [OF 1(1) Cons.prems(2)]
  then have "sync_inv (Suc n) s1" by blast
  from Cons.IH [OF 1(2) this] i 1(3) show ?case
    using 1(2) wait_ms_bounds by (auto simp: neq_Nil_conv split: if_splits)
qed simp

section \<open>Properties\<close>

text \<open>The calibration thread. After any rounds the metrics show the calibrator's values: an offset within
  ten seconds, the ready flag, the round trip, and accepted plus rejected samples equal to the
  rounds made. Every wait is between 30 seconds and 5 minutes; the last one is 30 seconds after
  an accepted sample and doubles from 30 seconds with each consecutive failure up to the bound.
\<close>
theorem clock_sync_published:
  assumes "clock_sync_loop api cfg rs new_sync = Some (s, ws)" and "rs \<noteq> []"
  shows "clock_offset_us (sync_metrics s) = of_int (offset_us (sync_cal s)) \<and> \<bar>offset_us (sync_cal s)\<bar> \<le> kMaxAbsOffsetUs
    \<and> clock_offset_ready (sync_metrics s) = (if has_offset (sync_cal s) then 1 else 0)
    \<and> clock_sync_rtt_us (sync_metrics s) = of_int (last_rtt_us (sync_cal s))
    \<and> clock_sync_ok (sync_metrics s) + clock_sync_fail (sync_metrics s) = of_nat (length rs)
    \<and> length ws = length rs \<and> (\<forall>w \<in> set ws. 30000 \<le> w \<and> w \<le> 300000)
    \<and> last ws = (if fail_streak s = 0 then 30000 else min 300000 (30000 * 2 ^ min (fail_streak s - 1) 4))"
proof -
  have "sync_inv 0 new_sync" by (simp add: sync_inv_def new_sync_def calibrator_inv_def new_calibrator_def)
  note i = clock_sync_loop_inv [OF assms(1) this]
  let ?c = "sync_cal s"
  have inv: "calibrator_inv ?c" "accept_count ?c + fail_count ?c = of_nat (length rs)"
    and m: "sync_metrics s = publish_clock ?c (sync_metrics s)"
    using i assms(2) by (simp_all add: sync_inv_def)
  have "clock_offset_us (sync_metrics s) = of_int (offset_us ?c)"
    "clock_offset_ready (sync_metrics s) = (if has_offset ?c then 1 else 0)"
    "clock_sync_rtt_us (sync_metrics s) = of_int (last_rtt_us ?c)"
    "clock_sync_ok (sync_metrics s) = accept_count ?c" "clock_sync_fail (sync_metrics s) = fail_count ?c"
    using inv(1) by (subst m, simp add: publish_clock_def calibrator_inv_def)+
  moreover have "\<bar>offset_us ?c\<bar> \<le> kMaxAbsOffsetUs" using inv(1) by (simp add: calibrator_inv_def offset_us_def)
  moreover have "ws \<noteq> []" using i assms(2) by auto
  ultimately show ?thesis using i inv(2) by (simp add: wait_ms_def)
qed

theorem clock_sync_published_witness:
  "\<exists>s. clock_sync_loop (jvalue_api (\<lambda>_. None)) default_config
     [((0, 0), \<lparr>net_tunnel = (\<lambda>_ _. TunnelThrow []), net_exchange = (\<lambda>_. ExchangeThrow [])\<rparr>)] new_sync = Some (s, [30000])
     \<and> clock_sync_ok (sync_metrics s) + clock_sync_fail (sync_metrics s) = 1"
proof -
  let ?net = "\<lparr>net_tunnel = (\<lambda>_ _. TunnelThrow []), net_exchange = (\<lambda>_. ExchangeThrow [])\<rparr>"
  have "\<not> hr_ok (http_get ?net u pu)" for u pu
    using http_get_ok [of ?net u pu] by auto
  then obtain s where s: "clock_sync_loop (jvalue_api (\<lambda>_. None)) default_config [((0, 0), ?net)] new_sync = Some (s, [30000])"
    by (simp add: sync_round_def on_transport_failure_def wait_ms_def new_sync_def)
  from clock_sync_published [OF s] s show ?thesis by auto
qed

end
