(* ===== verification/Ws_Connection.thy ===== *)
theory Ws_Connection
  imports Net_Urls Message_Flow
begin

text \<open>
  Making a WebSocket connection: \<^verbatim>\<open>connect\<close> and the timing of \<^verbatim>\<open>heartbeat_loop\<close> of
  \<^verbatim>\<open>src/network/websocket_client.cpp\<close>, the subscription message of
  \<^verbatim>\<open>src/network/connection_manager.cpp\<close>, and \<^verbatim>\<open>src/monitor/cpu_affinity.cpp\<close>. What the
  network and the operating system answer is an argument. Starting a thread does not fail here.
\<close>

section \<open>Connecting\<close>

text \<open>
  The outcome of the network calls: the reply of the proxy, or the message of an exception thrown
  while connecting directly, in the TLS handshake, or in the WebSocket handshake.
\<close>

record ws_net =
  ws_tunnel :: "proxy_target \<Rightarrow> string \<Rightarrow> tunnel"
  ws_direct :: "string \<Rightarrow> string \<Rightarrow> string option"
  ws_sni :: "string \<Rightarrow> bool"
  ws_tls :: "string option"
  ws_handshake :: "string \<Rightarrow> string \<Rightarrow> string option"

record ws_impl =
  connected_flag :: bool
  running_flag :: bool
  disconnect_notified :: bool
  impl_ping_interval_ms :: int
  impl_no_data_timeout_ms :: int
  last_recv_time_ms :: int
  read_thread :: bool
  heartbeat_thread :: bool
  socket_open :: bool

definition new_impl :: ws_impl where
  "new_impl = \<lparr>connected_flag = False, running_flag = False, disconnect_notified = False, impl_ping_interval_ms = 1000,
     impl_no_data_timeout_ms = 3000, last_recv_time_ms = 0, read_thread = False, heartbeat_thread = False, socket_open = False\<rparr>"

datatype ws_note = On_Error string | On_Connect | On_Disconnect | On_Message string

text \<open>The tunnel through a proxy; an exception closes the socket on its way out.\<close>

definition ws_via_proxy :: "ws_net \<Rightarrow> proxy_target \<Rightarrow> url_parts \<Rightarrow> 'a ws_impl_scheme \<Rightarrow> 'a ws_impl_scheme \<times> string option" where
  "ws_via_proxy net p u s =
     (let failed = (\<lambda>e. (s\<lparr>socket_open := False\<rparr>, Some e)) in
      case ws_tunnel net p (url_host u @ '':'' @ url_port u) of
        TunnelThrow e \<Rightarrow> failed e
      | TunnelReply status phrase left \<Rightarrow>
          if status \<noteq> 200 then failed (''Proxy CONNECT failed: '' @ show_nat status @ '' '' @ phrase)
          else if left \<noteq> 0 then failed (''Proxy returned '' @ show_nat left @ '' unexpected bytes after CONNECT response'')
          else (s\<lparr>socket_open := True\<rparr>, None))"

definition ws_tcp :: "ws_net \<Rightarrow> string \<Rightarrow> url_parts \<Rightarrow> 'a ws_impl_scheme \<Rightarrow> 'a ws_impl_scheme \<times> string option" where
  "ws_tcp net proxy u s = (case parse_proxy_url proxy of
       Inl e \<Rightarrow> (s, Some e)
     | Inr (Some p) \<Rightarrow> ws_via_proxy net p u s
     | Inr None \<Rightarrow> (case ws_direct net (url_host u) (url_port u) of
           Some e \<Rightarrow> (s, Some e)
         | None \<Rightarrow> (s\<lparr>socket_open := True\<rparr>, None)))"

text \<open>The body of the \<^verbatim>\<open>try\<close>: \<open>Inl\<close> is an exception, \<open>Inr False\<close> the early return.\<close>

definition ws_open :: "ws_net \<Rightarrow> int \<Rightarrow> string \<Rightarrow> url_parts \<Rightarrow> 'a ws_impl_scheme \<Rightarrow> 'a ws_impl_scheme \<times> (string + bool)" where
  "ws_open net now proxy u s =
     (case ws_tcp net proxy u s of
        (s1, Some e) \<Rightarrow> (s1, Inl e)
      | (s1, None) \<Rightarrow>
          if \<not> ws_sni net (url_host u) then (s1, Inr False)
          else (case ws_tls net of
              Some e \<Rightarrow> (s1, Inl e)
            | None \<Rightarrow> (case ws_handshake net (url_host u @ '':'' @ url_port u) (url_path u) of
                Some e \<Rightarrow> (s1, Inl e)
              | None \<Rightarrow> (s1\<lparr>running_flag := True, last_recv_time_ms := now, read_thread := True, heartbeat_thread := True\<rparr>, Inr True))))"

definition ws_prepare :: "int \<Rightarrow> int \<Rightarrow> 'a ws_impl_scheme \<Rightarrow> 'a ws_impl_scheme" where
  "ws_prepare ping timeout s =
     s\<lparr>disconnect_notified := False, impl_ping_interval_ms := ping, impl_no_data_timeout_ms := timeout\<rparr>"

definition ws_connect ::
  "ws_net \<Rightarrow> int \<Rightarrow> string \<Rightarrow> string \<Rightarrow> int \<Rightarrow> int \<Rightarrow> 'a ws_impl_scheme \<Rightarrow> 'a ws_impl_scheme \<times> ws_note list \<times> bool" where
  "ws_connect net now url proxy ping timeout s =
     (case ws_open net now proxy (parse_ws_url url) (ws_prepare ping timeout s) of
        (s2, Inl e) \<Rightarrow> (s2, [On_Error e], False)
      | (s2, Inr False) \<Rightarrow> (s2, [], False)
      | (s2, Inr True) \<Rightarrow> (s2\<lparr>connected_flag := True\<rparr>, [On_Connect], True))"

section \<open>The heartbeat\<close>

text \<open>
  A wake-up of the loop: whether \<open>running_\<close> is still set, the time in milliseconds and the time
  of the last message. A round sends a ping, or closes the socket.
\<close>

datatype hb_action = Hb_Ping | Hb_Error int | Hb_Close_Socket

datatype hb_end = Hb_Waiting | Hb_Stopped | Hb_Timeout

fun heartbeat_loop :: "int \<Rightarrow> (bool \<times> int \<times> int) list \<Rightarrow> hb_action list \<times> hb_end" where
  "heartbeat_loop timeout_ms [] = ([], Hb_Waiting)"
| "heartbeat_loop timeout_ms ((run, now, last_recv) # wakes) =
     (if \<not> run then ([], Hb_Stopped)
      else let since_last_recv = now - last_recv in
        if since_last_recv > timeout_ms then ([Hb_Error since_last_recv, Hb_Close_Socket], Hb_Timeout)
        else (case heartbeat_loop timeout_ms wakes of (acts, e) \<Rightarrow> (Hb_Ping # acts, e)))"

section \<open>Subscribing\<close>

definition subscribe_params :: "string list \<Rightarrow> string list" where
  "subscribe_params names = concat (map (\<lambda>n. [n @ ''@trade'', n @ ''@depth20@100ms'']) names)"

text \<open>\<open>dump\<close> is the serialiser of the JSON library; the order of the members carries no meaning.\<close>

definition build_subscribe_msg :: "(jvalue \<Rightarrow> string) \<Rightarrow> string list \<Rightarrow> string" where
  "build_subscribe_msg dump names = dump (JObject [(''method'', JString ''SUBSCRIBE''),
     (''params'', JArray (map JString (subscribe_params names))), (''id'', JInt 1)])"

section \<open>CPU affinity\<close>

record affinity_os =
  os_online :: int                       \<comment> \<open>\<open>sysconf(_SC_NPROCESSORS_ONLN)\<close>\<close>
  os_hardware_concurrency :: "32 word"
  os_setaffinity :: "nat set \<Rightarrow> int"     \<comment> \<open>the error number, 0 on success\<close>

datatype pin_error = Negative_Cpu | No_Cpu_Count | Cpu_Out_Of_Range int "32 word" | Setaffinity_Failed int

definition detect_cpu_count :: "affinity_os \<Rightarrow> 32 word" where
  "detect_cpu_count os = (if os_online os > 0 then of_int (os_online os) else os_hardware_concurrency os)"

text \<open>\<^verbatim>\<open>CPU_SET\<close> leaves the set of 1024 bits empty for a number beyond it.\<close>

definition pin_current_thread_to_cpu :: "affinity_os \<Rightarrow> int \<Rightarrow> pin_error + unit" where
  "pin_current_thread_to_cpu os cpu =
     (if cpu < 0 then Inl Negative_Cpu
      else (let upper = detect_cpu_count os in
        if upper = 0 then Inl No_Cpu_Count
        else if (of_int cpu :: 32 word) \<ge> upper then Inl (Cpu_Out_Of_Range cpu upper)
        else (let rc = os_setaffinity os (if cpu < 1024 then {nat cpu} else {}) in
          if rc \<noteq> 0 then Inl (Setaffinity_Failed rc) else Inr ())))"

section \<open>Outcomes of a connection attempt\<close>

lemma ws_tcp_outcome:
  "ws_tcp net proxy u s = (s', r) \<Longrightarrow> (\<exists>b. s' = s\<lparr>socket_open := b\<rparr>) \<and> (r = None \<longrightarrow> socket_open s')
     \<and> (\<forall>p. parse_proxy_url proxy = Inr (Some p) \<and> r \<noteq> None \<longrightarrow> \<not> socket_open s')"
  by (cases s) (auto simp: ws_tcp_def ws_via_proxy_def Let_def split: sum.splits option.splits tunnel.splits if_splits)

lemma ws_connect_false:
  assumes "ws_connect net now url proxy ping timeout s = (s', notes, False)"
  shows "running_flag s' = running_flag s \<and> read_thread s' = read_thread s \<and> connected_flag s' = connected_flag s
    \<and> On_Connect \<notin> set notes \<and> length notes \<le> 1"
  using assms by (auto simp: ws_connect_def ws_prepare_def ws_open_def Let_def dest!: ws_tcp_outcome
      split: prod.splits option.splits sum.splits bool.splits if_splits)

section \<open>The heartbeat closes a silent connection\<close>

text \<open>Messages arrive at the times \<open>rs\<close>; the connection was made at \<open>t0\<close>.\<close>

definition last_recv_at :: "int \<Rightarrow> int list \<Rightarrow> int \<Rightarrow> int" where
  "last_recv_at t0 rs w = foldl max t0 (filter (\<lambda>r. r \<le> w) rs)"

lemma foldl_max: "a \<le> foldl max (a :: int) xs" "x \<in> set xs \<Longrightarrow> x \<le> foldl max a xs"
  "a \<le> q \<Longrightarrow> \<forall>x \<in> set xs. x \<le> q \<Longrightarrow> foldl max a xs \<le> q"
proof -
  show 1: "a \<le> foldl max a xs" for a :: int and xs
  proof (induction xs arbitrary: a)
    case (Cons x xs)
    have "max a x \<le> foldl max (max a x) xs" by (rule Cons.IH)
    then show ?case by simp
  qed simp
  show "x \<in> set xs \<Longrightarrow> x \<le> foldl max a xs"
  proof (induction xs arbitrary: a)
    case (Cons y ys)
    show ?case
    proof (cases "x = y")
      case True
      have "max a y \<le> foldl max (max a y) ys" by (rule 1)
      with True show ?thesis by simp
    qed (use Cons in simp)
  qed simp
  show "a \<le> q \<Longrightarrow> \<forall>x \<in> set xs. x \<le> q \<Longrightarrow> foldl max a xs \<le> q"
    by (induction xs arbitrary: a) simp_all
qed

text \<open>The loop wakes up at most \<open>d\<close> after the last wake-up, or after the connection.\<close>

fun paced :: "int \<Rightarrow> int \<Rightarrow> int list \<Rightarrow> bool" where
  "paced d t [] \<longleftrightarrow> True"
| "paced d t (w # ws) \<longleftrightarrow> t \<le> w \<and> w \<le> t + d \<and> paced d w ws"

abbreviation wakes :: "int \<Rightarrow> int list \<Rightarrow> int list \<Rightarrow> (bool \<times> int \<times> int) list" where
  "wakes t0 rs ws \<equiv> map (\<lambda>w. (True, w, last_recv_at t0 rs w)) ws"

lemma heartbeat_first:
  assumes "paced d t ws" and "t \<le> q + timeout" and "\<forall>w. last_recv_at t0 rs w \<le> q" and "ws \<noteq> []" and "q + timeout < last ws"
  shows "\<exists>n < length ws. heartbeat_loop timeout (wakes t0 rs ws)
      = (replicate n Hb_Ping @ [Hb_Error (ws ! n - last_recv_at t0 rs (ws ! n)), Hb_Close_Socket], Hb_Timeout)
    \<and> ws ! n \<le> q + timeout + d \<and> timeout < ws ! n - last_recv_at t0 rs (ws ! n)"
  using assms(1,2,4,5)
proof (induction ws arbitrary: t)
  case (Cons w ws)
  show ?case
  proof (cases "timeout < w - last_recv_at t0 rs w")
    case True
    then show ?thesis using Cons.prems(1,2) by (intro exI [of _ 0]) simp
  next
    case False
    then have w: "w \<le> q + timeout" using assms(3) [rule_format, of w] by linarith
    then have "ws \<noteq> []" using Cons.prems(4) by auto
    then obtain n where n: "n < length ws" "heartbeat_loop timeout (wakes t0 rs ws)
        = (replicate n Hb_Ping @ [Hb_Error (ws ! n - last_recv_at t0 rs (ws ! n)), Hb_Close_Socket], Hb_Timeout)"
      "ws ! n \<le> q + timeout + d" "timeout < ws ! n - last_recv_at t0 rs (ws ! n)"
      using Cons.IH [of w] Cons.prems w by auto
    then show ?thesis using False by (intro exI [of _ "Suc n"]) simp
  qed
qed simp

section \<open>Properties\<close>

text \<open>(C34) A silent connection is closed in time, and only a silent one. Let data arrive at the times \<open>rs\<close>, none after \<open>q\<close>,
  and let the heartbeat thread wake up at most \<open>ping_interval_ms\<close> plus a scheduling delay apart.
  Then, pings or not, the loop closes the socket at a wake-up no later than \<open>no_data_timeout_ms\<close>
  plus one such period after \<open>q\<close>; at that moment every message received so far, and the
  connection itself, is more than \<open>no_data_timeout_ms\<close> old; and at every wake-up before it
  sent exactly one ping.
\<close>
theorem heartbeat_detects:
  assumes "paced (ping_ms + delay) t0 ws" and "\<forall>r \<in> set rs. r \<le> q" and "t0 \<le> q" and "0 \<le> timeout"
    and "ws \<noteq> []" and "q + timeout < last ws"
  shows "\<exists>n < length ws. heartbeat_loop timeout (wakes t0 rs ws)
      = (replicate n Hb_Ping @ [Hb_Error (ws ! n - last_recv_at t0 rs (ws ! n)), Hb_Close_Socket], Hb_Timeout)
    \<and> ws ! n \<le> q + timeout + ping_ms + delay \<and> (\<forall>r \<in> set (t0 # rs). r \<le> ws ! n \<longrightarrow> timeout < ws ! n - r)"
proof -
  have b: "\<forall>w. last_recv_at t0 rs w \<le> q" using assms(2,3) foldl_max(3) [of t0 q] by (simp add: last_recv_at_def)
  have t: "t0 \<le> q + timeout" using assms(3,4) by simp
  have newest: "r \<le> last_recv_at t0 rs w" if "r \<in> set (t0 # rs)" "r \<le> w" for r w
    using that foldl_max(1) [of t0 "filter (\<lambda>r. r \<le> w) rs"] foldl_max(2) [of r "filter (\<lambda>r. r \<le> w) rs" t0]
    by (auto simp: last_recv_at_def)
  obtain n where n: "n < length ws" "heartbeat_loop timeout (wakes t0 rs ws)
      = (replicate n Hb_Ping @ [Hb_Error (ws ! n - last_recv_at t0 rs (ws ! n)), Hb_Close_Socket], Hb_Timeout)"
    "ws ! n \<le> q + timeout + (ping_ms + delay)" "timeout < ws ! n - last_recv_at t0 rs (ws ! n)"
    using heartbeat_first [OF assms(1) t b assms(5,6)] by blast
  have "\<forall>r \<in> set (t0 # rs). r \<le> ws ! n \<longrightarrow> timeout < ws ! n - r"
  proof (intro ballI impI)
    fix r
    assume "r \<in> set (t0 # rs)" and "r \<le> ws ! n"
    then show "timeout < ws ! n - r" using newest [of r "ws ! n"] n(4) by linarith
  qed
  with n show ?thesis by (intro exI [of _ n]) (simp add: algebra_simps)
qed

text \<open>Wake-ups every second, data at 500 and 900 milliseconds: closed by 4900.\<close>

theorem heartbeat_detects_witness:
  "\<exists>n < 6. fst (heartbeat_loop 3000 (wakes 0 [500, 900] [1000, 2000, 3000, 4000, 5000, 6000]))
      = replicate n Hb_Ping @ [Hb_Error ([1000, 2000, 3000, 4000, 5000, 6000] ! n
          - last_recv_at 0 [500, 900] ([1000, 2000, 3000, 4000, 5000, 6000] ! n)), Hb_Close_Socket]
    \<and> [1000, 2000, 3000, 4000, 5000, 6000] ! n \<le> (4900 :: int)"
proof -
  let ?ws = "[1000, 2000, 3000, 4000, 5000, 6000] :: int list"
  have "\<exists>n < length ?ws. heartbeat_loop 3000 (wakes 0 [500, 900] ?ws)
      = (replicate n Hb_Ping @ [Hb_Error (?ws ! n - last_recv_at 0 [500, 900] (?ws ! n)), Hb_Close_Socket], Hb_Timeout)
    \<and> ?ws ! n \<le> 900 + 3000 + 1000 + 0 \<and> (\<forall>r \<in> set (0 # [500, 900]). r \<le> ?ws ! n \<longrightarrow> 3000 < ?ws ! n - r)"
    by (rule heartbeat_detects) simp_all
  then obtain n where n: "n < length ?ws" "heartbeat_loop 3000 (wakes 0 [500, 900] ?ws)
      = (replicate n Hb_Ping @ [Hb_Error (?ws ! n - last_recv_at 0 [500, 900] (?ws ! n)), Hb_Close_Socket], Hb_Timeout)"
    "?ws ! n \<le> 900 + 3000 + 1000 + 0" by blast
  have "n < 6" using n(1) by simp
  moreover have "fst (heartbeat_loop 3000 (wakes 0 [500, 900] ?ws))
      = replicate n Hb_Ping @ [Hb_Error (?ws ! n - last_recv_at 0 [500, 900] (?ws ! n)), Hb_Close_Socket]" by (simp only: n(2) fst_conv)
  moreover have "?ws ! n \<le> 4900" using n(3) by linarith
  ultimately show ?thesis by blast
qed

text \<open>What is subscribed is understood. Every stream that the subscription message names is, when the exchange sends
  it back in a combined message, routed to the configured symbol it stands for, as a trade or as
  an order book stream; and for every configured symbol both streams are subscribed.
\<close>
theorem subscriptions_route:
  assumes "\<forall>s \<in> set (cfg_symbols cfg). s \<noteq> [] \<and> CHR ''@'' \<notin> set s"
    and "js_parse api msg = Some outer" and "js_find api outer ''stream'' = Some sv" and "js_find api outer ''data'' = Some dv"
    and "js_string api sv = Some p" and "p \<in> set (subscribe_params (cfg_symbols cfg))"
  shows "(\<exists>s \<in> set (cfg_symbols cfg). \<exists>ty \<in> {''trade'', ''depth20@100ms''}. route api cfg msg = Routed (to_lower_ascii s) ty dv)
    \<and> (\<forall>s \<in> set (cfg_symbols cfg). {s @ ''@trade'', s @ ''@depth20@100ms''} \<subseteq> set (subscribe_params (cfg_symbols cfg)))"
proof -
  obtain s ty where s: "s \<in> set (cfg_symbols cfg)" "p = s @ ''@'' @ ty" "ty \<in> {''trade'', ''depth20@100ms''}"
    using assms(6) by (auto simp: subscribe_params_def)
  have ns: "s \<noteq> []" "\<forall>ch \<in> set s. ch \<noteq> CHR ''@''" using assms(1) s(1) by auto
  have "takeWhile (\<lambda>ch. ch \<noteq> CHR ''@'') p = s" "dropWhile (\<lambda>ch. ch \<noteq> CHR ''@'') p = ''@'' @ ty"
    using ns(2) unfolding s(2) by (simp_all add: takeWhile_append2 dropWhile_append2)
  moreover have "subscribed cfg (to_lower_ascii s)" using s(1) by (auto simp: subscribed_def)
  ultimately have "route api cfg msg = Routed (to_lower_ascii s) ty dv"
    using ns(1) by (simp add: route_def assms(2-5) Let_def)
  then show ?thesis using s(1,3) by (auto simp: subscribe_params_def)
qed

theorem subscriptions_route_witness:
  "\<exists>s \<in> set (cfg_symbols default_config). \<exists>ty \<in> {''trade'', ''depth20@100ms''}.
     route (jvalue_api (\<lambda>_. Some (JObject [(''stream'', JString ''ethusdt@depth20@100ms''), (''data'', JInt 1)]))) default_config ''m''
       = Routed (to_lower_ascii s) ty (JInt 1)"
proof -
  let ?api = "jvalue_api (\<lambda>_. Some (JObject [(''stream'', JString ''ethusdt@depth20@100ms''), (''data'', JInt 1)]))"
  have "(\<exists>s \<in> set (cfg_symbols default_config). \<exists>ty \<in> {''trade'', ''depth20@100ms''}. route ?api default_config ''m'' = Routed (to_lower_ascii s) ty (JInt 1))
    \<and> (\<forall>s \<in> set (cfg_symbols default_config). {s @ ''@trade'', s @ ''@depth20@100ms''} \<subseteq> set (subscribe_params (cfg_symbols default_config)))"
    by (rule subscriptions_route [where p = "''ethusdt@depth20@100ms''" and sv = "JString ''ethusdt@depth20@100ms''"
          and outer = "JObject [(''stream'', JString ''ethusdt@depth20@100ms''), (''data'', JInt 1)]"])
      (simp_all add: default_config_def subscribe_params_def)
  then show ?thesis by (rule conjunct1)
qed

text \<open>A pin that succeeds names an online CPU and has been accepted by the system.\<close>

lemma pin_succeeds_iff:
  "pin_current_thread_to_cpu os cpu = Inr () \<longleftrightarrow> 0 \<le> cpu \<and> (of_int cpu :: 32 word) < detect_cpu_count os
     \<and> os_setaffinity os (if cpu < 1024 then {nat cpu} else {}) = 0"
  by (auto simp: pin_current_thread_to_cpu_def Let_def not_le)

end
