(* ===== verification/Event_Runs.thy ===== *)
theory Event_Runs
  imports MDS_Prelude
begin

text \<open>
  Runs of partial step functions, and what ranks say of them. The threads of a connection are
  modelled by a step function that is \<^const>\<open>None\<close> where an atomic section cannot run; a run is a
  list of events. The locale \<open>draining\<close> is the contract of a part that is shutting down: its
  steps lower a rank, and until it is finished one of them is bound to happen.
\<close>

fun erun :: "('e \<Rightarrow> 's \<Rightarrow> 's option) \<Rightarrow> 'e list \<Rightarrow> 's \<Rightarrow> 's option" where
  "erun step [] s = Some s"
| "erun step (e # es) s = (case step e s of None \<Rightarrow> None | Some s' \<Rightarrow> erun step es s')"

lemma erun_append: "erun step (es @ fs) s = Option.bind (erun step es s) (erun step fs)"
  by (induction es arbitrary: s) (auto split: option.splits)

lemma erun_keeps:
  assumes "\<And>e s s'. P s \<Longrightarrow> step e s = Some s' \<Longrightarrow> P s'"
  shows "erun step es s = Some s' \<Longrightarrow> P s \<Longrightarrow> P s'"
  by (induction es arbitrary: s) (auto split: option.splits dest: assms)

text \<open>\<open>ok\<close> are the events that keep the part shutting down; \<open>due\<close> are the ones that happen without
  anybody's help.\<close>

locale draining =
  fixes step :: "'e \<Rightarrow> 's \<Rightarrow> 's option" and inv :: "'s \<Rightarrow> bool" and ok :: "'e \<Rightarrow> bool" and due :: "'e \<Rightarrow> 's \<Rightarrow> bool"
    and rank :: "'s \<Rightarrow> nat" and finished :: "'s \<Rightarrow> bool"
  assumes step_inv: "inv s \<Longrightarrow> ok e \<Longrightarrow> step e s = Some s' \<Longrightarrow> inv s'"
    and step_rank: "inv s \<Longrightarrow> ok e \<Longrightarrow> step e s = Some s' \<Longrightarrow> rank s' < rank s"
    and progress: "inv s \<Longrightarrow> \<not> finished s \<Longrightarrow> \<exists>e s'. ok e \<and> due e s \<and> step e s = Some s'"
begin

lemma run_inv: "erun step es s = Some s' \<Longrightarrow> inv s \<Longrightarrow> \<forall>e \<in> set es. ok e \<Longrightarrow> inv s'"
  by (induction es arbitrary: s) (auto split: option.splits intro: step_inv)

lemma run_rank: "erun step es s = Some s' \<Longrightarrow> inv s \<Longrightarrow> \<forall>e \<in> set es. ok e \<Longrightarrow> length es + rank s' \<le> rank s"
proof (induction es arbitrary: s)
  case (Cons e es)
  then obtain t where t: "step e s = Some t" "erun step es t = Some s'" by (auto split: option.splits)
  then have "inv t" "rank t < rank s" using Cons.prems(2,3) step_inv step_rank by auto
  with Cons.IH [OF t(2)] Cons.prems(3) show ?case by simp
qed simp

lemma run_finishes:
  assumes "erun step es s = Some s'" and "inv s" and "\<forall>e \<in> set es. ok e"
  shows "length es + rank s' \<le> rank s \<and> (finished s' \<or> (\<exists>e t. ok e \<and> due e s' \<and> step e s' = Some t))"
  using run_rank [OF assms] progress [OF run_inv [OF assms]] by blast

lemma can_finish: "inv s \<Longrightarrow> \<exists>es s'. erun step es s = Some s' \<and> (\<forall>e \<in> set es. ok e) \<and> finished s'"
proof (induction "rank s" arbitrary: s rule: less_induct)
  case less
  show ?case
  proof (cases "finished s")
    case True
    then show ?thesis by (intro exI [of _ "[]"] exI [of _ s]) simp
  next
    case False
    then obtain e t where e: "ok e" "step e s = Some t" using progress [OF less.prems] by blast
    then have t: "inv t" "rank t < rank s" using step_inv step_rank less.prems by blast+
    from less.hyps [OF t(2,1)] obtain es s' where "erun step es t = Some s'" "\<forall>e \<in> set es. ok e" "finished s'" by blast
    then show ?thesis using e by (intro exI [of _ "e # es"] exI [of _ s']) simp
  qed
qed

end

end
