(* ===== verification/Ws_Client.thy ===== *)
theory Ws_Client
  imports Ws_Connection Event_Runs
begin

text \<open>
  The threads of one \<^verbatim>\<open>WebSocketClient\<close> (\<^verbatim>\<open>src/network/websocket_client.cpp\<close>): \<^verbatim>\<open>read_loop\<close>,
  \<^verbatim>\<open>heartbeat_loop\<close>, \<^verbatim>\<open>disconnect\<close> with \<^verbatim>\<open>notify_disconnect\<close>, and the mutex of writes. An event is one
  atomic section of one thread: a load or store of an atomic variable, a section under
  \<open>write_mutex_\<close>, a call of the network, a call of a callback. The waits of the heartbeat are
  bounded by the ping interval, so waking up is possible at any time, and notifications of its
  condition variable need no step of their own. The owner calls \<^verbatim>\<open>connect\<close> once and then
  \<^verbatim>\<open>disconnect\<close> from one thread at a time, as \<^verbatim>\<open>ConnectionManager\<close> does; then \<open>lifecycle_mutex_\<close> is
  never contended.
\<close>

section \<open>State\<close>

datatype reader_pc = R_None | R_Test | R_Reading | R_Message string | R_Caught string | R_Ending | R_Winning | R_Unflagging
  | R_Calling | R_Returning | R_Done

datatype heart_pc = H_None | H_Test | H_Waiting | H_Awake | H_Comparing | H_Closing | H_Clearing | H_Locking | H_Pinging | H_Done

datatype closer_pc = C_Idle | C_Clearing | C_Locking | C_Closing | C_Join_Reader | C_Join_Heart | C_Winning | C_Unflagging
  | C_Calling | C_Returning | C_Ending | C_Done

datatype write_holder = By_Heart | By_Closer | By_Sender

record ws_threads = ws_impl +
  reader :: reader_pc
  heart :: heart_pc
  closer :: closer_pc
  write_mutex :: "write_holder option"
  calls :: "ws_note list"      \<comment> \<open>the callbacks invoked so far\<close>

definition new_client :: ws_threads where
  "new_client = ws_impl.extend new_impl
     \<lparr>reader = R_None, heart = H_None, closer = C_Idle, write_mutex = None, calls = []\<rparr>"

section \<open>Sections\<close>

datatype client_event =
    Reader_Loops | Reader_Gets int string | Reader_Delivers | Reader_Throws string | Reader_Reports
  | Reader_Clears | Reader_Wins | Reader_Unflags | Reader_Calls | Reader_Returns
  | Heart_Loops | Heart_Wakes | Heart_Looks | Heart_Compares int | Heart_Closes | Heart_Clears | Heart_Locks | Heart_Pings
  | Closer_Clears | Closer_Locks | Closer_Closes bool | Closer_Joins_Reader | Closer_Joins_Heart
  | Closer_Wins | Closer_Unflags | Closer_Calls | Closer_Returns | Closer_Ends
  | Send_Ends

text \<open>\<^verbatim>\<open>read_loop\<close>. A read of a closed socket throws; an open one may fail too.\<close>

fun reader_step :: "client_event \<Rightarrow> ws_threads \<Rightarrow> ws_threads option" where
  "reader_step Reader_Loops c = (if reader c \<noteq> R_Test then None
     else Some (c\<lparr>reader := (if running_flag c then R_Reading else R_Ending)\<rparr>))"
| "reader_step (Reader_Gets now msg) c = (if reader c = R_Reading \<and> socket_open c
     then Some (c\<lparr>last_recv_time_ms := now, reader := R_Message msg\<rparr>) else None)"
| "reader_step Reader_Delivers c = (case reader c of
       R_Message msg \<Rightarrow> Some (c\<lparr>calls := calls c @ [On_Message msg], reader := R_Test\<rparr>) | _ \<Rightarrow> None)"
| "reader_step (Reader_Throws e) c = (if reader c = R_Reading then Some (c\<lparr>reader := R_Caught e\<rparr>) else None)"
| "reader_step Reader_Reports c = (case reader c of
       R_Caught e \<Rightarrow> Some (c\<lparr>calls := calls c @ (if running_flag c then [On_Error e] else []), reader := R_Ending\<rparr>)
     | _ \<Rightarrow> None)"
| "reader_step Reader_Clears c = (if reader c = R_Ending then Some (c\<lparr>running_flag := False, reader := R_Winning\<rparr>) else None)"
| "reader_step Reader_Wins c = (if reader c \<noteq> R_Winning then None
     else if disconnect_notified c then Some (c\<lparr>reader := R_Done\<rparr>)
     else Some (c\<lparr>disconnect_notified := True, reader := R_Unflagging\<rparr>))"
| "reader_step Reader_Unflags c = (if reader c = R_Unflagging then Some (c\<lparr>connected_flag := False, reader := R_Calling\<rparr>) else None)"
| "reader_step Reader_Calls c = (if reader c = R_Calling
     then Some (c\<lparr>calls := calls c @ [On_Disconnect], reader := R_Returning\<rparr>) else None)"
| "reader_step Reader_Returns c = (if reader c = R_Returning then Some (c\<lparr>reader := R_Done\<rparr>) else None)"
| "reader_step _ c = None"

text \<open>\<^verbatim>\<open>heartbeat_loop\<close>. The text of the error is left out.\<close>

fun heart_step :: "client_event \<Rightarrow> ws_threads \<Rightarrow> ws_threads option" where
  "heart_step Heart_Loops c = (if heart c \<noteq> H_Test then None
     else Some (c\<lparr>heart := (if running_flag c then H_Waiting else H_Done)\<rparr>))"
| "heart_step Heart_Wakes c = (if heart c = H_Waiting then Some (c\<lparr>heart := H_Awake\<rparr>) else None)"
| "heart_step Heart_Looks c = (if heart c \<noteq> H_Awake then None
     else Some (c\<lparr>heart := (if running_flag c then H_Comparing else H_Done)\<rparr>))"
| "heart_step (Heart_Compares now) c = (if heart c \<noteq> H_Comparing then None
     else if now - last_recv_time_ms c > impl_no_data_timeout_ms c
     then Some (c\<lparr>calls := calls c @ [On_Error ''Heartbeat timeout''], heart := H_Closing\<rparr>)
     else Some (c\<lparr>heart := H_Locking\<rparr>))"
| "heart_step Heart_Closes c = (if heart c = H_Closing then Some (c\<lparr>socket_open := False, heart := H_Clearing\<rparr>) else None)"
| "heart_step Heart_Clears c = (if heart c = H_Clearing then Some (c\<lparr>running_flag := False, heart := H_Done\<rparr>) else None)"
| "heart_step Heart_Locks c = (if heart c = H_Locking \<and> write_mutex c = None
     then Some (c\<lparr>write_mutex := Some By_Heart, heart := H_Pinging\<rparr>) else None)"
| "heart_step Heart_Pings c = (if heart c = H_Pinging then Some (c\<lparr>write_mutex := None, heart := H_Test\<rparr>) else None)"
| "heart_step _ c = None"

text \<open>\<^verbatim>\<open>disconnect\<close>. \<open>Closer_Closes b\<close> is the call of \<^verbatim>\<open>ws_.close\<close>, whose exceptions are ignored; \<open>b\<close> says
  whether reads fail after it.\<close>

definition begin_disconnect :: "ws_threads \<Rightarrow> ws_threads" where
  "begin_disconnect c = (if connected_flag c then c\<lparr>closer := C_Clearing\<rparr> else c)"

fun closer_step :: "client_event \<Rightarrow> ws_threads \<Rightarrow> ws_threads option" where
  "closer_step Closer_Clears c = (if closer c = C_Clearing then Some (c\<lparr>running_flag := False, closer := C_Locking\<rparr>) else None)"
| "closer_step Closer_Locks c = (if closer c = C_Locking \<and> write_mutex c = None
     then Some (c\<lparr>write_mutex := Some By_Closer, closer := C_Closing\<rparr>) else None)"
| "closer_step (Closer_Closes b) c = (if closer c = C_Closing
     then Some (c\<lparr>socket_open := socket_open c \<and> \<not> b, write_mutex := None, closer := C_Join_Reader\<rparr>) else None)"
| "closer_step Closer_Joins_Reader c = (if closer c = C_Join_Reader \<and> (read_thread c \<longrightarrow> reader c = R_Done)
     then Some (c\<lparr>read_thread := False, closer := C_Join_Heart\<rparr>) else None)"
| "closer_step Closer_Joins_Heart c = (if closer c = C_Join_Heart \<and> (heartbeat_thread c \<longrightarrow> heart c = H_Done)
     then Some (c\<lparr>heartbeat_thread := False, closer := C_Winning\<rparr>) else None)"
| "closer_step Closer_Wins c = (if closer c \<noteq> C_Winning then None
     else if disconnect_notified c then Some (c\<lparr>closer := C_Ending\<rparr>)
     else Some (c\<lparr>disconnect_notified := True, closer := C_Unflagging\<rparr>))"
| "closer_step Closer_Unflags c = (if closer c = C_Unflagging then Some (c\<lparr>connected_flag := False, closer := C_Calling\<rparr>) else None)"
| "closer_step Closer_Calls c = (if closer c = C_Calling
     then Some (c\<lparr>calls := calls c @ [On_Disconnect], closer := C_Returning\<rparr>) else None)"
| "closer_step Closer_Returns c = (if closer c = C_Returning then Some (c\<lparr>closer := C_Ending\<rparr>) else None)"
| "closer_step Closer_Ends c = (if closer c = C_Ending then Some (c\<lparr>connected_flag := False, closer := C_Done\<rparr>) else None)"
| "closer_step _ c = None"

text \<open>\<^verbatim>\<open>send\<close>: the test of \<open>connected_\<close> comes first; the write holds the mutex.\<close>

definition begin_send :: "ws_threads \<Rightarrow> ws_threads option" where
  "begin_send c = (if write_mutex c = None then Some (c\<lparr>write_mutex := Some By_Sender\<rparr>) else None)"

definition end_send :: "ws_threads \<Rightarrow> ws_threads option" where
  "end_send c = (if write_mutex c = Some By_Sender then Some (c\<lparr>write_mutex := None\<rparr>) else None)"

definition cstep :: "client_event \<Rightarrow> ws_threads \<Rightarrow> ws_threads option" where
  "cstep e c = (case reader_step e c of Some c' \<Rightarrow> Some c'
     | None \<Rightarrow> (case heart_step e c of Some c' \<Rightarrow> Some c'
     | None \<Rightarrow> (case closer_step e c of Some c' \<Rightarrow> Some c'
     | None \<Rightarrow> if e = Send_Ends then end_send c else None)))"

text \<open>What the owner does: \<^verbatim>\<open>connect\<close> has started the threads (\<open>client_opened\<close>); it then sets \<open>connected_\<close>,
  sends, disconnects.\<close>

definition client_opened :: "ws_threads \<Rightarrow> ws_threads" where
  "client_opened c = c\<lparr>reader := R_Test, heart := H_Test\<rparr>"

inductive creachable :: "ws_threads \<Rightarrow> bool" where
  opened: "ws_open net now proxy u (ws_prepare ping timeout new_client) = (c, Inr True) \<Longrightarrow> creachable (client_opened c)"
| flags: "creachable c \<Longrightarrow> creachable (c\<lparr>connected_flag := True\<rparr>)"
| sends: "creachable c \<Longrightarrow> begin_send c = Some c' \<Longrightarrow> creachable c'"
| disconnects: "creachable c \<Longrightarrow> closer c \<in> {C_Idle, C_Done} \<Longrightarrow> creachable (begin_disconnect c)"
| step: "creachable c \<Longrightarrow> cstep e c = Some c' \<Longrightarrow> creachable c'"

section \<open>Invariant\<close>

fun notifying :: "reader_pc \<Rightarrow> bool" where
  "notifying R_Unflagging = True" | "notifying R_Calling = True" | "notifying R_Returning = True" | "notifying R_Done = True"
| "notifying _ = False"

fun told :: "reader_pc \<Rightarrow> nat" where
  "told R_Returning = 1" | "told R_Done = 1" | "told _ = 0"

fun cleared :: "closer_pc \<Rightarrow> bool" where
  "cleared C_Idle = False" | "cleared C_Clearing = False" | "cleared _ = True"

fun reader_joined :: "closer_pc \<Rightarrow> bool" where
  "reader_joined C_Join_Heart = True" | "reader_joined C_Winning = True" | "reader_joined C_Ending = True" | "reader_joined C_Done = True"
| "reader_joined _ = False"

fun heart_joined :: "closer_pc \<Rightarrow> bool" where
  "heart_joined C_Winning = True" | "heart_joined C_Ending = True" | "heart_joined C_Done = True" | "heart_joined _ = False"

fun winner :: "closer_pc \<Rightarrow> bool" where
  "winner C_Unflagging = True" | "winner C_Calling = True" | "winner C_Returning = True" | "winner _ = False"

text \<open>How often the owner has been told of the end of the connection.\<close>

abbreviation disconnects_told :: "ws_threads \<Rightarrow> nat" where
  "disconnects_told c \<equiv> count_list (calls c) On_Disconnect"

text \<open>No message is delivered after the owner has been told.\<close>

fun quiet_after :: "ws_note list \<Rightarrow> bool" where
  "quiet_after [] \<longleftrightarrow> True"
| "quiet_after (n # ns) \<longleftrightarrow> (n = On_Disconnect \<longrightarrow> (\<forall>m. On_Message m \<notin> set ns)) \<and> quiet_after ns"

lemma quiet_after_snoc [simp]:
  "quiet_after (ns @ [n]) \<longleftrightarrow> quiet_after ns \<and> (On_Disconnect \<in> set ns \<longrightarrow> (\<forall>m. n \<noteq> On_Message m))"
  by (induction ns) auto

definition reader_inv :: "ws_threads \<Rightarrow> bool" where
  "reader_inv c \<longleftrightarrow> reader c \<noteq> R_None \<and> (disconnect_notified c \<longleftrightarrow> notifying (reader c))
     \<and> (notifying (reader c) \<or> reader c = R_Winning \<longrightarrow> \<not> running_flag c)
     \<and> disconnects_told c = told (reader c)
     \<and> quiet_after (calls c) \<and> (\<not> read_thread c \<longrightarrow> reader c = R_Done)"

definition heart_inv :: "ws_threads \<Rightarrow> bool" where
  "heart_inv c \<longleftrightarrow> heart c \<noteq> H_None \<and> (heart c = H_Done \<longrightarrow> \<not> running_flag c) \<and> (heart c = H_Clearing \<longrightarrow> \<not> socket_open c)
     \<and> (\<not> heartbeat_thread c \<longrightarrow> heart c = H_Done)
     \<and> (write_mutex c = Some By_Heart \<longleftrightarrow> heart c = H_Pinging) \<and> (write_mutex c = Some By_Closer \<longleftrightarrow> closer c = C_Closing)"

text \<open>The read thread is joined before the compare-and-exchange of \<open>disconnect\<close>, and has done its own by
  then, so the calling thread never wins it.\<close>

definition closer_inv :: "ws_threads \<Rightarrow> bool" where
  "closer_inv c \<longleftrightarrow> (cleared (closer c) \<longrightarrow> \<not> running_flag c) \<and> (reader_joined (closer c) \<longrightarrow> reader c = R_Done)
     \<and> (heart_joined (closer c) \<longrightarrow> heart c = H_Done) \<and> \<not> winner (closer c)"

definition cinv :: "ws_threads \<Rightarrow> bool" where
  "cinv c \<longleftrightarrow> reader_inv c \<and> heart_inv c \<and> closer_inv c"

lemma cstep_cases:
  assumes "cstep e c = Some c'"
  obtains "reader_step e c = Some c'" | "heart_step e c = Some c'" | "closer_step e c = Some c'" | "end_send c = Some c'" "e = Send_Ends"
  using assms by (auto simp: cstep_def split: option.splits if_splits)

lemmas inv_defs = cinv_def reader_inv_def heart_inv_def closer_inv_def

lemma told_count [simp]: "told r = Suc 0 \<longleftrightarrow> r = R_Returning \<or> r = R_Done" "told r = 0 \<longleftrightarrow> r \<noteq> R_Returning \<and> r \<noteq> R_Done"
  by (cases r; simp)+

lemma reader_step_reader_inv: "reader_step e c = Some c' \<Longrightarrow> reader_inv c \<Longrightarrow> reader_inv c'"
  by (cases e; clarsimp split: if_splits reader_pc.splits; force simp: reader_inv_def count_list_0_iff)

lemma reader_step_rest:
  "reader_step e c = Some c' \<Longrightarrow> heart_inv c \<Longrightarrow> closer_inv c \<Longrightarrow> heart_inv c' \<and> closer_inv c'"
  by (cases e; clarsimp split: if_splits reader_pc.splits; simp add: heart_inv_def closer_inv_def)

lemma heart_step_reader_inv: "heart_step e c = Some c' \<Longrightarrow> reader_inv c \<Longrightarrow> reader_inv c'"
  by (cases e; clarsimp split: if_splits; simp add: reader_inv_def)

lemma heart_step_rest:
  "heart_step e c = Some c' \<Longrightarrow> heart_inv c \<Longrightarrow> closer_inv c \<Longrightarrow> heart_inv c' \<and> closer_inv c'"
  by (cases e; clarsimp split: if_splits; simp add: heart_inv_def closer_inv_def; force)

lemma closer_step_reader_inv: "closer_step e c = Some c' \<Longrightarrow> reader_inv c \<Longrightarrow> closer_inv c \<Longrightarrow> reader_inv c'"
  by (cases e; clarsimp split: if_splits; force simp: reader_inv_def closer_inv_def)

lemma closer_step_rest:
  "closer_step e c = Some c' \<Longrightarrow> reader_inv c \<Longrightarrow> heart_inv c \<Longrightarrow> closer_inv c \<Longrightarrow> heart_inv c' \<and> closer_inv c'"
  by (cases e; clarsimp split: if_splits; force simp: reader_inv_def heart_inv_def closer_inv_def)

lemma end_send_cinv: "end_send c = Some c' \<Longrightarrow> cinv c \<Longrightarrow> cinv c'"
  by (clarsimp simp: end_send_def split: if_splits; simp add: inv_defs; metis write_holder.distinct)

lemma cstep_cinv: "cstep e c = Some c' \<Longrightarrow> cinv c \<Longrightarrow> cinv c'"
  unfolding cinv_def
  by (erule cstep_cases)
    (blast dest: reader_step_reader_inv reader_step_rest heart_step_reader_inv heart_step_rest closer_step_reader_inv
       closer_step_rest end_send_cinv [unfolded cinv_def])+

text \<open>A client that has not been connected.\<close>

definition blank :: "ws_threads \<Rightarrow> bool" where
  "blank c \<longleftrightarrow> reader c = R_None \<and> heart c = H_None \<and> closer c = C_Idle \<and> \<not> connected_flag c \<and> \<not> running_flag c
     \<and> \<not> read_thread c \<and> \<not> heartbeat_thread c \<and> write_mutex c = None \<and> disconnects_told c = 0 \<and> quiet_after (calls c)"

lemma new_client_blank [simp]: "blank new_client"
  by (simp add: blank_def new_client_def new_impl_def ws_impl.defs)

lemma ws_open_outcome:
  assumes "ws_open net now proxy u (ws_prepare ping timeout c) = (c', r)" and "blank c"
  shows "r = Inr True \<Longrightarrow> cinv (client_opened c') \<and> closer c' = C_Idle \<and> \<not> connected_flag c' \<and> write_mutex c' = None"
    and "r \<noteq> Inr True \<Longrightarrow> blank c'"
proof -
  obtain c1 t where t: "ws_tcp net proxy u (ws_prepare ping timeout c) = (c1, t)" by (cases "ws_tcp net proxy u (ws_prepare ping timeout c)")
  then obtain b where c1: "c1 = (ws_prepare ping timeout c)\<lparr>socket_open := b\<rparr>" using ws_tcp_outcome by blast
  have r: "c' = c1 \<and> r \<noteq> Inr True
      \<or> c' = c1\<lparr>running_flag := True, last_recv_time_ms := now, read_thread := True, heartbeat_thread := True\<rparr> \<and> r = Inr True"
    using assms(1) by (auto simp: ws_open_def t split: option.splits if_splits)
  show "r = Inr True \<Longrightarrow> cinv (client_opened c') \<and> closer c' = C_Idle \<and> \<not> connected_flag c' \<and> write_mutex c' = None"
    using r assms(2) by (simp add: c1 ws_prepare_def blank_def client_opened_def inv_defs)
  show "r \<noteq> Inr True \<Longrightarrow> blank c'" using r assms(2) by (simp add: c1 ws_prepare_def blank_def)
qed

lemma begin_disconnect_cinv: "cinv c \<Longrightarrow> closer c = C_Idle \<or> closer c = C_Done \<Longrightarrow> cinv (begin_disconnect c)"
  by (cases "closer c"; simp add: begin_disconnect_def inv_defs)

lemma begin_send_cinv: "begin_send c = Some c' \<Longrightarrow> cinv c \<Longrightarrow> cinv c'"
  by (clarsimp simp: begin_send_def split: if_splits; simp add: inv_defs)

lemma cinv_connected [simp]: "cinv (c\<lparr>connected_flag := b\<rparr>) \<longleftrightarrow> cinv c"
  by (simp add: inv_defs)

lemma cinv_cleared [intro]: "cinv c \<Longrightarrow> cinv (c\<lparr>running_flag := False\<rparr>)"
  by (simp add: inv_defs)

lemma new_client_sel [simp]: "closer new_client = C_Idle" "write_mutex new_client = None"
  by (simp_all add: new_client_def ws_impl.defs new_impl_def)

lemma creachable_cinv: "creachable c \<Longrightarrow> cinv c"
proof (induction rule: creachable.induct)
  case (opened net now proxy u ping timeout c)
  then show ?case using ws_open_outcome(1) by auto
next
  case (disconnects c)
  then show ?case using begin_disconnect_cinv by simp
next
  case (step c e c')
  then show ?case using cstep_cinv by blast
next
  case (flags c)
  then show ?case by (simp add: inv_defs)
next
  case (sends c c')
  then show ?case using begin_send_cinv by blast
qed

section \<open>Shutting down\<close>

text \<open>How many sections each thread is away from its end, once the connection is ending.\<close>

fun reader_rank :: "bool \<Rightarrow> reader_pc \<Rightarrow> nat" where
  "reader_rank opn R_Reading = (if opn then 10 else 8)"
| "reader_rank opn (R_Message m) = (if opn then 9 else 10)"
| "reader_rank opn R_Test = (if opn then 8 else 9)"
| "reader_rank opn (R_Caught e) = 7"
| "reader_rank opn R_Ending = 6"
| "reader_rank opn R_Winning = 5"
| "reader_rank opn R_Unflagging = 4"
| "reader_rank opn R_Calling = 3"
| "reader_rank opn R_Returning = 2"
| "reader_rank opn R_Done = 0"
| "reader_rank opn R_None = 0"

fun heart_rank :: "heart_pc \<Rightarrow> nat" where
  "heart_rank H_Comparing = 8" | "heart_rank H_Closing = 7" | "heart_rank H_Locking = 5" | "heart_rank H_Clearing = 4"
| "heart_rank H_Pinging = 4" | "heart_rank H_Waiting = 3" | "heart_rank H_Awake = 2" | "heart_rank H_Test = 1"
| "heart_rank H_Done = 0" | "heart_rank H_None = 0"

fun closer_rank :: "closer_pc \<Rightarrow> nat" where
  "closer_rank C_Clearing = 12" | "closer_rank C_Locking = 11" | "closer_rank C_Closing = 10" | "closer_rank C_Join_Reader = 7"
| "closer_rank C_Join_Heart = 6" | "closer_rank C_Winning = 5" | "closer_rank C_Unflagging = 4" | "closer_rank C_Calling = 3"
| "closer_rank C_Returning = 2" | "closer_rank C_Ending = 1" | "closer_rank C_Done = 0" | "closer_rank C_Idle = 0"

definition crank :: "ws_threads \<Rightarrow> nat" where
  "crank c = reader_rank (socket_open c) (reader c) + heart_rank (heart c) + closer_rank (closer c)
     + (if write_mutex c = Some By_Sender then 1 else 0)"

lemma crank_bound: "crank c \<le> 31"
proof -
  have "reader_rank b r \<le> 10" "heart_rank h \<le> 8" "closer_rank k \<le> 12" for b r h k
    by ((cases r; simp), (cases h; simp), (cases k; simp))
  from this(1) [of "socket_open c" "reader c"] this(2) [of "heart c"] this(3) [of "closer c"]
  show ?thesis by (simp add: crank_def)
qed

text \<open>A section that needs no message to arrive and no connection to break. The calls of the network
  library return.\<close>

definition due :: "client_event \<Rightarrow> ws_threads \<Rightarrow> bool" where
  "due e c \<longleftrightarrow> (case e of Reader_Gets _ _ \<Rightarrow> False | Reader_Throws _ \<Rightarrow> \<not> socket_open c | _ \<Rightarrow> True)"

fun reader_next :: "reader_pc \<Rightarrow> client_event" where
  "reader_next R_Reading = Reader_Throws []" | "reader_next (R_Message m) = Reader_Delivers" | "reader_next (R_Caught e) = Reader_Reports"
| "reader_next R_Ending = Reader_Clears" | "reader_next R_Winning = Reader_Wins" | "reader_next R_Unflagging = Reader_Unflags"
| "reader_next R_Calling = Reader_Calls" | "reader_next R_Returning = Reader_Returns" | "reader_next _ = Reader_Loops"

fun heart_next :: "heart_pc \<Rightarrow> client_event" where
  "heart_next H_Waiting = Heart_Wakes" | "heart_next H_Awake = Heart_Looks" | "heart_next H_Comparing = Heart_Compares 0"
| "heart_next H_Closing = Heart_Closes" | "heart_next H_Clearing = Heart_Clears" | "heart_next H_Locking = Heart_Locks"
| "heart_next H_Pinging = Heart_Pings" | "heart_next _ = Heart_Loops"

fun closer_next :: "closer_pc \<Rightarrow> client_event" where
  "closer_next C_Locking = Closer_Locks" | "closer_next C_Closing = Closer_Closes True" | "closer_next C_Join_Reader = Closer_Joins_Reader"
| "closer_next C_Join_Heart = Closer_Joins_Heart" | "closer_next C_Winning = Closer_Wins" | "closer_next C_Unflagging = Closer_Unflags"
| "closer_next C_Calling = Closer_Calls" | "closer_next C_Returning = Closer_Returns" | "closer_next C_Ending = Closer_Ends"
| "closer_next _ = Closer_Clears"

text \<open>The events under which a disconnect ends: \<^verbatim>\<open>ws_.close\<close> has the effect that reads fail.\<close>

definition closes :: "client_event \<Rightarrow> bool" where
  "closes e \<longleftrightarrow> e \<noteq> Closer_Closes False"

definition can_go :: "ws_threads \<Rightarrow> bool" where
  "can_go c \<longleftrightarrow> (\<exists>e c'. closes e \<and> due e c \<and> cstep e c = Some c')"

lemma can_goI: "closes e \<Longrightarrow> due e c \<Longrightarrow> cstep e c \<noteq> None \<Longrightarrow> can_go c"
  by (auto simp: can_go_def)

lemmas go_defs = due_def closes_def cstep_def end_send_def

lemma reader_can_go:
  assumes "reader c \<notin> {R_None, R_Done}" and "reader c = R_Reading \<longrightarrow> \<not> socket_open c"
  shows "can_go c"
  using assms by (cases "reader c") (auto intro!: can_goI [of "reader_next (reader c)"] simp: go_defs)

lemma sender_can_go: "write_mutex c = Some By_Sender \<Longrightarrow> can_go c"
  by (rule can_goI [of Send_Ends]) (simp_all add: go_defs)

lemma heart_can_go:
  assumes "heart_inv c" and "heart c \<noteq> H_Done"
  shows "can_go c"
proof (cases "heart c = H_Locking")
  case True
  consider "write_mutex c = None" | "write_mutex c = Some By_Sender" | "closer c = C_Closing"
    using assms(1) True by (cases "write_mutex c") (auto simp: heart_inv_def intro: write_holder.exhaust)
  then show ?thesis
  proof cases
    case 1
    with True show ?thesis by (intro can_goI [of Heart_Locks]) (simp_all add: go_defs)
  next
    case 3
    then show ?thesis by (intro can_goI [of "Closer_Closes True"]) (simp_all add: go_defs)
  qed (rule sender_can_go)
next
  case False
  with assms show ?thesis
    by (cases "heart c") (auto intro!: can_goI [of "heart_next (heart c)"] simp: go_defs heart_inv_def)
qed

lemma closer_can_go:
  assumes "cinv c" and "cleared (closer c)" and "closer c \<noteq> C_Done" and "closer c = C_Locking \<or> closer c = C_Closing \<or> \<not> socket_open c"
  shows "can_go c"
proof -
  have inv: "reader_inv c" "heart_inv c" "closer_inv c" using assms(1) by (simp_all add: cinv_def)
  consider (lock) "closer c = C_Locking" | (reader) "closer c = C_Join_Reader" "reader c \<noteq> R_Done"
    | (heart) "closer c = C_Join_Heart" "heart c \<noteq> H_Done" | (own) "cstep (closer_next (closer c)) c \<noteq> None"
    using assms(2,3) by (cases "closer c"; cases "reader c = R_Done"; cases "heart c = H_Done"; simp add: go_defs)
  then show ?thesis
  proof cases
    case lock
    show ?thesis
    proof (cases "write_mutex c")
      case None
      with lock show ?thesis by (intro can_goI [of Closer_Locks]) (simp_all add: go_defs)
    next
      case (Some h)
      then show ?thesis using inv(2) lock sender_can_go [of c] heart_can_go [OF inv(2)] by (cases h) (auto simp: heart_inv_def)
    qed
  next
    case reader
    then show ?thesis using reader_can_go [of c] inv(1) assms(4) by (simp add: reader_inv_def)
  next
    case own
    then show ?thesis by (rule can_goI [of "closer_next (closer c)", rotated 2]) (cases "closer c"; simp add: due_def closes_def)+
  qed (rule heart_can_go [OF inv(2)])
qed

text \<open>A disconnect under way: it has cleared \<open>running_\<close>, and where it has closed the stream reads fail.\<close>

definition shut :: "ws_threads \<Rightarrow> bool" where
  "shut c \<longleftrightarrow> cleared (closer c) \<longrightarrow> closer c = C_Locking \<or> closer c = C_Closing \<or> \<not> socket_open c"

definition shutting :: "ws_threads \<Rightarrow> bool" where
  "shutting c \<longleftrightarrow> cinv c \<and> cleared (closer c) \<and> shut c"

definition closing :: "ws_threads \<Rightarrow> bool" where
  "closing c \<longleftrightarrow> shutting c \<and> (closer c = C_Done \<longrightarrow> \<not> connected_flag c)"

text \<open>A connection at its end without anybody having called \<open>disconnect\<close>: the heartbeat has closed the
  socket, or the read thread has left its loop.\<close>

fun looping :: "reader_pc \<Rightarrow> bool" where
  "looping R_Test = True" | "looping R_Reading = True" | "looping (R_Message m) = True" | "looping _ = False"

definition ending :: "ws_threads \<Rightarrow> bool" where
  "ending c \<longleftrightarrow> cinv c \<and> closer c = C_Idle
     \<and> (\<not> socket_open c \<and> (heart c = H_Clearing \<or> \<not> running_flag c) \<or> \<not> running_flag c \<and> \<not> looping (reader c))"

lemma reader_rank_close: "reader_rank False r \<le> Suc (reader_rank b r)"
  by (cases r) simp_all

lemma cstep_shut:
  assumes "cstep e c = Some c'" and "closes e" and "shut c"
  shows "shut c'"
  using assms(1)
proof (cases rule: cstep_cases)
  case 3
  then show ?thesis using assms(2,3) by (cases e; clarsimp split: if_splits; simp add: shut_def closes_def)
next
  case 1
  then show ?thesis using assms(3) by (cases e; clarsimp split: if_splits reader_pc.splits; simp add: shut_def)
next
  case 2
  then show ?thesis using assms(3) by (cases e; clarsimp split: if_splits; simp add: shut_def)
qed (use assms(3) in \<open>auto simp: end_send_def shut_def split: if_splits\<close>)

lemma cstep_cleared: "cstep e c = Some c' \<Longrightarrow> cleared (closer c) \<Longrightarrow> cleared (closer c')"
  by (erule cstep_cases; cases e) (auto simp: end_send_def split: if_splits reader_pc.splits)

lemma shutting_step:
  assumes "shutting c" and "closes e" and "cstep e c = Some c'"
  shows "shutting c' \<and> crank c' < crank c"
proof -
  have i: "cinv c" "\<not> running_flag c" using assms(1) by (simp_all add: shutting_def cinv_def closer_inv_def)
  have "shutting c'" using assms cstep_cinv cstep_shut cstep_cleared by (auto simp: shutting_def)
  moreover have "crank c' < crank c"
    using assms(3)
  proof (cases rule: cstep_cases)
    case 1
    then show ?thesis using assms(1) i(2) by (cases e; clarsimp split: if_splits reader_pc.splits; simp add: crank_def)
  next
    case 2
    then show ?thesis using i(2) reader_rank_close [of "reader c" "socket_open c"]
      by (cases e; clarsimp split: if_splits; simp add: crank_def split: if_splits)
  next
    case 3
    then show ?thesis using assms(2) i(2) reader_rank_close [of "reader c" "socket_open c"]
      by (cases e; clarsimp split: if_splits; simp add: crank_def closes_def split: if_splits)
  qed (auto simp: end_send_def crank_def split: if_splits)
  ultimately show ?thesis by simp
qed

lemma cstep_done_disconnected:
  "cstep e c = Some c' \<Longrightarrow> (closer c = C_Done \<longrightarrow> \<not> connected_flag c) \<Longrightarrow> closer c' = C_Done \<longrightarrow> \<not> connected_flag c'"
  by (erule cstep_cases; cases e) (auto simp: end_send_def split: if_splits reader_pc.splits)

lemma closing_step: "closing c \<Longrightarrow> closes e \<Longrightarrow> cstep e c = Some c' \<Longrightarrow> closing c' \<and> crank c' < crank c"
  using shutting_step [of c e c'] cstep_done_disconnected [of e c c'] by (simp add: closing_def)

lemma ending_step: "ending c \<Longrightarrow> cstep e c = Some c' \<Longrightarrow> ending c' \<and> crank c' < crank c"
proof -
  assume a: "ending c" "cstep e c = Some c'"
  have "cinv c'" using cstep_cinv a by (auto simp: ending_def)
  moreover have "closer c' = C_Idle \<and> (\<not> socket_open c' \<and> (heart c' = H_Clearing \<or> \<not> running_flag c')
      \<or> \<not> running_flag c' \<and> \<not> looping (reader c')) \<and> crank c' < crank c"
    using a(2)
  proof (cases rule: cstep_cases)
    case 1
    then show ?thesis using a(1) by (cases e; clarsimp split: if_splits reader_pc.splits; auto simp add: ending_def crank_def)
  next
    case 2
    then show ?thesis using a(1)
      by (cases e; clarsimp split: if_splits; use reader_rank_close [of "reader c" "socket_open c"] in \<open>auto simp add: ending_def crank_def\<close>)
  next
    case 3
    then show ?thesis using a(1) by (cases e; simp add: ending_def split: if_splits)
  next
    case 4
    then show ?thesis using a(1) by (auto simp: end_send_def ending_def crank_def split: if_splits)
  qed
  ultimately show ?thesis by (simp add: ending_def)
qed

interpretation disconnecting: draining cstep closing closes due crank "\<lambda>c. closer c = C_Done"
proof
  fix c
  assume "closing c" and "closer c \<noteq> C_Done"
  then have "can_go c" using closer_can_go [of c] by (simp add: closing_def shutting_def shut_def)
  then show "\<exists>e c'. closes e \<and> due e c \<and> cstep e c = Some c'" by (simp add: can_go_def)
qed (use closing_step in blast)+

interpretation breaking: draining cstep ending closes due crank "\<lambda>c. reader c = R_Done \<and> heart c = H_Done"
proof
  fix c
  assume e: "ending c" and n: "\<not> (reader c = R_Done \<and> heart c = H_Done)"
  then have i: "reader_inv c" "heart_inv c" by (simp_all add: ending_def cinv_def)
  have "can_go c"
  proof (cases "heart c = H_Done")
    case True
    then have "reader c = R_Reading \<longrightarrow> \<not> socket_open c" using e by (auto simp: ending_def)
    then show ?thesis using reader_can_go [of c] i(1) n True by (simp add: reader_inv_def)
  qed (rule heart_can_go [OF i(2)])
  then show "\<exists>e c'. closes e \<and> due e c \<and> cstep e c = Some c'" by (simp add: can_go_def)
qed (use ending_step in blast)+

lemma closer_done_quiet:
  assumes "cinv c" and "closer c = C_Done" and "cstep e c = Some c'"
  shows "e = Send_Ends"
  using assms(3)
proof (cases rule: cstep_cases)
  case 1
  then show ?thesis using assms(1,2) by (cases e) (auto simp: cinv_def closer_inv_def split: if_splits)
next
  case 2
  then show ?thesis using assms(1,2) by (cases e) (auto simp: cinv_def closer_inv_def split: if_splits)
next
  case 3
  then show ?thesis using assms(2) by (cases e) (auto split: if_splits)
qed

lemma blank_stuck: "blank c \<Longrightarrow> cstep e c = None"
  by (cases e) (simp_all add: blank_def cstep_def end_send_def)

lemma cstep_closer_free: "cstep e c = Some c' \<Longrightarrow> closer c = C_Idle \<or> closer c = C_Done \<Longrightarrow> closer c' = closer c"
  by (erule cstep_cases; cases e) (auto simp: end_send_def split: if_splits reader_pc.splits)

lemma cstep_connected: "cstep e c = Some c' \<Longrightarrow> \<not> connected_flag c \<Longrightarrow> \<not> connected_flag c'"
  by (erule cstep_cases; cases e) (auto simp: end_send_def split: if_splits reader_pc.splits)

lemma cstep_sender:
  assumes "cstep e c = Some c'" and "e \<noteq> Send_Ends" and "heart_inv c"
  shows "write_mutex c' = Some By_Sender \<longleftrightarrow> write_mutex c = Some By_Sender"
  using assms(1)
proof (cases rule: cstep_cases)
  case 1
  then show ?thesis by (cases e) (auto split: if_splits reader_pc.splits)
next
  case 2
  then show ?thesis using assms(3) by (cases e) (auto simp: heart_inv_def split: if_splits)
next
  case 3
  then show ?thesis using assms(3) by (cases e) (auto simp: heart_inv_def split: if_splits)
qed (use assms(2) in simp)

section \<open>Properties\<close>

text \<open>(C31) The owner is told of the end of a connection exactly once, after its last message. In every state of the
  client's threads, the callback for the disconnect has been invoked at most once, no message
  has been delivered after it, and it has been invoked as soon as the read thread has ended.
  Once \<open>disconnect\<close> has returned both threads have ended, so no callback follows. It is
  always the read thread that invokes it: the thread in \<open>disconnect\<close> never wins the
  compare-and-exchange.
\<close>
theorem disconnect_told_once:
  assumes "creachable c"
  shows "disconnects_told c = (if reader c = R_Returning \<or> reader c = R_Done then 1 else 0) \<and> quiet_after (calls c)
    \<and> (closer c = C_Done \<longrightarrow> reader c = R_Done \<and> heart c = H_Done \<and> (\<forall>e. cstep e c \<noteq> None \<longrightarrow> e = Send_Ends))
    \<and> closer c \<notin> {C_Unflagging, C_Calling, C_Returning}"
proof -
  have i: "reader_inv c" "closer_inv c" using creachable_cinv [OF assms] by (simp_all add: cinv_def)
  show ?thesis using i closer_done_quiet [OF creachable_cinv [OF assms]] by (cases "closer c"; cases "reader c"; auto simp: reader_inv_def closer_inv_def)
qed

text \<open>(C32) A disconnect ends. From the moment \<open>disconnect\<close> has cleared \<open>running_\<close>, and provided that \<^verbatim>\<open>ws_.close\<close> makes
  reads fail, the threads of the client take at most 31 sections in any order, and until the
  disconnect has returned one of them can always run without waiting for the network. When it
  has returned, both threads have been joined, the client is not connected, and the owner has
  been told once. No interleaving deadlocks on the write mutex, which the heartbeat, a sender
  and the disconnect share.
\<close>
theorem disconnect_completes:
  assumes "creachable c" and "cleared (closer c)" and "closer c \<noteq> C_Done" and "closer c = C_Locking \<or> closer c = C_Closing \<or> \<not> socket_open c"
    and "erun cstep es c = Some c'" and "Closer_Closes False \<notin> set es"
  shows "length es \<le> 31 \<and> ((\<exists>e c''. due e c' \<and> cstep e c' = Some c'')
    \<or> closer c' = C_Done \<and> reader c' = R_Done \<and> heart c' = H_Done \<and> \<not> connected_flag c' \<and> disconnects_told c' = 1)"
proof -
  have c: "closing c" using creachable_cinv assms(1-4) by (simp add: closing_def shutting_def shut_def)
  have ok: "\<forall>e \<in> set es. closes e" using assms(6) by (auto simp: closes_def)
  have "closing c'" by (rule disconnecting.run_inv [OF assms(5) c ok])
  then have "closer c' = C_Done \<Longrightarrow> reader c' = R_Done \<and> heart c' = H_Done \<and> \<not> connected_flag c' \<and> disconnects_told c' = 1"
    by (simp add: closing_def shutting_def cinv_def closer_inv_def reader_inv_def)
  then show ?thesis
    using disconnecting.run_finishes [OF assms(5) c ok] crank_bound [of c] by auto
qed

section \<open>Examples\<close>

text \<open>A network on which everything succeeds, and a client whose connection it made.\<close>

definition fine_net :: ws_net where
  "fine_net = \<lparr>ws_tunnel = (\<lambda>_ _. TunnelReply 200 [] 0), ws_direct = (\<lambda>_ _. None), ws_sni = (\<lambda>_. True), ws_tls = None,
     ws_handshake = (\<lambda>_ _. None)\<rparr>"

definition fresh_client :: ws_threads where
  "fresh_client = client_opened (fst (ws_open fine_net 0 [] (parse_ws_url ''wss://h:1/s'') (ws_prepare 1000 3000 new_client)))"

lemma parse_no_proxy [simp]: "parse_proxy_url [] = Inr None"
  by (simp add: parse_proxy_url_def)

lemma fine_open:
  "ws_open fine_net now [] u c = (c\<lparr>socket_open := True, running_flag := True, last_recv_time_ms := now, read_thread := True,
     heartbeat_thread := True\<rparr>, Inr True)"
  by (simp add: ws_open_def ws_tcp_def fine_net_def)

lemma fresh_client_opened: "creachable fresh_client"
  unfolding fresh_client_def fine_open fst_conv by (rule creachable.opened) (rule fine_open)

lemma fresh_client_eq:
  "fresh_client = \<lparr>connected_flag = False, running_flag = True, disconnect_notified = False, impl_ping_interval_ms = 1000,
     impl_no_data_timeout_ms = 3000, last_recv_time_ms = 0, read_thread = True, heartbeat_thread = True, socket_open = True,
     reader = R_Test, heart = H_Test, closer = C_Idle, write_mutex = None, calls = []\<rparr>"
  unfolding fresh_client_def fine_open
  by (simp add: ws_prepare_def new_client_def new_impl_def client_opened_def ws_impl.defs)

lemma erun_creachable: "erun cstep es c = Some c' \<Longrightarrow> creachable c \<Longrightarrow> creachable c'"
  by (rule erun_keeps [where step = cstep and P = creachable]) (auto intro: creachable.step)

text \<open>The heartbeat is about to ping when \<open>disconnect\<close> starts; it then holds the mutex first.\<close>

definition busy_close :: "client_event list" where
  "busy_close = [Heart_Loops, Reader_Loops, Reader_Gets 5 ''m'', Reader_Delivers, Reader_Loops, Heart_Wakes, Heart_Looks, Heart_Compares 9]"

definition closing_client :: ws_threads where
  "closing_client = the (erun cstep [Closer_Clears]
     (begin_disconnect ((the (erun cstep busy_close fresh_client))\<lparr>connected_flag := True\<rparr>)))"

lemma closing_client_run:
  "creachable closing_client \<and> closer closing_client = C_Locking \<and> heart closing_client = H_Locking \<and> reader closing_client = R_Reading"
proof -
  obtain c where c: "erun cstep busy_close fresh_client = Some c" "closer c = C_Idle" "heart c = H_Locking" "reader c = R_Reading"
    by (simp add: busy_close_def fresh_client_eq cstep_def)
  have "creachable (begin_disconnect (c\<lparr>connected_flag := True\<rparr>))"
    using creachable.disconnects [OF creachable.flags [OF erun_creachable [OF c(1) fresh_client_opened]]] c(2) by simp
  moreover have d: "begin_disconnect (c\<lparr>connected_flag := True\<rparr>) = c\<lparr>connected_flag := True, closer := C_Clearing\<rparr>"
    by (simp add: begin_disconnect_def)
  moreover have e: "erun cstep [Closer_Clears] (c\<lparr>connected_flag := True, closer := C_Clearing\<rparr>)
      = Some (c\<lparr>connected_flag := True, closer := C_Clearing\<rparr>\<lparr>running_flag := False, closer := C_Locking\<rparr>)"
    by (simp add: cstep_def)
  ultimately show ?thesis
    using erun_creachable [OF e] c(3,4) by (simp only: closing_client_def c(1) option.sel d e) simp
qed

theorem disconnect_told_once_witness:
  "creachable closing_client \<and> reader closing_client = R_Reading \<and> disconnects_told closing_client = 0 \<and> quiet_after (calls closing_client)"
  using closing_client_run disconnect_told_once [of closing_client] by simp

theorem disconnect_completes_witness:
  "\<exists>c'. erun cstep [Heart_Locks, Heart_Pings, Heart_Loops, Closer_Locks, Closer_Closes True, Reader_Throws ''closed'', Reader_Reports,
       Reader_Clears, Reader_Wins, Reader_Unflags, Reader_Calls, Reader_Returns, Closer_Joins_Reader, Closer_Joins_Heart,
       Closer_Wins, Closer_Ends] closing_client = Some c'
     \<and> closer c' = C_Done \<and> reader c' = R_Done \<and> heart c' = H_Done \<and> disconnects_told c' = 1"
proof -
  let ?es = "[Heart_Locks, Heart_Pings, Heart_Loops, Closer_Locks, Closer_Closes True, Reader_Throws ''closed'', Reader_Reports,
       Reader_Clears, Reader_Wins, Reader_Unflags, Reader_Calls, Reader_Returns, Closer_Joins_Reader, Closer_Joins_Heart,
       Closer_Wins, Closer_Ends]"
  obtain c' where r: "erun cstep ?es closing_client = Some c'" and d: "closer c' = C_Done" "write_mutex c' = None"
    by (simp add: closing_client_def busy_close_def begin_disconnect_def fresh_client_eq cstep_def)
  have n: "Closer_Closes False \<notin> set ?es" by simp
  have "creachable c'" using closing_client_run erun_creachable [OF r] by simp
  then have stuck: "\<not> (\<exists>e c''. due e c' \<and> cstep e c' = Some c'')"
    using closer_done_quiet [OF creachable_cinv, of c'] d by (force simp: cstep_def end_send_def)
  have "creachable closing_client" "cleared (closer closing_client)" "closer closing_client \<noteq> C_Done"
    "closer closing_client = C_Locking \<or> closer closing_client = C_Closing \<or> \<not> socket_open closing_client" using closing_client_run by simp_all
  from disconnect_completes [OF this r n] stuck r show ?thesis by blast
qed

end
