(* ===== verification/Connection_Lifecycle.thy ===== *)
theory Connection_Lifecycle
  imports Metrics Config_Load Ws_Client
begin

text \<open>
  The threads around a connection: \<^verbatim>\<open>reconnect_loop\<close>, \<^verbatim>\<open>start\<close>, \<^verbatim>\<open>stop\<close> and
  \<^verbatim>\<open>calc_backoff_ms\<close> of \<^verbatim>\<open>src/network/connection_manager.cpp\<close>, together with the threads of the
  client they own (theory \<open>Ws_Client\<close>) and the destructors it runs. Each event is one atomic
  section of one thread: an atomic store, a section under a mutex, a notification.
  \<^verbatim>\<open>cv_.wait\<close> is three of them (test the predicate, block, wake up), because its notifiers do not
  hold \<open>cv_mutex_\<close>. Network calls succeed or fail as the event says. A step function is \<^const>\<open>None\<close>
  where the section cannot run in that state. \<^verbatim>\<open>ws_.close\<close> has the documented effect that reads fail
  afterwards.
\<close>

section \<open>Backoff\<close>

definition calc_backoff_ms :: "config \<Rightarrow> int \<Rightarrow> int" where
  "calc_backoff_ms cfg attempt =
     (let base = reconnect_interval_ms cfg; backoff = base * 2 ^ nat (min attempt 8)
      in min backoff 30000)"

section \<open>State\<close>

text \<open>The control points of \<^verbatim>\<open>reconnect_loop\<close> and of \<^verbatim>\<open>stop\<close>.\<close>

datatype loop_pc = Top | Replacing | Destroying | Joining | Connecting | Failing | Opened | Flagged | Connected | Sending | Locking | Writing
  | Testing | Blocking | Blocked | Deciding | Waiting_Backoff | Exited

datatype stop_pc = NoStop | StopClient | StopClosing | StopNotify | StopJoin | Stopped

record life =
  url :: string
  running :: bool
  need_reconnect :: bool
  attempt :: int
  loop :: loop_pc
  stopper :: stop_pc
  client :: "ws_threads option"
  life_metrics :: metrics

text \<open>The state right after \<^verbatim>\<open>start\<close> on a new manager.\<close>

definition started :: "string \<Rightarrow> life" where
  "started u = \<lparr>url = u, running = True, need_reconnect = False, attempt = 0, loop = Top, stopper = NoStop,
     client = None, life_metrics = new_metrics\<rparr>"

section \<open>Atomic sections\<close>

datatype life_event =
    LoopTop                     \<comment> \<open>\<open>while (running_)\<close>\<close>
  | LoopLocks                   \<comment> \<open>\<open>client_mutex_\<close> taken; the old client's destructor calls \<open>disconnect\<close>\<close>
  | LoopDestroys | LoopJoins    \<comment> \<open>\<open>~Impl\<close>, then the new client and the check of the symbols\<close>
  | ConnectTries ws_net int     \<comment> \<open>the body of \<open>connect\<close>\<close>
  | ConnectFails int int        \<comment> \<open>\<open>connect\<close> returned false; clock before and after\<close>
  | ConnectFlags | ConnectReturns int int
  | ResetFlags                  \<comment> \<open>success counted, \<open>attempt = 0\<close>, \<open>need_reconnect_ = false\<close>\<close>
  | SendTests | SendLocks | SendWrites "string option"
  | TestWait | BlockWait | Spurious
  | Decide                      \<comment> \<open>\<open>!running_\<close>, retry limit\<close>
  | BackoffOver
  | StopBegin | StopSeesClient | StopClosed | StopNotifies | StopLoopJoined
  | StartAgain
  | Client client_event

text \<open>\<^verbatim>\<open>cv_.notify_all()\<close> wakes the loop only when it is already blocked.\<close>

definition notify_cv :: "life \<Rightarrow> life" where
  "notify_cv s = (if loop s = Blocked then s\<lparr>loop := Testing\<rparr> else s)"

definition record_connect :: "int \<Rightarrow> int \<Rightarrow> metrics \<Rightarrow> metrics option" where
  "record_connect b e m = (case diff_ms b e of None \<Rightarrow> None
     | Some ms \<Rightarrow> Some (if ms \<ge> 0 then m\<lparr>connect_duration_samples := connect_duration_samples m + 1,
           connect_duration_ms_total := connect_duration_ms_total m + of_int ms,
           connect_duration_ms_max := update_atomic_max (connect_duration_ms_max m) (of_int ms)\<rparr>
         else count_anomaly m))"

text \<open>The end of the section under \<open>client_mutex_\<close>, the check of the symbols, and the counted attempt.\<close>

definition fresh_attempt :: "config \<Rightarrow> life \<Rightarrow> life" where
  "fresh_attempt cfg s = (if cfg_symbols cfg = [] then s\<lparr>client := Some new_client, loop := Exited\<rparr>
     else s\<lparr>client := Some new_client, loop := Connecting,
       life_metrics := (life_metrics s)\<lparr>connect_attempts := connect_attempts (life_metrics s) + 1\<rparr>\<rparr>)"

definition joinable_done :: "ws_threads \<Rightarrow> bool" where
  "joinable_done w \<longleftrightarrow> (read_thread w \<longrightarrow> reader w = R_Done) \<and> (heartbeat_thread w \<longrightarrow> heart w = H_Done)"

definition closer_free :: "ws_threads \<Rightarrow> bool" where
  "closer_free w \<longleftrightarrow> closer w = C_Idle \<or> closer w = C_Done"

text \<open>The loop up to the result of \<^verbatim>\<open>connect\<close>, and the destruction of the old client.\<close>

fun connect_step :: "config \<Rightarrow> life_event \<Rightarrow> life \<Rightarrow> life option" where
  "connect_step cfg LoopTop s = (if loop s = Top then Some (s\<lparr>loop := (if running s then Replacing else Exited)\<rparr>) else None)"
| "connect_step cfg LoopLocks s = (if loop s \<noteq> Replacing \<or> stopper s = StopClosing then None
     else (case client s of
         None \<Rightarrow> Some (fresh_attempt cfg s)
       | Some w \<Rightarrow> Some (s\<lparr>client := Some (begin_disconnect w), loop := Destroying\<rparr>)))"
| "connect_step cfg LoopDestroys s = (case client s of
       Some w \<Rightarrow> if loop s = Destroying \<and> closer_free w
         then Some (s\<lparr>client := Some (w\<lparr>running_flag := False\<rparr>), loop := Joining\<rparr>) else None
     | None \<Rightarrow> None)"
| "connect_step cfg LoopJoins s = (case client s of
       Some w \<Rightarrow> if loop s = Joining \<and> joinable_done w then Some (fresh_attempt cfg s) else None
     | None \<Rightarrow> None)"
| "connect_step cfg (ConnectTries net now) s = (case client s of
       Some w \<Rightarrow> if loop s \<noteq> Connecting then None
         else (case ws_open net now (proxy_url cfg) (parse_ws_url (url s))
               (ws_prepare (ping_interval_ms cfg) (no_data_timeout_ms cfg) w) of
             (w', Inl e) \<Rightarrow> Some (s\<lparr>client := Some (w'\<lparr>calls := calls w' @ [On_Error e]\<rparr>), loop := Failing\<rparr>)
           | (w', Inr False) \<Rightarrow> Some (s\<lparr>client := Some w', loop := Failing\<rparr>)
           | (w', Inr True) \<Rightarrow> Some (s\<lparr>client := Some (client_opened w'), loop := Opened\<rparr>))
     | None \<Rightarrow> None)"
| "connect_step cfg (ConnectFails b e) s = (if loop s \<noteq> Failing then None
     else map_option (\<lambda>m. s\<lparr>life_metrics := m, loop := Deciding\<rparr>) (record_connect b e (life_metrics s)))"
| "connect_step cfg ConnectFlags s = (case client s of
       Some w \<Rightarrow> if loop s = Opened then Some (s\<lparr>client := Some (w\<lparr>connected_flag := True\<rparr>), loop := Flagged\<rparr>) else None
     | None \<Rightarrow> None)"
| "connect_step cfg (ConnectReturns b e) s = (case client s of
       Some w \<Rightarrow> if loop s \<noteq> Flagged then None
         else map_option (\<lambda>m. s\<lparr>client := Some (w\<lparr>connected_flag := True\<rparr>), life_metrics := m, loop := Connected\<rparr>)
           (record_connect b e (life_metrics s))
     | None \<Rightarrow> None)"
| "connect_step cfg _ s = None"

text \<open>The rest of the loop: the subscription, the wait, the decision.\<close>

fun serve_step :: "config \<Rightarrow> life_event \<Rightarrow> life \<Rightarrow> life option" where
  "serve_step cfg ResetFlags s = (if loop s \<noteq> Connected then None
     else Some (s\<lparr>attempt := 0, need_reconnect := False, loop := Sending,
       life_metrics := (life_metrics s)\<lparr>connect_successes := connect_successes (life_metrics s) + 1\<rparr>\<rparr>))"
| "serve_step cfg SendTests s = (case client s of
       Some w \<Rightarrow> if loop s \<noteq> Sending then None
         else if connected_flag w then Some (s\<lparr>loop := Locking\<rparr>)
         else Some (s\<lparr>need_reconnect := True, loop := Deciding\<rparr>)
     | None \<Rightarrow> None)"
| "serve_step cfg SendLocks s = (case client s of
       Some w \<Rightarrow> if loop s \<noteq> Locking then None
         else map_option (\<lambda>w'. s\<lparr>client := Some w', loop := Writing\<rparr>) (begin_send w)
     | None \<Rightarrow> None)"
| "serve_step cfg (SendWrites err) s = (case client s of
       Some w \<Rightarrow> if loop s \<noteq> Writing then None
         else (case err of
             None \<Rightarrow> map_option (\<lambda>w'. s\<lparr>client := Some w', loop := Testing\<rparr>) (end_send w)
           | Some e \<Rightarrow> map_option (\<lambda>w'. s\<lparr>client := Some (w'\<lparr>calls := calls w' @ [On_Error e]\<rparr>),
               need_reconnect := True, loop := Deciding\<rparr>) (end_send w))
     | None \<Rightarrow> None)"
| "serve_step cfg TestWait s = (if loop s \<noteq> Testing then None
     else Some (s\<lparr>loop := (if need_reconnect s \<or> \<not> running s then Deciding else Blocking)\<rparr>))"
| "serve_step cfg BlockWait s = (if loop s = Blocking then Some (s\<lparr>loop := Blocked\<rparr>) else None)"
| "serve_step cfg Spurious s = (if loop s = Blocked then Some (s\<lparr>loop := Testing\<rparr>) else None)"
| "serve_step cfg Decide s = (if loop s \<noteq> Deciding then None
     else if \<not> running s \<or> max_reconnect_attempts cfg > 0 \<and> attempt s \<ge> max_reconnect_attempts cfg
     then Some (s\<lparr>loop := Exited\<rparr>) else Some (s\<lparr>loop := Waiting_Backoff\<rparr>))"
| "serve_step cfg BackoffOver s = (if loop s = Waiting_Backoff
     then Some (s\<lparr>attempt := attempt s + 1, loop := Top\<rparr>) else None)"
| "serve_step cfg _ s = None"

text \<open>\<^verbatim>\<open>stop\<close>, the destructor of the manager, which is \<^verbatim>\<open>stop\<close>, and a later \<^verbatim>\<open>start\<close>.\<close>

fun stop_step :: "life_event \<Rightarrow> life \<Rightarrow> life option" where
  "stop_step StopBegin s = (if stopper s = NoStop then Some (s\<lparr>running := False, stopper := StopClient\<rparr>) else None)"
| "stop_step StopSeesClient s = (if stopper s \<noteq> StopClient \<or> loop s = Destroying \<or> loop s = Joining then None
     else (case client s of
         Some w \<Rightarrow> Some (s\<lparr>client := Some (begin_disconnect w), stopper := StopClosing\<rparr>)
       | None \<Rightarrow> Some (s\<lparr>stopper := StopNotify\<rparr>)))"
| "stop_step StopClosed s = (case client s of
       Some w \<Rightarrow> if stopper s = StopClosing \<and> closer_free w then Some (s\<lparr>stopper := StopNotify\<rparr>) else None
     | None \<Rightarrow> None)"
| "stop_step StopNotifies s = (if stopper s = StopNotify then Some (notify_cv (s\<lparr>stopper := StopJoin\<rparr>)) else None)"
| "stop_step StopLoopJoined s = (if stopper s = StopJoin \<and> loop s = Exited then Some (s\<lparr>stopper := Stopped\<rparr>) else None)"
| "stop_step StartAgain s = (if running s then Some s
     else if stopper s \<noteq> Stopped then None
     else Some (s\<lparr>running := True, loop := Top, stopper := NoStop, attempt := 0\<rparr>))"
| "stop_step _ s = None"

text \<open>A section of the client's threads; the callback for the disconnect is two sections, the store of
  \<open>need_reconnect_\<close> and the notification.\<close>

definition on_disconnect :: "client_event \<Rightarrow> life \<Rightarrow> life" where
  "on_disconnect e s = (if e = Reader_Calls \<or> e = Closer_Calls then s\<lparr>need_reconnect := True\<rparr>
     else if e = Reader_Returns \<or> e = Closer_Returns then notify_cv s else s)"

definition client_step :: "client_event \<Rightarrow> life \<Rightarrow> life option" where
  "client_step e s = (case client s of
       Some w \<Rightarrow> if e = Send_Ends \<or> \<not> closes e then None
         else map_option (\<lambda>w'. on_disconnect e (s\<lparr>client := Some w'\<rparr>)) (cstep e w)
     | None \<Rightarrow> None)"

definition lstep :: "config \<Rightarrow> life_event \<Rightarrow> life \<Rightarrow> life option" where
  "lstep cfg e s = (case e of Client ce \<Rightarrow> client_step ce s
     | _ \<Rightarrow> (case connect_step cfg e s of Some s' \<Rightarrow> Some s'
       | None \<Rightarrow> (case serve_step cfg e s of Some s' \<Rightarrow> Some s' | None \<Rightarrow> stop_step e s)))"

inductive reachable :: "config \<Rightarrow> life \<Rightarrow> bool" for cfg where
  start: "reachable cfg (started u)"
| step: "reachable cfg s \<Longrightarrow> lstep cfg e s = Some s' \<Longrightarrow> reachable cfg s'"

lemma lrun_reachable: "erun (lstep cfg) es s = Some s' \<Longrightarrow> reachable cfg s \<Longrightarrow> reachable cfg s'"
  by (rule erun_keeps [where step = "lstep cfg" and P = "reachable cfg"]) (auto intro: reachable.step)

lemma lstep_cases:
  assumes "lstep cfg e s = Some s'"
  obtains (connect) "connect_step cfg e s = Some s'" | (serve) "serve_step cfg e s = Some s'" | (stop) "stop_step e s = Some s'"
    | (client) ce where "client_step ce s = Some s'" "e = Client ce"
  using assms by (cases e) (auto simp: lstep_def split: option.splits)

lemma notify_cv_sel [simp]:
  "stopper (notify_cv s) = stopper s" "running (notify_cv s) = running s" "attempt (notify_cv s) = attempt s"
  "client (notify_cv s) = client s" "need_reconnect (notify_cv s) = need_reconnect s"
  "loop (notify_cv s) = (if loop s = Blocked then Testing else loop s)"
  by (simp_all add: notify_cv_def)

lemma on_disconnect_sel [simp]:
  "stopper (on_disconnect e s) = stopper s" "running (on_disconnect e s) = running s" "attempt (on_disconnect e s) = attempt s"
  "client (on_disconnect e s) = client s"
  by (simp_all add: on_disconnect_def)

lemma fresh_attempt_sel [simp]:
  "stopper (fresh_attempt cfg s) = stopper s" "running (fresh_attempt cfg s) = running s" "attempt (fresh_attempt cfg s) = attempt s"
  "client (fresh_attempt cfg s) = Some new_client" "loop (fresh_attempt cfg s) = (if cfg_symbols cfg = [] then Exited else Connecting)"
  by (simp_all add: fresh_attempt_def)

lemma client_stepE:
  assumes "client_step e s = Some s'"
  obtains w w' where "client s = Some w" "cstep e w = Some w'" "closes e" "e \<noteq> Send_Ends" "s' = on_disconnect e (s\<lparr>client := Some w'\<rparr>)"
  using assms by (auto simp: client_step_def split: option.splits if_splits)

section \<open>Invariant\<close>

definition stop_inv :: "life \<Rightarrow> bool" where
  "stop_inv s \<longleftrightarrow> (stopper s \<noteq> NoStop \<longrightarrow> \<not> running s) \<and> (stopper s = Stopped \<longrightarrow> loop s = Exited)
     \<and> (stopper s = StopClosing \<longrightarrow> loop s \<noteq> Destroying \<and> loop s \<noteq> Joining \<and> client s \<noteq> None)"

definition attempt_inv :: "config \<Rightarrow> life \<Rightarrow> bool" where
  "attempt_inv cfg s \<longleftrightarrow> 0 \<le> attempt s \<and> (0 < max_reconnect_attempts cfg \<longrightarrow> attempt s \<le> max_reconnect_attempts cfg
     \<and> (loop s = Waiting_Backoff \<longrightarrow> attempt s < max_reconnect_attempts cfg))"

text \<open>Whether the loop has a connected client, and whether it has a client at all.\<close>

fun serving :: "loop_pc \<Rightarrow> bool" where
  "serving Opened = True" | "serving Flagged = True" | "serving Connected = True" | "serving Sending = True" | "serving Locking = True"
| "serving Writing = True" | "serving Testing = True" | "serving Blocking = True" | "serving Blocked = True" | "serving _ = False"

fun trying :: "loop_pc \<Rightarrow> bool" where
  "trying Connecting = True" | "trying Failing = True" | "trying _ = False"

fun destroying :: "loop_pc \<Rightarrow> bool" where
  "destroying Destroying = True" | "destroying Joining = True" | "destroying _ = False"

definition threads_inv :: "life \<Rightarrow> ws_threads \<Rightarrow> bool" where
  "threads_inv s w \<longleftrightarrow> (blank w \<and> \<not> serving (loop s) \<or> cinv w \<and> \<not> trying (loop s))
     \<and> (write_mutex w = Some By_Sender \<longleftrightarrow> loop s = Writing)
     \<and> (\<not> closer_free w \<longrightarrow> stopper s = StopClosing \<or> loop s = Destroying)
     \<and> (loop s = Opened \<longrightarrow> closer w = C_Idle \<and> \<not> connected_flag w) \<and> shut w"

definition client_inv :: "life \<Rightarrow> bool" where
  "client_inv s \<longleftrightarrow> (case client s of None \<Rightarrow> \<not> serving (loop s) \<and> \<not> trying (loop s) \<and> \<not> destroying (loop s) | Some w \<Rightarrow> threads_inv s w)"

definition life_inv :: "config \<Rightarrow> life \<Rightarrow> bool" where
  "life_inv cfg s \<longleftrightarrow> stop_inv s \<and> attempt_inv cfg s \<and> client_inv s"

lemma started_inv: "life_inv cfg (started u)"
  by (simp add: life_inv_def stop_inv_def attempt_inv_def client_inv_def started_def)

lemmas life_splits = if_splits option.splits prod.splits sum.splits bool.splits

lemma lstep_stop_inv: "lstep cfg e s = Some s' \<Longrightarrow> stop_inv s \<Longrightarrow> stop_inv s'"
  by (erule lstep_cases; (erule client_stepE)?; cases e) (auto simp: stop_inv_def on_disconnect_def split: life_splits)

lemma attempt_inv_same:
  "attempt_inv cfg s \<Longrightarrow> attempt s' = attempt s \<Longrightarrow> (loop s' = Waiting_Backoff \<longrightarrow> loop s = Waiting_Backoff) \<Longrightarrow> attempt_inv cfg s'"
  by (simp add: attempt_inv_def)

lemma lstep_attempt_inv:
  assumes "lstep cfg e s = Some s'" and "attempt_inv cfg s"
  shows "attempt_inv cfg s'"
  using assms(1)
proof (cases rule: lstep_cases)
  case connect
  then have "attempt s' = attempt s \<and> (loop s' = Waiting_Backoff \<longrightarrow> loop s = Waiting_Backoff)"
    by (cases e) (auto split: life_splits)
  with assms(2) attempt_inv_same show ?thesis by blast
next
  case serve
  then show ?thesis using assms(2) by (cases e; clarsimp split: life_splits; auto simp: attempt_inv_def)
next
  case stop
  then show ?thesis using assms(2) by (cases e; clarsimp split: life_splits; simp add: attempt_inv_def)
next
  case (client ce)
  then have "attempt s' = attempt s \<and> (loop s' = Waiting_Backoff \<longrightarrow> loop s = Waiting_Backoff)"
    by (auto elim!: client_stepE simp: on_disconnect_def split: if_splits)
  with assms(2) attempt_inv_same show ?thesis by blast
qed

lemma client_step_inv:
  assumes "client_step e s = Some s'" and "client_inv s"
  shows "client_inv s'"
proof -
  from assms(1) obtain w w' where w: "client s = Some w" "cstep e w = Some w'" "closes e" "e \<noteq> Send_Ends" "s' = on_disconnect e (s\<lparr>client := Some w'\<rparr>)"
    by (rule client_stepE)
  have t: "threads_inv s w" using assms(2) w(1) by (simp add: client_inv_def)
  then have i: "cinv w" "\<not> trying (loop s)" using w(2) blank_stuck [of w e] by (auto simp: threads_inv_def)
  have l: "loop s' = loop s \<or> loop s = Blocked \<and> loop s' = Testing" "client s' = Some w'" "stopper s' = stopper s"
    using w(5) by (auto simp: on_disconnect_def)
  have "cinv w'" "shut w'" "write_mutex w' = Some By_Sender \<longleftrightarrow> write_mutex w = Some By_Sender"
    using cstep_cinv [OF w(2) i(1)] cstep_shut [OF w(2,3)] cstep_sender [OF w(2,4)] i(1) t by (simp_all add: threads_inv_def cinv_def)
  moreover have "closer_free w \<Longrightarrow> closer w' = closer w" "\<not> connected_flag w \<Longrightarrow> \<not> connected_flag w'"
    using cstep_closer_free [OF w(2)] cstep_connected [OF w(2)] by (simp_all add: closer_free_def)
  ultimately show ?thesis using t i l by (auto simp: client_inv_def threads_inv_def closer_free_def)
qed

lemma begin_disconnect_facts:
  assumes "threads_inv s w" and "closer_free w"
  shows "blank w \<Longrightarrow> begin_disconnect w = w" and "cinv w \<Longrightarrow> cinv (begin_disconnect w)" and "shut (begin_disconnect w)"
    and "write_mutex (begin_disconnect w) = write_mutex w"
    and "closer (begin_disconnect w) = (if connected_flag w then C_Clearing else closer w)"
    and "connected_flag (begin_disconnect w) = connected_flag w"
  using assms begin_disconnect_cinv [of w] by (simp_all add: begin_disconnect_def blank_def shut_def threads_inv_def closer_free_def)

lemma connect_tries_inv:
  assumes "connect_step cfg (ConnectTries net now) s = Some s'" and "client s = Some w" and "threads_inv s w"
  shows "client_inv s'"
proof -
  have l: "loop s = Connecting" "blank w" using assms by (auto simp: threads_inv_def split: if_splits)
  obtain w' r where o: "ws_open net now (proxy_url cfg) (parse_ws_url (url s)) (ws_prepare (ping_interval_ms cfg) (no_data_timeout_ms cfg) w) = (w', r)"
    by (metis prod.exhaust)
  show ?thesis
  proof (cases "r = Inr True")
    case True
    then have "s' = s\<lparr>client := Some (client_opened w'), loop := Opened\<rparr>" using assms(1) by (simp add: assms(2) l(1) o)
    then show ?thesis using ws_open_outcome(1) [OF o l(2) True]
      by (simp add: client_inv_def threads_inv_def closer_free_def shut_def client_opened_def)
  next
    case False
    then have b: "blank w'" by (rule ws_open_outcome(2) [OF o l(2)])
    obtain cs where "s' = s\<lparr>client := Some (w'\<lparr>calls := cs\<rparr>), loop := Failing\<rparr>" "blank (w'\<lparr>calls := cs\<rparr>)"
    proof (cases r)
      case (Inl e')
      then show thesis using assms(1) that [of "calls w' @ [On_Error e']"] b by (simp add: assms(2) l(1) o blank_def)
    next
      case (Inr ok)
      then show thesis using assms(1) False that [of "calls w'"] b by (cases ok) (simp_all add: assms(2) l(1) o)
    qed
    then show ?thesis by (simp add: client_inv_def threads_inv_def closer_free_def shut_def blank_def)
  qed
qed

lemma connect_step_inv:
  assumes "connect_step cfg e s = Some s'" and "client_inv s"
  shows "client_inv s'"
proof (cases "client s")
  case None
  then show ?thesis using assms
    by (cases e; clarsimp split: life_splits; simp add: client_inv_def threads_inv_def closer_free_def shut_def)
next
  case (Some w)
  then have t: "threads_inv s w" using assms(2) by (simp add: client_inv_def)
  show ?thesis
  proof (cases e)
    case LoopLocks
    then have l: "loop s = Replacing" "stopper s \<noteq> StopClosing" "s' = s\<lparr>client := Some (begin_disconnect w), loop := Destroying\<rparr>"
      using assms(1) Some by (auto split: if_splits)
    then have "closer_free w" using t by (auto simp: threads_inv_def)
    then show ?thesis using begin_disconnect_facts [OF t] t l by (auto simp: client_inv_def threads_inv_def)
  next
    case (ConnectTries net now)
    then show ?thesis using connect_tries_inv assms(1) Some t by blast
  next
    case LoopDestroys
    then have "loop s = Destroying" "closer_free w" "s' = s\<lparr>client := Some (w\<lparr>running_flag := False\<rparr>), loop := Joining\<rparr>"
      using assms(1) Some by (auto split: if_splits)
    then show ?thesis using t cinv_cleared [of w] by (auto simp: client_inv_def threads_inv_def closer_free_def shut_def blank_def)
  qed (use assms(1) t Some in \<open>clarsimp split: life_splits; simp add: client_inv_def threads_inv_def closer_free_def shut_def\<close>)+
qed

lemma serve_step_inv:
  assumes "serve_step cfg e s = Some s'" and "client_inv s"
  shows "client_inv s'"
proof (cases "client s")
  case None
  then show ?thesis using assms by (cases e; clarsimp split: life_splits; simp add: client_inv_def)
next
  case (Some w)
  then have t: "threads_inv s w" using assms(2) by (simp add: client_inv_def)
  show ?thesis
  proof (cases e)
    case SendLocks
    then obtain w' where w': "loop s = Locking" "begin_send w = Some w'" "s' = s\<lparr>client := Some w', loop := Writing\<rparr>"
      using assms(1) Some by (auto split: if_splits)
    then have "cinv w'" using begin_send_cinv t by (auto simp: threads_inv_def)
    then show ?thesis using t w' by (auto simp: client_inv_def threads_inv_def closer_free_def shut_def begin_send_def split: if_splits)
  next
    case (SendWrites err)
    then obtain w' where w': "loop s = Writing" "end_send w = Some w'" "client s' = Some (case err of None \<Rightarrow> w' | Some x \<Rightarrow> w'\<lparr>calls := calls w' @ [On_Error x]\<rparr>)"
      "loop s' = (case err of None \<Rightarrow> Testing | Some x \<Rightarrow> Deciding)" "stopper s' = stopper s"
      using assms(1) Some by (auto split: if_splits option.splits)
    then have "cinv w'" using end_send_cinv t by (auto simp: threads_inv_def)
    then have "cinv (case err of None \<Rightarrow> w' | Some x \<Rightarrow> w'\<lparr>calls := calls w' @ [On_Error x]\<rparr>)" by (cases err) (simp_all add: inv_defs)
    then show ?thesis using t w'
      by (cases err) (auto simp: client_inv_def threads_inv_def closer_free_def shut_def end_send_def split: if_splits)
  qed (use assms(1) t Some in \<open>clarsimp split: life_splits; simp add: client_inv_def threads_inv_def closer_free_def\<close>)+
qed

lemma stop_step_inv:
  assumes "stop_step e s = Some s'" and "client_inv s" and "stop_inv s"
  shows "client_inv s'"
proof (cases "client s")
  case None
  then show ?thesis using assms(1,2) by (cases e; clarsimp split: life_splits; auto simp: client_inv_def)
next
  case (Some w)
  then have t: "threads_inv s w" using assms(2) by (simp add: client_inv_def)
  show ?thesis
  proof (cases e)
    case StopSeesClient
    then have l: "stopper s = StopClient" "loop s \<noteq> Destroying" "s' = s\<lparr>client := Some (begin_disconnect w), stopper := StopClosing\<rparr>"
      using assms(1) Some by (auto split: if_splits)
    then have "closer_free w" using t by (auto simp: threads_inv_def)
    then show ?thesis using begin_disconnect_facts [OF t] t l by (auto simp: client_inv_def threads_inv_def)
  qed (use assms(1,3) t Some in \<open>clarsimp split: life_splits; auto simp: client_inv_def threads_inv_def stop_inv_def\<close>)+
qed

lemma lstep_inv:
  assumes "lstep cfg e s = Some s'" and "life_inv cfg s"
  shows "life_inv cfg s'"
proof -
  have i: "stop_inv s" "client_inv s" using assms(2) by (simp_all add: life_inv_def)
  from assms(1) have "client_inv s'"
    by (rule lstep_cases) (blast intro: connect_step_inv serve_step_inv stop_step_inv client_step_inv i)+
  then show ?thesis using lstep_stop_inv [OF assms(1)] lstep_attempt_inv [OF assms(1)] assms(2) by (simp add: life_inv_def)
qed

lemma reachable_inv: "reachable cfg s \<Longrightarrow> life_inv cfg s"
  by (induction rule: reachable.induct) (auto intro: started_inv lstep_inv)

lemma calc_backoff_mono: "0 \<le> reconnect_interval_ms cfg \<Longrightarrow> a \<le> b \<Longrightarrow> calc_backoff_ms cfg a \<le> calc_backoff_ms cfg b"
proof -
  assume "0 \<le> reconnect_interval_ms cfg" and "a \<le> b"
  moreover from \<open>a \<le> b\<close> have "(2::int) ^ nat (min a 8) \<le> 2 ^ nat (min b 8)"
    by (intro power_increasing) (auto simp: min_def)
  ultimately have "reconnect_interval_ms cfg * 2 ^ nat (min a 8) \<le> reconnect_interval_ms cfg * 2 ^ nat (min b 8)"
    by (intro mult_left_mono) simp_all
  then show ?thesis by (simp add: calc_backoff_ms_def Let_def min_def)
qed

lemma calc_backoff_bounds:
  assumes "0 < reconnect_interval_ms cfg"
  shows "min (reconnect_interval_ms cfg) 30000 \<le> calc_backoff_ms cfg a" "calc_backoff_ms cfg a \<le> 30000"
    "calc_backoff_ms cfg a \<le> 256 * reconnect_interval_ms cfg"
proof -
  have p: "1 \<le> (2::int) ^ nat (min a 8)" "(2::int) ^ nat (min a 8) \<le> 256"
    using power_increasing [of "nat (min a 8)" 8 "2::int"] by auto
  have "reconnect_interval_ms cfg * 1 \<le> reconnect_interval_ms cfg * 2 ^ nat (min a 8)"
    "reconnect_interval_ms cfg * 2 ^ nat (min a 8) \<le> reconnect_interval_ms cfg * 256"
    using assms p by (intro mult_left_mono; simp)+
  then show "min (reconnect_interval_ms cfg) 30000 \<le> calc_backoff_ms cfg a" "calc_backoff_ms cfg a \<le> 30000"
    "calc_backoff_ms cfg a \<le> 256 * reconnect_interval_ms cfg"
    by (auto simp: calc_backoff_ms_def Let_def min_def)
qed

section \<open>Stopping\<close>

text \<open>The control points from which the loop ends without making a connection, once \<open>running_\<close> is false.\<close>

fun stop_path :: "loop_pc \<Rightarrow> bool" where
  "stop_path Replacing = False" | "stop_path Destroying = False" | "stop_path Joining = False" | "stop_path Connecting = False"
| "stop_path Failing = False" | "stop_path Opened = False" | "stop_path Blocking = False" | "stop_path _ = True"

fun loop_rank :: "loop_pc \<Rightarrow> nat" where
  "loop_rank Flagged = 11" | "loop_rank Connected = 10" | "loop_rank Sending = 9" | "loop_rank Locking = 8" | "loop_rank Writing = 6"
| "loop_rank Blocked = 5" | "loop_rank Testing = 4" | "loop_rank Deciding = 3" | "loop_rank Waiting_Backoff = 2" | "loop_rank Top = 1"
| "loop_rank _ = 0"

fun stop_rank :: "stop_pc \<Rightarrow> nat" where
  "stop_rank StopClosing = 3" | "stop_rank StopNotify = 2" | "stop_rank StopJoin = 1" | "stop_rank _ = 0"

fun joining :: "stop_pc \<Rightarrow> bool" where
  "joining StopJoin = True" | "joining Stopped = True" | "joining _ = False"

fun past_close :: "stop_pc \<Rightarrow> bool" where
  "past_close NoStop = False" | "past_close StopClient = False" | "past_close StopClosing = False" | "past_close _ = True"

definition stopping :: "life \<Rightarrow> bool" where
  "stopping s \<longleftrightarrow> \<not> running s \<and> stop_path (loop s) \<and> (joining (stopper s) \<longrightarrow> loop s \<noteq> Blocked) \<and> (stopper s = Stopped \<longrightarrow> loop s = Exited)
     \<and> (case client s of None \<Rightarrow> False | Some w \<Rightarrow> shutting w \<and> (write_mutex w = Some By_Sender \<longleftrightarrow> loop s = Writing)
         \<and> (stopper s = StopClosing \<or> past_close (stopper s) \<and> closer w = C_Done))"

definition lrank :: "life \<Rightarrow> nat" where
  "lrank s = (case client s of None \<Rightarrow> 0 | Some w \<Rightarrow> crank w) + loop_rank (loop s) + stop_rank (stopper s)"

definition ldue :: "life_event \<Rightarrow> life \<Rightarrow> bool" where
  "ldue e s \<longleftrightarrow> (case e of Client ce \<Rightarrow> (case client s of None \<Rightarrow> False | Some w \<Rightarrow> due ce w) | Spurious \<Rightarrow> False | _ \<Rightarrow> True)"

lemma shutting_connected [simp]: "shutting (w\<lparr>connected_flag := b\<rparr>) \<longleftrightarrow> shutting w" "crank (w\<lparr>connected_flag := b\<rparr>) = crank w"
  by (simp_all add: shutting_def shut_def crank_def)

lemma shutting_sender:
  "begin_send w = Some w' \<Longrightarrow> shutting w \<Longrightarrow> shutting w' \<and> write_mutex w' = Some By_Sender \<and> closer w' = closer w \<and> crank w' = Suc (crank w)"
  "end_send w = Some w' \<Longrightarrow> shutting w \<Longrightarrow> shutting w' \<and> write_mutex w' = None \<and> closer w' = closer w \<and> crank w' < crank w"
  using begin_send_cinv [of w w'] end_send_cinv [of w w']
  by (auto simp: begin_send_def end_send_def shutting_def shut_def crank_def split: if_splits)

lemma shutting_calls: "shutting w \<Longrightarrow> shutting (w\<lparr>calls := calls w @ [On_Error x]\<rparr>)" "crank (w\<lparr>calls := ns\<rparr>) = crank w"
  by (simp_all add: shutting_def shut_def crank_def inv_defs)

lemma stopping_step:
  assumes "stopping s" and "e \<noteq> StartAgain" and "lstep cfg e s = Some s'"
  shows "stopping s' \<and> lrank s' < lrank s"
proof -
  obtain w where w: "client s = Some w" using assms(1) by (auto simp: stopping_def split: option.splits)
  then have sh: "shutting w" using assms(1) by (simp add: stopping_def)
  from assms(3) show ?thesis
  proof (cases rule: lstep_cases)
    case connect
    then show ?thesis using assms(1) w
      by (cases e; clarsimp split: life_splits; auto simp: stopping_def lrank_def)
  next
    case serve
    then show ?thesis using assms(1) w sh shutting_sender [OF _ sh] shutting_calls
      by (cases e; clarsimp split: life_splits; auto simp: stopping_def lrank_def)
  next
    case stop
    then show ?thesis using assms(1,2) w
      by (cases e; clarsimp split: life_splits; auto simp: stopping_def lrank_def closer_free_def shutting_def)
  next
    case (client ce)
    from client(1) obtain w' where w': "cstep ce w = Some w'" "closes ce" "ce \<noteq> Send_Ends" "s' = on_disconnect ce (s\<lparr>client := Some w'\<rparr>)"
      using w by (elim client_stepE) simp
    have c: "shutting w'" "crank w' < crank w" "write_mutex w' = Some By_Sender \<longleftrightarrow> write_mutex w = Some By_Sender"
      "closer w = C_Done \<longrightarrow> closer w' = C_Done"
      using shutting_step [OF sh w'(2,1)] cstep_sender [OF w'(1,3)] cstep_closer_free [OF w'(1)] sh by (simp_all add: shutting_def cinv_def)
    have "loop s' = loop s \<or> loop s = Blocked \<and> loop s' = Testing" using w'(4) by (auto simp: on_disconnect_def)
    then show ?thesis using assms(1) w w'(4) c by (auto simp: stopping_def lrank_def)
  qed
qed

lemma record_connect_0: "\<exists>m'. record_connect 0 0 m = Some m'"
  by (simp add: record_connect_def diff_in_def i64_sub_def in_i64_def)

text \<open>The next section of the loop.\<close>

fun loop_next :: "loop_pc \<Rightarrow> life_event" where
  "loop_next Flagged = ConnectReturns 0 0" | "loop_next Connected = ResetFlags" | "loop_next Sending = SendTests" | "loop_next Locking = SendLocks"
| "loop_next Writing = SendWrites None" | "loop_next Testing = TestWait" | "loop_next Deciding = Decide" | "loop_next Waiting_Backoff = BackoffOver"
| "loop_next _ = LoopTop"

lemma done_mutex: "shutting w \<Longrightarrow> closer w = C_Done \<Longrightarrow> write_mutex w = None \<or> write_mutex w = Some By_Sender"
  by (cases "write_mutex w"; cases "the (write_mutex w)") (auto simp: shutting_def cinv_def heart_inv_def closer_inv_def)

lemma loop_can_go:
  assumes "stopping s" and "joining (stopper s)" and "loop s \<noteq> Exited"
  shows "\<exists>s'. lstep cfg (loop_next (loop s)) s = Some s'"
proof -
  obtain w where w: "client s = Some w" "shutting w" "closer w = C_Done" "write_mutex w = Some By_Sender \<longleftrightarrow> loop s = Writing" "loop s \<noteq> Blocked" "stop_path (loop s)"
    using assms by (cases "stopper s") (auto simp: stopping_def split: option.splits)
  show ?thesis
    using w done_mutex [OF w(2,3)] assms(3) record_connect_0 [of "life_metrics s"]
    by (cases "loop s") (auto simp: lstep_def begin_send_def end_send_def)
qed

lemma stopping_progress:
  assumes "stopping s" and "stopper s \<noteq> Stopped"
  shows "\<exists>e s'. e \<noteq> StartAgain \<and> ldue e s \<and> lstep cfg e s = Some s'"
proof -
  obtain w where w: "client s = Some w" "shutting w" "write_mutex w = Some By_Sender \<longleftrightarrow> loop s = Writing"
    "stopper s = StopClosing \<or> past_close (stopper s) \<and> closer w = C_Done"
    using assms(1) by (auto simp: stopping_def split: option.splits)
  consider (closing) "stopper s = StopClosing" "closer w \<noteq> C_Done" | (closed) "stopper s = StopClosing" "closer w = C_Done"
    | (notify) "stopper s = StopNotify" | (exited) "stopper s = StopJoin" "loop s = Exited" | (join) "stopper s = StopJoin" "loop s \<noteq> Exited"
    using w(4) assms(2) by (cases "stopper s") auto
  then show ?thesis
  proof cases
    case closing
    then have "can_go w" using closer_can_go [of w] w(2) by (simp add: shutting_def shut_def)
    then obtain e w' where e: "closes e" "due e w" "cstep e w = Some w'" by (auto simp: can_go_def)
    show ?thesis
    proof (cases "e = Send_Ends")
      case True
      then have m: "write_mutex w = Some By_Sender" using e(3) by (auto simp: cstep_def end_send_def split: if_splits)
      then show ?thesis using w(1,3) by (intro exI [of _ "SendWrites None"]) (simp add: ldue_def lstep_def end_send_def)
    next
      case False
      then show ?thesis using e w(1) by (intro exI [of _ "Client e"]) (simp add: ldue_def lstep_def client_step_def)
    qed
  next
    case closed
    then show ?thesis using w(1) by (intro exI [of _ StopClosed]) (simp add: ldue_def lstep_def closer_free_def)
  next
    case notify
    then show ?thesis by (intro exI [of _ StopNotifies]) (simp add: ldue_def lstep_def)
  next
    case exited
    then show ?thesis by (intro exI [of _ StopLoopJoined]) (simp add: ldue_def lstep_def)
  next
    case join
    then have "\<exists>s'. lstep cfg (loop_next (loop s)) s = Some s'" by (intro loop_can_go [OF assms(1)]) simp_all
    moreover have "loop_next (loop s) \<noteq> StartAgain \<and> ldue (loop_next (loop s)) s" by (cases "loop s") (simp_all add: ldue_def)
    ultimately show ?thesis by blast
  qed
qed

interpretation stopping: draining "lstep cfg" stopping "\<lambda>e. e \<noteq> StartAgain" ldue lrank "\<lambda>s. stopper s = Stopped"
  by unfold_locales (use stopping_step stopping_progress in blast)+

lemma stopped_quiet:
  assumes "stopping s" and "stopper s = Stopped" and "lstep cfg e s = Some s'"
  shows "e = StartAgain"
proof -
  have l: "\<not> running s" "loop s = Exited" using assms(1,2) by (auto simp: stopping_def)
  obtain w where w: "client s = Some w" "cinv w" "closer w = C_Done"
    using assms(1,2) by (auto simp: stopping_def shutting_def split: option.splits)
  from assms(3) show ?thesis
  proof (cases rule: lstep_cases)
    case connect
    then show ?thesis using l(2) w(1) by (cases e) (auto split: if_splits option.splits)
  next
    case serve
    then show ?thesis using l(2) w(1) by (cases e) (auto split: if_splits option.splits)
  next
    case stop
    then show ?thesis using assms(2) w(1) by (cases e) (auto split: if_splits option.splits)
  next
    case (client ce)
    then show ?thesis using w closer_done_quiet [OF w(2,3)] by (auto elim!: client_stepE)
  qed
qed

lemma lrank_bound: "lrank s \<le> 45"
proof -
  have "loop_rank l \<le> 11" "stop_rank k \<le> 3" for l k by ((cases l; simp), (cases k; simp))
  from this(1) [of "loop s"] this(2) [of "stopper s"] show ?thesis
    using crank_bound [of "the (client s)"] by (cases "client s") (simp_all add: lrank_def)
qed

lemma stopping_start:
  assumes "reachable cfg s" and "client s = Some w" and "stopper s = StopClosing" and "cleared (closer w)"
    and "loop s \<noteq> Blocking" and "loop s \<noteq> Replacing"
  shows "stopping s"
proof -
  have l: "stop_inv s" "threads_inv s w" using reachable_inv [OF assms(1)] assms(2) by (simp_all add: life_inv_def client_inv_def)
  have "closer w \<noteq> C_Idle" using assms(4) by auto
  then have "cinv w" "loop s \<noteq> Opened" "\<not> trying (loop s)" using l(2) by (auto simp: threads_inv_def blank_def)
  moreover from this have "stop_path (loop s)" using l(1) assms(3,5,6) by (cases "loop s") (auto simp: stop_inv_def)
  ultimately show ?thesis using l assms(2-4) by (simp add: stopping_def stop_inv_def threads_inv_def shutting_def)
qed

section \<open>A connection that breaks\<close>

text \<open>While only the client's threads run, the manager's state changes by the callback alone.\<close>

definition noticing :: "life \<Rightarrow> bool" where
  "noticing s \<longleftrightarrow> (case client s of None \<Rightarrow> False | Some w \<Rightarrow> ending w \<and> write_mutex w \<noteq> Some By_Sender
     \<and> (loop s = Blocked \<and> reader w \<noteq> R_Done \<and> (reader w = R_Returning \<longrightarrow> need_reconnect s)
        \<or> loop s = Testing \<and> reader w = R_Done \<and> need_reconnect s))"

lemma cstep_reader_move:
  "cstep e w = Some w' \<Longrightarrow> reader w \<noteq> R_Done \<Longrightarrow> disconnect_notified w = notifying (reader w)
     \<Longrightarrow> (reader w' = R_Done \<longleftrightarrow> e = Reader_Returns) \<and> (reader w' = R_Returning \<longrightarrow> reader w = R_Returning \<or> e = Reader_Calls)
       \<and> (e = Reader_Returns \<longrightarrow> reader w = R_Returning)"
  by (erule cstep_cases; cases e) (auto simp: end_send_def split: if_splits reader_pc.splits)

lemma cstep_reader_done: "cstep e w = Some w' \<Longrightarrow> reader w = R_Done \<Longrightarrow> reader w' = R_Done \<and> e \<noteq> Reader_Returns \<and> e \<noteq> Reader_Calls"
  by (erule cstep_cases; cases e) (auto simp: end_send_def split: if_splits reader_pc.splits)

lemma noticing_step:
  assumes "noticing s" and "lstep cfg (Client e) s = Some s'"
  shows "noticing s' \<and> crank (the (client s')) < crank (the (client s))"
proof -
  obtain w where w: "client s = Some w" "ending w" "write_mutex w \<noteq> Some By_Sender" using assms(1) by (auto simp: noticing_def split: option.splits)
  from assms(2) obtain w' where w': "cstep e w = Some w'" "e \<noteq> Send_Ends" "s' = on_disconnect e (s\<lparr>client := Some w'\<rparr>)"
    using w(1) by (auto simp: lstep_def elim: client_stepE)
  have i: "cinv w" "closer w = C_Idle" using w(2) by (simp_all add: ending_def)
  have c: "ending w'" "crank w' < crank w" "write_mutex w' \<noteq> Some By_Sender" "e \<noteq> Closer_Returns \<and> e \<noteq> Closer_Calls"
    using ending_step [OF w(2) w'(1)] cstep_sender [OF w'(1,2)] i w(3) w'(1)
    by (auto simp: cinv_def cstep_def split: if_splits)
  have "noticing s'"
  proof (cases "reader w = R_Done")
    case True
    then show ?thesis using cstep_reader_done [OF w'(1)] assms(1) w(1) c w'(3) by (simp add: noticing_def on_disconnect_def)
  next
    case False
    then show ?thesis using cstep_reader_move [OF w'(1)] i(1) assms(1) w(1) c w'(3)
      by (auto simp: noticing_def on_disconnect_def cinv_def reader_inv_def)
  qed
  then show ?thesis using c(2) w(1) w'(3) by simp
qed

lemma noticing_run:
  "erun (lstep cfg) (map Client es) s = Some s' \<Longrightarrow> noticing s \<Longrightarrow> noticing s' \<and> length es + crank (the (client s')) \<le> crank (the (client s))"
proof (induction es arbitrary: s)
  case (Cons e es)
  then obtain t where "lstep cfg (Client e) s = Some t" "erun (lstep cfg) (map Client es) t = Some s'" by (auto split: option.splits)
  with Cons.IH [of t] noticing_step [OF Cons.prems(2)] show ?case by fastforce
qed simp

lemma noticing_progress:
  assumes "noticing s" and "loop s = Blocked"
  shows "\<exists>e s'. ldue (Client e) s \<and> lstep cfg (Client e) s = Some s'"
proof -
  obtain w where w: "client s = Some w" "ending w" "write_mutex w \<noteq> Some By_Sender" "reader w \<noteq> R_Done"
    using assms by (auto simp: noticing_def split: option.splits)
  from breaking.progress [OF w(2)] w(4) obtain e w' where e: "closes e" "due e w" "cstep e w = Some w'" by blast
  then have "e \<noteq> Send_Ends" using w(3) by (auto simp: cstep_def end_send_def split: if_splits)
  then show ?thesis using e w(1) by (intro exI [of _ e]) (simp add: ldue_def lstep_def client_step_def)
qed

section \<open>Properties\<close>

text \<open>(C33) A broken connection is noticed. The loop is blocked in its wait, nobody has called \<open>disconnect\<close>, and the connection is at
  its end, either because the heartbeat has closed the socket of a silent connection or because
  the read thread has left its loop; the owner has not been told yet. Then the threads of the
  client take at most 31 sections, whatever their order; as long as the loop is still blocked one
  of them can run without waiting for the network; and the loop is woken with
  \<open>need_reconnect_\<close> set.
\<close>
theorem broken_connection_noticed:
  assumes "reachable cfg s" and "loop s = Blocked" and "client s = Some w" and "closer w = C_Idle" and "disconnects_told w = 0"
    and "heart w = H_Clearing \<or> \<not> running_flag w \<and> \<not> looping (reader w)"
    and "erun (lstep cfg) (map Client es) s = Some s'"
  shows "length es \<le> 31 \<and> (loop s' = Testing \<and> need_reconnect s'
    \<or> loop s' = Blocked \<and> (\<exists>e s''. ldue (Client e) s' \<and> lstep cfg (Client e) s' = Some s''))"
proof -
  have t: "threads_inv s w" using reachable_inv [OF assms(1)] assms(3) by (simp add: life_inv_def client_inv_def)
  then have i: "cinv w" "write_mutex w \<noteq> Some By_Sender" using assms(2) by (simp_all add: threads_inv_def)
  then have "ending w" using assms(4,6) by (auto simp: ending_def cinv_def heart_inv_def)
  moreover have "reader w \<noteq> R_Done" "reader w \<noteq> R_Returning" using i(1) assms(5) by (auto simp: cinv_def reader_inv_def)
  ultimately have "noticing s" using assms(2,3) i(2) by (simp add: noticing_def)
  from noticing_run [OF assms(7) this] have n: "noticing s'" "length es + crank (the (client s')) \<le> crank w" using assms(3) by simp_all
  then have "loop s' = Testing \<and> need_reconnect s' \<or> loop s' = Blocked" by (auto simp: noticing_def split: option.splits)
  then show ?thesis using noticing_progress [OF n(1)] n(2) crank_bound [of w] by auto
qed



section \<open>Races\<close>

text \<open>The only sections that can run.\<close>

definition only_enabled :: "config \<Rightarrow> life \<Rightarrow> life_event set \<Rightarrow> bool" where
  "only_enabled cfg s E \<longleftrightarrow> (\<forall>e s'. lstep cfg e s = Some s' \<longrightarrow> e \<in> E)"

definition dead_client :: "life \<Rightarrow> bool" where
  "dead_client s \<longleftrightarrow> (case client s of Some w \<Rightarrow> reader w = R_Done \<and> heart w = H_Done \<and> closer_free w | None \<Rightarrow> False)"

lemma run_default:
  "erun (lstep default_config) es (started u) = Some s \<Longrightarrow> reachable default_config s"
  by (rule lrun_reachable) (auto intro: reachable.start)

lemma dead_cstep: "reader w = R_Done \<Longrightarrow> heart w = H_Done \<Longrightarrow> closer_free w \<Longrightarrow> e \<noteq> Send_Ends \<Longrightarrow> cstep e w = None"
  by (cases e) (auto simp: cstep_def closer_free_def)

lemma dead_blocked_enabled:
  assumes "loop s = Blocked" and "dead_client s" and "lstep cfg e s = Some s'"
  shows "e = Spurious \<or> e = StopBegin \<and> stopper s = NoStop \<or> e = StartAgain \<and> running s
    \<or> stopper s \<in> {StopClient, StopClosing, StopNotify, Stopped}"
  using assms(3)
proof (cases rule: lstep_cases)
  case connect
  then show ?thesis using assms(1) by (cases e) (auto split: if_splits option.splits)
next
  case serve
  then show ?thesis using assms(1) by (cases e) (auto split: if_splits option.splits)
next
  case stop
  then show ?thesis using assms(1) by (cases e) (auto split: if_splits option.splits)
next
  case (client ce)
  then show ?thesis using assms(2) dead_cstep by (auto elim!: client_stepE simp: dead_client_def)
qed

text \<open>A connection is made; the loop serves it; its read thread ends on an error.\<close>

definition ev_open :: "life_event list" where
  "ev_open = [LoopTop, LoopLocks, ConnectTries fine_net 0]"

definition ev_serve :: "life_event list" where
  "ev_serve = [ConnectFlags, ConnectReturns 0 0, ResetFlags, SendTests, SendLocks, SendWrites None, TestWait]"

definition ev_break :: "life_event list" where
  "ev_break = map Client [Heart_Loops, Reader_Loops, Reader_Throws ''reset'', Reader_Reports, Reader_Clears, Reader_Wins, Reader_Unflags,
     Reader_Calls, Reader_Returns, Heart_Wakes, Heart_Looks]"

lemmas run_simps = started_def default_config_def notify_cv_def on_disconnect_def fresh_attempt_def lstep_def client_step_def closes_def
  fine_open ws_prepare_def new_client_def new_impl_def ws_impl.defs client_opened_def cstep_def begin_send_def end_send_def begin_disconnect_def
  record_connect_def diff_in_def i64_sub_def in_i64_def quot_def closer_free_def ev_open_def ev_serve_def ev_break_def

lemma run_lost_wakeup:
  "\<exists>s. erun (lstep default_config) (ev_open @ ev_serve @ ev_break @ [BlockWait]) (started u) = Some s
     \<and> running s \<and> dead_client s \<and> loop s = Blocked \<and> need_reconnect s \<and> stopper s = NoStop"
  "\<exists>s. erun (lstep default_config) (ev_open @ ev_break @ ev_serve @ [BlockWait]) (started u) = Some s
     \<and> running s \<and> dead_client s \<and> loop s = Blocked \<and> \<not> need_reconnect s \<and> stopper s = NoStop"
  by (simp_all add: run_simps dead_client_def)

text \<open>\<open>stop\<close> while the loop connects, and \<open>stop\<close> while the loop is about to block.\<close>

definition ev_stop_early :: "life_event list" where
  "ev_stop_early = [LoopTop, LoopLocks, StopBegin, StopSeesClient, StopClosed, StopNotifies, ConnectTries fine_net 0] @ ev_serve
     @ [Decide, StopLoopJoined]"

definition ev_close :: "life_event list" where
  "ev_close = map Client [Closer_Clears, Closer_Locks, Closer_Closes True, Reader_Loops, Reader_Clears, Reader_Wins, Reader_Unflags,
     Reader_Calls, Reader_Returns, Heart_Loops, Closer_Joins_Reader, Closer_Joins_Heart, Closer_Wins, Closer_Ends]"

definition ev_stop_late :: "life_event list" where
  "ev_stop_late = ev_open @ ev_serve @ [StopBegin, StopSeesClient] @ ev_close @ [StopClosed, StopNotifies, BlockWait]"

lemma run_stop_races:
  "\<exists>s w. erun (lstep default_config) ev_stop_early (started u) = Some s \<and> stopper s = Stopped \<and> client s = Some w
     \<and> reader w = R_Test \<and> running_flag w \<and> socket_open w"
  "\<exists>s. erun (lstep default_config) ev_stop_late (started u) = Some s \<and> stopper s = StopJoin \<and> loop s = Blocked \<and> dead_client s \<and> \<not> running s"
  by (simp_all add: run_simps dead_client_def ev_stop_early_def ev_stop_late_def ev_close_def)

lemma live_reader_delivers:
  assumes "client s = Some w" and "reader w = R_Test" and "running_flag w" and "socket_open w"
  shows "\<exists>s' w'. erun (lstep cfg) (map Client [Reader_Loops, Reader_Gets now m, Reader_Delivers]) s = Some s'
    \<and> client s' = Some w' \<and> calls w' = calls w @ [On_Message m]"
  using assms by (simp add: lstep_def client_step_def closes_def cstep_def on_disconnect_def)


text \<open>(C39) Two races of \<open>stop\<close>. When it is called while \<open>connect\<close> is under way, it sees no connected client,
  and it can return with the new client's threads running, which then deliver messages after \<open>stop\<close>
  has returned. When it is called between the test of the wait predicate and the block, all its
  notifications can come too early, and it then waits for a thread that only a spurious wake-up
  can end.
\<close>
theorem stop_races:
  "(\<exists>s w. reachable default_config s \<and> stopper s = Stopped \<and> client s = Some w
      \<and> (\<forall>m. \<exists>es s' w'. erun (lstep default_config) (map Client es) s = Some s' \<and> client s' = Some w' \<and> calls w' = calls w @ [On_Message m]))
   \<and> (\<exists>s. reachable default_config s \<and> stopper s = StopJoin \<and> loop s = Blocked \<and> only_enabled default_config s {Spurious})"
proof
  obtain s w where s: "erun (lstep default_config) ev_stop_early (started []) = Some s" "stopper s = Stopped" "client s = Some w"
    "reader w = R_Test" "running_flag w" "socket_open w" using run_stop_races(1) by blast
  then show "\<exists>s w. reachable default_config s \<and> stopper s = Stopped \<and> client s = Some w
      \<and> (\<forall>m. \<exists>es s' w'. erun (lstep default_config) (map Client es) s = Some s' \<and> client s' = Some w' \<and> calls w' = calls w @ [On_Message m])"
    using run_default [OF s(1)] live_reader_delivers [OF s(3-6)] by blast
next
  obtain s where s: "erun (lstep default_config) ev_stop_late (started []) = Some s" "stopper s = StopJoin" "loop s = Blocked" "dead_client s" "\<not> running s"
    using run_stop_races(2) by blast
  then have "only_enabled default_config s {Spurious}" using dead_blocked_enabled [OF s(3,4)] by (fastforce simp: only_enabled_def)
  then show "\<exists>s. reachable default_config s \<and> stopper s = StopJoin \<and> loop s = Blocked \<and> only_enabled default_config s {Spurious}"
    using s run_default [OF s(1)] by blast
qed

section \<open>Witnesses\<close>


text \<open>Three seconds of silence: the heartbeat has closed the socket.\<close>

theorem broken_connection_noticed_witness:
  "\<exists>s s'. reachable default_config s \<and> loop s = Blocked
     \<and> erun (lstep default_config) (map Client [Heart_Clears, Reader_Throws ''closed'', Reader_Reports, Reader_Clears, Reader_Wins,
         Reader_Unflags, Reader_Calls, Reader_Returns]) s = Some s' \<and> loop s' = Testing \<and> need_reconnect s'"
proof -
  let ?es = "[Heart_Clears, Reader_Throws ''closed'', Reader_Reports, Reader_Clears, Reader_Wins, Reader_Unflags, Reader_Calls, Reader_Returns]"
  obtain s w s' where s: "erun (lstep default_config) (ev_open @ ev_serve @ [BlockWait] @ map Client [Reader_Loops, Heart_Loops, Heart_Wakes, Heart_Looks,
      Heart_Compares 3001, Heart_Closes]) (started []) = Some s" "loop s = Blocked" "client s = Some w" "closer w = C_Idle" "disconnects_told w = 0"
      "heart w = H_Clearing" and s': "erun (lstep default_config) (map Client ?es) s = Some s'" "loop s' \<noteq> Blocked"
    by (simp add: run_simps)
  show ?thesis
    using broken_connection_noticed [OF run_default [OF s(1)] s(2-5) _ s'(1)] s(2,6) s' run_default [OF s(1)] by blast
qed


end
