(* ===== verification/Cli_Options.thy ===== *)
theory Cli_Options
  imports Double_Parse Config_Load
begin

text \<open>
  The command line of \<^verbatim>\<open>src/main.cpp\<close>: \<^verbatim>\<open>parse_u64_with_min\<close>, \<^verbatim>\<open>parse_cli_options\<close> and the
  decisions of \<^verbatim>\<open>main\<close> up to the call of the selected mode. \<open>Inl\<close> is the error text.
  \<^verbatim>\<open>std::stoull\<close> is modelled for base ten on texts without white space, which its caller
  rejects first.
\<close>

section \<open>Numbers\<close>

definition is_space :: "char \<Rightarrow> bool" where
  "is_space c \<longleftrightarrow> of_char c = (32::nat) \<or> 9 \<le> (of_char c :: nat) \<and> (of_char c :: nat) \<le> 13"

abbreviation u64_max :: nat where "u64_max \<equiv> 18446744073709551615"

text \<open>The value and the unconverted rest; both exceptions of \<^verbatim>\<open>std::stoull\<close> carry its name. A minus
  sign never reaches it.\<close>

definition stoull :: "string \<Rightarrow> string + nat \<times> string" where
  "stoull s =
     (let d = (if s \<noteq> [] \<and> hd s = CHR ''+'' then tl s else s); ds = takeWhile is_digit d
      in if ds = [] then Inl ''stoull''
         else if u64_max < digits_val ds then Inl ''stoull''
         else Inr (digits_val ds, dropWhile is_digit d))"

definition parse_u64_with_min :: "string \<Rightarrow> nat \<Rightarrow> string + nat" where
  "parse_u64_with_min value min_value =
     (if value = [] then Inl ''value must not be empty''
      else if hd value = CHR ''-'' then Inl ''negative value is not allowed''
      else if list_ex is_space value then Inl ''whitespace is not allowed''
      else (case stoull value of
          Inl e \<Rightarrow> Inl e
        | Inr (out, rest) \<Rightarrow>
            if rest \<noteq> [] then Inl (''trailing characters in integer: '' @ value)
            else if out < min_value then Inl (''value must be >= '' @ show_nat min_value)
            else Inr out))"

section \<open>Options\<close>

datatype app_mode = Live_Mode | Replay_Mode | Bench_Pipeline

record cli_options =
  cli_mode :: app_mode
  bench_messages :: nat
  bench_gap_us :: nat
  bench_gap_specified :: bool
  bench_write :: bool
  cli_pin_cpu :: int
  show_help :: bool

definition default_cli :: cli_options where
  "default_cli = \<lparr>cli_mode = Live_Mode, bench_messages = 100000, bench_gap_us = 0, bench_gap_specified = False,
     bench_write = False, cli_pin_cpu = - 1, show_help = False\<rparr>"

fun mode_name :: "app_mode \<Rightarrow> string" where
  "mode_name Live_Mode = ''live''"
| "mode_name Replay_Mode = ''replay''"
| "mode_name Bench_Pipeline = ''bench-pipeline''"

definition select_mode :: "app_mode \<Rightarrow> string \<Rightarrow> cli_options \<Rightarrow> string + cli_options" where
  "select_mode mode flag o1 =
     (if cli_mode o1 \<noteq> Live_Mode
      then Inl (''only one mode flag can be used; duplicate/conflicting flag: '' @ flag)
      else Inr (o1\<lparr>cli_mode := mode\<rparr>))"

definition set_gap :: "string \<Rightarrow> cli_options \<Rightarrow> string + cli_options" where
  "set_gap value o1 = (case parse_u64_with_min value 0 of
       Inl e \<Rightarrow> Inl (''invalid --bench-gap-us: '' @ e)
     | Inr n \<Rightarrow> if i64_max < int n then Inl ''--bench-gap-us exceeds supported range''
         else Inr (o1\<lparr>bench_gap_specified := True, bench_gap_us := n\<rparr>))"

abbreviation int_max :: nat where "int_max \<equiv> 2147483647"

definition set_pin :: "string \<Rightarrow> cli_options \<Rightarrow> string + cli_options" where
  "set_pin value o1 = (case parse_u64_with_min value 0 of
       Inl e \<Rightarrow> Inl (''invalid --pin-cpu '' @ [CHR 0x27] @ value @ [CHR 0x27] @ '': '' @ e)
     | Inr n \<Rightarrow> if int_max < n then Inl ''--pin-cpu exceeds int range''
         else Inr (o1\<lparr>cli_pin_cpu := int n\<rparr>))"

text \<open>The loop over the arguments behind the program name.\<close>

fun parse_cli_options :: "string list \<Rightarrow> cli_options \<Rightarrow> string + cli_options" where
  "parse_cli_options [] o1 = Inr o1"
| "parse_cli_options (arg # rest) o1 =
     (if arg = ''--help'' \<or> arg = ''-h'' then Inr (o1\<lparr>show_help := True\<rparr>)
      else if arg = ''--replay'' then
        (case select_mode Replay_Mode arg o1 of Inl e \<Rightarrow> Inl e | Inr o2 \<Rightarrow> parse_cli_options rest o2)
      else if arg = ''--bench-pipeline'' then
        (case select_mode Bench_Pipeline arg o1 of Inl e \<Rightarrow> Inl e
         | Inr o2 \<Rightarrow>
             (case rest of
                [] \<Rightarrow> Inr o2
              | value # rest2 \<Rightarrow>
                  if value \<noteq> [] \<and> hd value = CHR ''-'' then parse_cli_options rest o2
                  else (case parse_u64_with_min value 1 of
                      Inl e \<Rightarrow> Inl (''invalid --bench-pipeline messages: '' @ e)
                    | Inr n \<Rightarrow> parse_cli_options rest2 (o2\<lparr>bench_messages := n\<rparr>))))
      else if arg = ''--bench-write'' then parse_cli_options rest (o1\<lparr>bench_write := True\<rparr>)
      else if arg = ''--bench-gap-us'' then
        (case rest of [] \<Rightarrow> Inl ''--bench-gap-us requires a non-negative integer''
         | value # rest2 \<Rightarrow> (case set_gap value o1 of Inl e \<Rightarrow> Inl e | Inr o2 \<Rightarrow> parse_cli_options rest2 o2))
      else if arg = ''--pin-cpu'' then
        (case rest of [] \<Rightarrow> Inl ''--pin-cpu requires a non-negative integer''
         | value # rest2 \<Rightarrow> (case set_pin value o1 of Inl e \<Rightarrow> Inl e | Inr o2 \<Rightarrow> parse_cli_options rest2 o2))
      else Inl (''unknown argument: '' @ arg))"

section \<open>The program\<close>

text \<open>What \<^verbatim>\<open>main\<close> does after the command line and the configuration: exit with a code, or run a mode.\<close>

datatype main_action = Exit_Code int | Run_Live config | Run_Replay config | Run_Bench config nat bool nat

definition app_main :: "'j json_api \<Rightarrow> (string \<Rightarrow> string option) \<Rightarrow> string option \<Rightarrow> string list \<Rightarrow> main_action" where
  "app_main api env contents args = (case parse_cli_options args default_cli of
       Inl e \<Rightarrow> Exit_Code 1
     | Inr cli \<Rightarrow>
         if show_help cli then Exit_Code 0
         else if bench_write cli \<and> cli_mode cli \<noteq> Bench_Pipeline then Exit_Code 1
         else if bench_gap_specified cli \<and> cli_mode cli \<noteq> Bench_Pipeline then Exit_Code 1
         else (case config_load api env contents default_config of
             Inl e \<Rightarrow> Exit_Code 1
           | Inr c0 \<Rightarrow>
               (let cfg = c0\<lparr>pin_cpu := cli_pin_cpu cli\<rparr>
                in case cli_mode cli of
                     Bench_Pipeline \<Rightarrow> Run_Bench cfg (bench_messages cli) (bench_write cli) (bench_gap_us cli)
                   | Replay_Mode \<Rightarrow> Run_Replay cfg
                   | Live_Mode \<Rightarrow> Run_Live cfg)))"

section \<open>Lemmas\<close>

lemma parse_u64_bounds: "parse_u64_with_min v k = Inr n \<Longrightarrow> k \<le> n \<and> n \<le> u64_max"
  by (auto simp: parse_u64_with_min_def stoull_def Let_def split: if_splits sum.splits)

lemma digits_val_snoc: "digits_val (ds @ [c]) = 10 * digits_val ds + digit_val c"
  by (simp add: digits_val_def)

lemma show_nat_digits: "list_all is_digit (show_nat n) \<and> show_nat n \<noteq> [] \<and> digits_val (show_nat n) = n"
proof (induction n rule: show_nat.induct)
  case (1 n)
  show ?case
  proof (cases "n < 10")
    case True
    then have "show_nat n = [digit_char n]" by (simp add: show_nat.simps [of n])
    then show ?thesis using True by (simp add: digits_val_def)
  next
    case False
    then have "show_nat n = show_nat (n div 10) @ [digit_char (n mod 10)]" by (simp add: show_nat.simps [of n])
    then show ?thesis using 1 [OF False] by (simp add: digits_val_snoc)
  qed
qed

lemma digit_not_space: "is_digit c \<Longrightarrow> \<not> is_space c \<and> c \<noteq> CHR ''-'' \<and> c \<noteq> CHR ''+''"
  by (auto simp: is_digit_def is_space_def)

lemma parse_u64_show:
  assumes "n \<le> u64_max"
  shows "parse_u64_with_min (show_nat n) k = (if k \<le> n then Inr n else Inl (''value must be >= '' @ show_nat k))"
proof -
  let ?s = "show_nat n"
  have d: "list_all is_digit ?s" "?s \<noteq> []" "digits_val ?s = n" using show_nat_digits by blast+
  then have h: "is_digit (hd ?s)" by (cases ?s) auto
  have space: "\<not> list_ex is_space ?s" using d(1) digit_not_space by (auto simp: list_ex_iff list_all_iff)
  have tw: "takeWhile is_digit ?s = ?s" "dropWhile is_digit ?s = []"
    using d(1) by (simp_all add: takeWhile_eq_all_conv list_all_iff)
  have "stoull ?s = Inr (n, [])"
    using d h digit_not_space [OF h] assms
    by (simp add: stoull_def Let_def tw del: dropWhile_eq_Nil_conv takeWhile_eq_all_conv)
  then show ?thesis using d(2) space digit_not_space [OF h] by (simp add: parse_u64_with_min_def)
qed

definition cli_valid :: "cli_options \<Rightarrow> bool" where
  "cli_valid o1 \<longleftrightarrow> 1 \<le> bench_messages o1 \<and> bench_messages o1 \<le> u64_max \<and> int (bench_gap_us o1) \<le> i64_max
     \<and> (\<not> bench_gap_specified o1 \<longrightarrow> bench_gap_us o1 = 0) \<and> - 1 \<le> cli_pin_cpu o1 \<and> cli_pin_cpu o1 \<le> int int_max"

lemma select_mode_valid: "select_mode md f o1 = Inr o2 \<Longrightarrow> cli_valid o1 \<Longrightarrow> cli_valid o2"
  by (auto simp: select_mode_def cli_valid_def split: if_splits)

lemma set_gap_valid: "set_gap v o1 = Inr o2 \<Longrightarrow> cli_valid o1 \<Longrightarrow> cli_valid o2"
  by (auto simp: set_gap_def cli_valid_def split: if_splits sum.splits)

lemma set_pin_valid: "set_pin v o1 = Inr o2 \<Longrightarrow> cli_valid o1 \<Longrightarrow> cli_valid o2"
  by (auto simp: set_pin_def cli_valid_def split: if_splits sum.splits)

lemma messages_valid: "parse_u64_with_min v 1 = Inr n \<Longrightarrow> cli_valid o1 \<Longrightarrow> cli_valid (o1\<lparr>bench_messages := n\<rparr>)"
  using parse_u64_bounds [of v 1 n] by (simp add: cli_valid_def)

text \<open>One option at a time: what was parsed, and from where the parser goes on.\<close>

lemma parse_bench_step:
  assumes "parse_cli_options (''--bench-pipeline'' # rest) o1 = Inr o2"
  obtains o3 rest2 where "parse_cli_options rest2 o3 = Inr o2" and "length rest2 \<le> length rest" and "cli_valid o1 \<longrightarrow> cli_valid o3"
proof -
  obtain o3 where o3: "select_mode Bench_Pipeline ''--bench-pipeline'' o1 = Inr o3" using assms by (simp split: sum.splits)
  have v: "cli_valid o1 \<longrightarrow> cli_valid o3" using select_mode_valid [OF o3] by simp
  show thesis
  proof (cases rest)
    case Nil
    then show thesis using that [of "[]" o3] assms o3 v by simp
  next
    case (Cons arg2 rest2)
    show thesis
    proof (cases "arg2 \<noteq> [] \<and> hd arg2 = CHR ''-''")
      case True
      then have "parse_cli_options rest o3 = Inr o2" using assms o3 Cons by simp
      then show thesis using that [of rest o3] v by simp
    next
      case False
      then obtain n where n: "parse_u64_with_min arg2 1 = Inr n" "parse_cli_options rest2 (o3\<lparr>bench_messages := n\<rparr>) = Inr o2"
        using assms o3 Cons by (auto split: sum.splits if_splits)
      from that [OF n(2)] show thesis using v messages_valid [OF n(1)] Cons by simp
    qed
  qed
qed

lemma parse_cli_step:
  assumes "parse_cli_options (arg # rest) o1 = Inr o2"
  obtains (ends) "o2 = o1\<lparr>show_help := True\<rparr>"
    | (goes_on) o3 rest2 where "parse_cli_options rest2 o3 = Inr o2" and "length rest2 \<le> length rest"
      and "cli_valid o1 \<longrightarrow> cli_valid o3"
proof -
  consider (is_help) "arg = ''--help'' \<or> arg = ''-h''" | (replay) "arg = ''--replay''" | (bench) "arg = ''--bench-pipeline''"
    | (is_write) "arg = ''--bench-write''" | (gap) "arg = ''--bench-gap-us''" | (pin) "arg = ''--pin-cpu''"
    | (bad) "\<not> (arg = ''--help'' \<or> arg = ''-h'')" "arg \<noteq> ''--replay''" "arg \<noteq> ''--bench-pipeline''" "arg \<noteq> ''--bench-write''"
        "arg \<noteq> ''--bench-gap-us''" "arg \<noteq> ''--pin-cpu''"
    by satx
  then show thesis
  proof cases
    case is_help
    then show thesis using assms ends by auto
  next
    case replay
    then obtain o3 where r: "select_mode Replay_Mode arg o1 = Inr o3" "parse_cli_options rest o3 = Inr o2"
      using assms by (simp split: sum.splits)
    from goes_on [OF r(2)] show thesis using select_mode_valid [OF r(1)] by simp
  next
    case bench
    show thesis by (rule parse_bench_step [OF assms [unfolded bench]]) (rule goes_on)
  next
    case is_write
    then show thesis using assms goes_on [of rest "o1\<lparr>bench_write := True\<rparr>"] by (simp add: cli_valid_def)
  next
    case gap
    then obtain arg2 rest2 o3 where r: "rest = arg2 # rest2" "set_gap arg2 o1 = Inr o3" "parse_cli_options rest2 o3 = Inr o2"
      using assms by (simp split: sum.splits list.splits)
    from goes_on [OF r(3)] show thesis using set_gap_valid [OF r(2)] r(1) by simp
  next
    case pin
    then obtain arg2 rest2 o3 where r: "rest = arg2 # rest2" "set_pin arg2 o1 = Inr o3" "parse_cli_options rest2 o3 = Inr o2"
      using assms by (simp split: sum.splits list.splits)
    from goes_on [OF r(3)] show thesis using set_pin_valid [OF r(2)] r(1) by simp
  next
    case bad
    then show thesis using assms by simp
  qed
qed

lemma parse_cli_valid: "parse_cli_options args o1 = Inr o2 \<Longrightarrow> cli_valid o1 \<Longrightarrow> cli_valid o2"
proof (induction "length args" arbitrary: args o1 rule: less_induct)
  case less
  show ?case
  proof (cases args)
    case (Cons arg rest)
    from less.prems(1) [unfolded Cons] show ?thesis
    proof (cases rule: parse_cli_step)
      case ends
      then show ?thesis using less.prems(2) by (simp add: cli_valid_def)
    next
      case (goes_on o3 rest2)
      then show ?thesis using less.hyps [of rest2 o3] less.prems(2) Cons by simp
    qed
  qed (use less in simp)
qed

lemma default_cli_valid: "cli_valid default_cli"
  by (simp add: cli_valid_def default_cli_def)

section \<open>Properties\<close>

lemma app_main_config:
  assumes "app_main api env contents args \<noteq> Exit_Code 0" and "app_main api env contents args \<noteq> Exit_Code 1"
  obtains cli c0 where "parse_cli_options args default_cli = Inr cli" and "config_load api env contents default_config = Inr c0"
    and "cli_mode cli = Bench_Pipeline \<or> \<not> bench_write cli \<and> \<not> bench_gap_specified cli"
    and "app_main api env contents args = (let cfg = c0\<lparr>pin_cpu := cli_pin_cpu cli\<rparr>
                in case cli_mode cli of
                     Bench_Pipeline \<Rightarrow> Run_Bench cfg (bench_messages cli) (bench_write cli) (bench_gap_us cli)
                   | Replay_Mode \<Rightarrow> Run_Replay cfg
                   | Live_Mode \<Rightarrow> Run_Live cfg)"
proof -
  obtain cli where cli: "parse_cli_options args default_cli = Inr cli"
    using assms by (cases "parse_cli_options args default_cli") (simp_all add: app_main_def)
  have f: "\<not> show_help cli" "\<not> (bench_write cli \<and> cli_mode cli \<noteq> Bench_Pipeline)"
    "\<not> (bench_gap_specified cli \<and> cli_mode cli \<noteq> Bench_Pipeline)"
    using assms by (auto simp: app_main_def cli split: if_splits)
  obtain c0 where c0: "config_load api env contents default_config = Inr c0"
    using assms f by (cases "config_load api env contents default_config") (simp_all add: app_main_def cli)
  from that [OF cli c0] f show thesis by (auto simp: app_main_def cli c0)
qed

text \<open>
  The arguments a mode runs with. Whatever the command line, the environment and the file, a mode is
  started only with a valid configuration; the CPU comes from the command line alone and is
  \<open>-1\<close> or a non-negative \<open>int\<close>; a benchmark has at least one message and a pause that fits the
  clock's type.
\<close>

lemma app_main_valid:
  assumes "app_main api env contents args = act"
  shows "case act of
      Run_Live cfg \<Rightarrow> config_valid cfg \<and> - 1 \<le> pin_cpu cfg \<and> pin_cpu cfg \<le> int int_max
    | Run_Replay cfg \<Rightarrow> config_valid cfg \<and> - 1 \<le> pin_cpu cfg \<and> pin_cpu cfg \<le> int int_max
    | Run_Bench cfg n wr gap \<Rightarrow> config_valid cfg \<and> - 1 \<le> pin_cpu cfg \<and> pin_cpu cfg \<le> int int_max
        \<and> 1 \<le> n \<and> n \<le> u64_max \<and> int gap \<le> i64_max
    | Exit_Code k \<Rightarrow> k = 0 \<or> k = 1"
proof (cases "act = Exit_Code 0 \<or> act = Exit_Code 1")
  case False
  then obtain cli c0 where c: "parse_cli_options args default_cli = Inr cli"
    "config_load api env contents default_config = Inr c0"
    "act = (let cfg = c0\<lparr>pin_cpu := cli_pin_cpu cli\<rparr>
                in case cli_mode cli of
                     Bench_Pipeline \<Rightarrow> Run_Bench cfg (bench_messages cli) (bench_write cli) (bench_gap_us cli)
                   | Replay_Mode \<Rightarrow> Run_Replay cfg
                   | Live_Mode \<Rightarrow> Run_Live cfg)"
    using app_main_config [of api env contents args] assms by metis
  have "cli_valid cli" using parse_cli_valid [OF c(1) default_cli_valid] .
  moreover have "config_valid (c0\<lparr>pin_cpu := cli_pin_cpu cli\<rparr>)"
    using config_load_keeps_valid [OF c(2) default_config_valid] by (simp add: config_valid_def)
  ultimately show ?thesis using c(3) by (cases "cli_mode cli") (simp_all add: cli_valid_def Let_def)
qed auto

text \<open>A decimal number on the command line is read back, and the benchmark flags reach the mode.\<close>

lemma app_main_bench_example:
  "\<exists>cfg. app_main (jvalue_api (\<lambda>_. None)) (\<lambda>_. None) None [''--bench-pipeline'', show_nat 250, ''--pin-cpu'', show_nat 3]
      = Run_Bench cfg 250 False 0 \<and> cfg_symbols cfg = [''btcusdt'', ''ethusdt'']"
proof -
  have p: "parse_u64_with_min (show_nat 250) 1 = Inr 250" "parse_u64_with_min (show_nat 3) 0 = Inr 3"
    by (simp_all add: parse_u64_show)
  have h: "hd (show_nat 250) \<noteq> CHR ''-''" by code_simp
  have "set_pin (show_nat 3) o1 = Inr (o1\<lparr>cli_pin_cpu := 3\<rparr>)" for o1
    unfolding set_pin_def p by simp
  then have "app_main (jvalue_api (\<lambda>_. None)) (\<lambda>_. None) None [''--bench-pipeline'', show_nat 250, ''--pin-cpu'', show_nat 3]
      = Run_Bench (default_config\<lparr>pin_cpu := 3\<rparr>) 250 False 0"
    using h by (simp add: app_main_def p select_mode_def default_cli_def config_load_def del: One_nat_def split del: if_split)
  then show ?thesis by (simp add: default_config_def)
qed

end
