(* ===== verification/Callback_Wrapping.thy ===== *)
theory Callback_Wrapping
  imports Message_Flow
begin

text \<open>
  The message path under two sets of callbacks. The clients of \<^verbatim>\<open>ConnectionManager\<close> (the
  library facade, the live mode and the benchmark) register callbacks that do work of their own
  around what the user wants. The locale \<open>callback_simulation\<close> states when one set of callbacks
  does, up to a relation \<open>R\<close> of the user states, what another set does; its lemmas show that
  the whole message path then does the same: after every message the gates and the update ids
  agree, the user states are related, and so are the metrics up to the relation \<open>E\<close>, which is
  equality, or equality of the message counters where a client counts more.
\<close>

section \<open>What invoking a callback does\<close>

definition invoke :: "('r, 'u) callback \<Rightarrow> 'r \<Rightarrow> metrics \<Rightarrow> 'u \<Rightarrow> metrics \<times> 'u" where
  "invoke cb p m u = (case cb of None \<Rightarrow> (m, u)
     | Some f \<Rightarrow> (case f p m u of (m', u', threw) \<Rightarrow>
         (if threw then m'\<lparr>callback_errors := callback_errors m' + 1\<rparr> else m', u')))"

lemma invoke_Some: "invoke (Some f) p m u = (case f p m u of (m', u', threw) \<Rightarrow>
     (if threw then m'\<lparr>callback_errors := callback_errors m' + 1\<rparr> else m', u'))"
  by (simp add: invoke_def)

lemma safe_invoke_invoke:
  "safe_invoke cb p c = (case invoke cb p (conn_metrics c) (user c) of (m, u) \<Rightarrow> c\<lparr>user := u, conn_metrics := m\<rparr>)"
  by (simp add: safe_invoke_def invoke_def split: option.split prod.split)

lemma rel_option_bindI:
  "rel_option R x y \<Longrightarrow> (\<And>a b. R a b \<Longrightarrow> rel_option S (f a) (g b)) \<Longrightarrow> rel_option S (x \<bind> f) (y \<bind> g)"
  by (cases x; cases y) simp_all

text \<open>What a message does to the user's state: nothing, or one call with a stamped record.\<close>

lemma record_exchange_latency_user: "record_exchange_latency t c = Some c' \<Longrightarrow> user c' = user c"
  by (erule record_exchange_latency_counts) (hypsubst, simp)

lemma deliver_trade_user:
  assumes "deliver_trade cbs clk t c = Some c'"
  shows "\<exists>m. user c' = snd (invoke (on_trade cbs) (stamp_recv t (wall_us clk)) m (user c))"
  using assms by (auto simp: deliver_trade_def Let_def on_metrics_Some safe_invoke_invoke
      dest!: record_exchange_latency_user split: bind_splits prod.splits) (metis snd_conv)+

lemma deliver_orderbook_user:
  assumes "deliver_orderbook cbs clk b c = Some c'"
  shows "\<exists>m. user c' = snd (invoke (on_orderbook cbs) (ob_stamp_recv b (wall_us clk)) m (user c))"
  using assms by (auto simp: deliver_orderbook_def Let_def on_metrics_Some safe_invoke_invoke
      split: bind_splits prod.splits) (metis snd_conv)+

lemma parse_segments_user: "record_parse_segments clk c = Some c' \<Longrightarrow> user c' = user c"
  by (erule record_parse_segments_counts) (hypsubst, simp)

lemma handle_trade_user:
  assumes "handle_trade api cbs clk n dv c = Some c'"
  shows "user c' = user c \<or> (\<exists>t m. trade_wf t \<and> crc32 t = 0 \<and> recv_ts_us t = wall_us clk
    \<and> user c' = snd (invoke (on_trade cbs) t m (user c)))"
proof -
  obtain c1 where c1: "record_parse_segments clk c = Some c1" "user c1 = user c"
    using assms parse_segments_user by (auto simp: handle_trade_def split: bind_splits)
  show ?thesis
  proof (cases "parse_trade api dv")
    case None
    then show ?thesis using assms c1 by (auto simp: handle_trade_def count_parse_error_def)
  next
    case (Some t)
    then obtain g seq where g: "(case action seq of
            Accept \<Rightarrow> deliver_trade cbs clk t (c1\<lparr>trade_seq_gates := (trade_seq_gates c1)(n \<mapsto> g)\<rparr>)
          | Duplicate \<Rightarrow> Some (with_metrics (\<lambda>m. m\<lparr>duplicate_count := duplicate_count m + 1\<rparr>) (c1\<lparr>trade_seq_gates := (trade_seq_gates c1)(n \<mapsto> g)\<rparr>))
          | Gap \<Rightarrow> do { missing \<leftarrow> missing_count seq; Some (with_metrics (count_gap missing) (c1\<lparr>trade_seq_gates := (trade_seq_gates c1)(n \<mapsto> g)\<rparr>)) }
          | Hold \<Rightarrow> Some (c1\<lparr>trade_seq_gates := (trade_seq_gates c1)(n \<mapsto> g)\<rparr>)) = Some c'"
      using assms c1(1) by (auto simp: handle_trade_def Let_def split: bind_splits)
    have "trade_wf (stamp_recv t (wall_us clk)) \<and> crc32 (stamp_recv t (wall_us clk)) = 0
      \<and> recv_ts_us (stamp_recv t (wall_us clk)) = wall_us clk"
      using parse_trade_wf [OF Some] by (simp add: stamp_recv_def trade_wf_def)
    moreover have "user c' = user c \<or> (\<exists>c2. user c2 = user c \<and> deliver_trade cbs clk t c2 = Some c')"
    proof (cases "action seq = Accept")
      case True
      then show ?thesis using g c1(2) by (intro disjI2 exI [of _ "c1\<lparr>trade_seq_gates := (trade_seq_gates c1)(n \<mapsto> g)\<rparr>"]) simp
    next
      case False
      then show ?thesis using g c1(2) by (cases "action seq") (auto split: bind_splits)
    qed
    ultimately show ?thesis using deliver_trade_user [of cbs clk t _ c'] by metis
  qed
qed

lemma handle_depth_user:
  assumes "handle_depth api cbs clk n dv c = Some c'"
  shows "user c' = user c \<or> (\<exists>b m. orderbook_wf b \<and> ob_crc32 b = 0 \<and> ob_recv_ts_us b = wall_us clk
    \<and> user c' = snd (invoke (on_orderbook cbs) b m (user c)))"
proof -
  obtain c1 where c1: "record_parse_segments clk c = Some c1" "user c1 = user c"
    using assms parse_segments_user by (auto simp: handle_depth_def split: bind_splits)
  show ?thesis
  proof (cases "parse_orderbook api dv n")
    case None
    then show ?thesis using assms c1 by (auto simp: handle_depth_def count_parse_error_def)
  next
    case (Some b)
    have "orderbook_wf (ob_stamp_recv b (wall_us clk)) \<and> ob_crc32 (ob_stamp_recv b (wall_us clk)) = 0
      \<and> ob_recv_ts_us (ob_stamp_recv b (wall_us clk)) = wall_us clk"
      using parse_orderbook_wf [OF Some] by (simp add: ob_stamp_recv_def orderbook_wf_def)
    moreover have "user c' = user c \<or> (\<exists>c2. user c2 = user c \<and> deliver_orderbook cbs clk b c2 = Some c')"
      using assms c1 Some by (auto simp: handle_depth_def Let_def split: if_splits)
    ultimately show ?thesis using deliver_orderbook_user [of cbs clk b _ c'] by metis
  qed
qed

lemma message_user:
  assumes "on_raw_message api cfg cbs clk msg c = Some c'"
  obtains (silent) "user c' = user c"
    | (trade) t m where "trade_wf t" and "crc32 t = 0" and "recv_ts_us t = wall_us clk"
        and "user c' = snd (invoke (on_trade cbs) t m (user c))"
    | (book) b m where "orderbook_wf b" and "ob_crc32 b = 0" and "ob_recv_ts_us b = wall_us clk"
        and "user c' = snd (invoke (on_orderbook cbs) b m (user c))"
proof -
  let ?c = "with_metrics (\<lambda>m. m\<lparr>msgs_recv := msgs_recv m + 1\<rparr>) (c\<lparr>pin_attempted := True\<rparr>)"
  obtain c1 where d: "dispatch api cfg cbs clk msg ?c = Some c1" "user c' = user c1"
    using assms by (auto simp: on_raw_message_def on_metrics_Some split: bind_splits)
  have u: "user ?c = user c" by simp
  from d(1) consider "user c1 = user c" | n dv where "handle_trade api cbs clk n dv ?c = Some c1"
    | n dv where "handle_depth api cbs clk n dv ?c = Some c1"
    by (auto simp: dispatch_def count_parse_error_def split: route.splits if_splits)
  then show thesis
  proof cases
    case 1
    then show thesis using silent d(2) by simp
  next
    case 2
    from handle_trade_user [OF this] show thesis using silent trade d(2) unfolding u by metis
  next
    case 3
    from handle_depth_user [OF this] show thesis using silent book d(2) unfolding u by metis
  qed
qed

section \<open>Simulation\<close>

text \<open>Updates of the metrics under which the message counters depend on the message counters only.\<close>

definition counts_alone :: "(metrics \<Rightarrow> metrics) \<Rightarrow> bool" where
  "counts_alone f \<longleftrightarrow> (\<forall>m m'. message_counts m = message_counts m' \<longrightarrow> message_counts (f m) = message_counts (f m'))"

lemma counts_kept: "(\<And>m. message_counts (f m) = message_counts m) \<Longrightarrow> counts_alone f"
  by (simp add: counts_alone_def)

lemma counts_alone_message [simp]:
  "counts_alone (\<lambda>m. m\<lparr>msgs_recv := msgs_recv m + 1\<rparr>)" "counts_alone (\<lambda>m. m\<lparr>parse_errors := parse_errors m + 1\<rparr>)"
  "counts_alone (\<lambda>m. m\<lparr>trades_parsed := trades_parsed m + 1\<rparr>)"
  "counts_alone (\<lambda>m. m\<lparr>orderbooks_parsed := orderbooks_parsed m + 1\<rparr>)"
  "counts_alone (\<lambda>m. m\<lparr>orderbook_id_rollback_count := orderbook_id_rollback_count m + 1\<rparr>)"
  "counts_alone (\<lambda>m. m\<lparr>duplicate_count := duplicate_count m + 1\<rparr>)" "counts_alone (count_gap k)"
  by (simp_all add: counts_alone_def message_counts_def count_gap_def)

lemma counts_alone_latency [simp]:
  "counts_alone (segment_sample json_parse_latency_update us)" "counts_alone (segment_sample biz_parse_latency_update us)"
  "counts_alone (segment_sample recv_to_app_latency_update us)" "counts_alone (segment_sample callback_latency_update us)"
  "counts_alone (pipeline_sample us)"
  "counts_alone (\<lambda>m. case lat of Some v \<Rightarrow> m\<lparr>trade_latency := hist_record (trade_latency m) v\<rparr>
     | None \<Rightarrow> m\<lparr>ext_latency_negative_drop := ext_latency_negative_drop m + 1\<rparr>)"
  by (simp_all add: counts_kept segment_sample_def split: option.split)

locale callback_simulation =
  fixes cbs :: "'u callbacks" and cbs' :: "'v callbacks" and R :: "'u \<Rightarrow> 'v \<Rightarrow> bool"
    and E :: "metrics \<Rightarrow> metrics \<Rightarrow> bool"
  assumes E_upd: "counts_alone f \<Longrightarrow> E m m' \<Longrightarrow> E (f m) (f m')"
    and trade_sim: "E m m' \<Longrightarrow> R u v \<Longrightarrow> rel_prod E R (invoke (on_trade cbs) t m u) (invoke (on_trade cbs') t m' v)"
    and book_sim: "E m m' \<Longrightarrow> R u v \<Longrightarrow> rel_prod E R (invoke (on_orderbook cbs) b m u) (invoke (on_orderbook cbs') b m' v)"
begin

definition sim :: "'u conn \<Rightarrow> 'v conn \<Rightarrow> bool" where
  "sim c d \<longleftrightarrow> pin_attempted d = pin_attempted c \<and> trade_seq_gates d = trade_seq_gates c
     \<and> last_orderbook_update_id d = last_orderbook_update_id c \<and> clock_calibrator d = clock_calibrator c
     \<and> E (conn_metrics c) (conn_metrics d) \<and> R (user c) (user d)"

lemma sim_metrics: "sim c d \<Longrightarrow> counts_alone f \<Longrightarrow> sim (with_metrics f c) (with_metrics f d)"
  by (simp add: sim_def E_upd)

lemma sim_parse_error: "sim c d \<Longrightarrow> sim (count_parse_error c) (count_parse_error d)"
  unfolding count_parse_error_def by (rule sim_metrics) simp_all

lemmas E_counts = counts_alone_message(5-7) [THEN E_upd]

lemma sim_gates: "sim c d \<Longrightarrow> sim (c\<lparr>trade_seq_gates := g\<rparr>) (d\<lparr>trade_seq_gates := g\<rparr>)"
  and sim_ids: "sim c d \<Longrightarrow> sim (c\<lparr>last_orderbook_update_id := i\<rparr>) (d\<lparr>last_orderbook_update_id := i\<rparr>)"
  and sim_pin: "sim c d \<Longrightarrow> sim (c\<lparr>pin_attempted := p\<rparr>) (d\<lparr>pin_attempted := p\<rparr>)"
  by (simp_all add: sim_def)

lemma sim_of: "sim c d \<Longrightarrow> gate_of d n = gate_of c n" "sim c d \<Longrightarrow> last_update_of d n = last_update_of c n"
  by (simp_all add: sim_def gate_of_def last_update_of_def)

lemma sim_segment: "sim c d \<Longrightarrow> (\<And>us. counts_alone (segment_sample upd us)) \<Longrightarrow> rel_option sim (on_metrics (record_segment_us upd a b) c) (on_metrics (record_segment_us upd a b) d)"
  by (simp add: on_metrics_def record_segment_us_def sim_def E_upd split: option.split)

lemma sim_pipeline: "sim c d \<Longrightarrow> rel_option sim (on_metrics (record_pipeline a b) c) (on_metrics (record_pipeline a b) d)"
  by (simp add: on_metrics_def record_pipeline_def sim_def E_upd split: option.split)

lemma sim_parse_segments: "sim c d \<Longrightarrow> rel_option sim (record_parse_segments clk c) (record_parse_segments clk d)"
  unfolding record_parse_segments_def by (rule rel_option_bindI [OF sim_segment sim_segment]) simp_all

lemma sim_exchange_latency: "sim c d \<Longrightarrow> rel_option sim (record_exchange_latency t c) (record_exchange_latency t d)"
proof (cases "sint (exchange_ts_us t) > 0")
  case True
  assume s: "sim c d"
  then have "clock_calibrator d = clock_calibrator c" by (simp add: sim_def)
  then show ?thesis unfolding record_exchange_latency_def if_P [OF True]
    by (auto intro!: rel_option_bindI [of "(=)"] sim_metrics [OF s] option.rel_refl simp del: option.rel_sel)
qed (simp add: record_exchange_latency_def)

lemma sim_trade: "sim c d \<Longrightarrow> sim (safe_invoke (on_trade cbs) t c) (safe_invoke (on_trade cbs') t d)"
  using trade_sim [of "conn_metrics c" "conn_metrics d" "user c" "user d" t]
  by (auto simp: sim_def safe_invoke_invoke split: prod.splits)

lemma sim_book: "sim c d \<Longrightarrow> sim (safe_invoke (on_orderbook cbs) b c) (safe_invoke (on_orderbook cbs') b d)"
  using book_sim [of "conn_metrics c" "conn_metrics d" "user c" "user d" b]
  by (auto simp: sim_def safe_invoke_invoke split: prod.splits)

lemma sim_deliver_trade: "sim c d \<Longrightarrow> rel_option sim (deliver_trade cbs clk t c) (deliver_trade cbs' clk t d)"
  unfolding deliver_trade_def Let_def
  by (intro rel_option_bindI [OF sim_segment] rel_option_bindI [OF sim_exchange_latency] sim_segment sim_trade sim_metrics) simp_all

lemma sim_deliver_orderbook: "sim c d \<Longrightarrow> rel_option sim (deliver_orderbook cbs clk b c) (deliver_orderbook cbs' clk b d)"
  unfolding deliver_orderbook_def Let_def
  by (intro rel_option_bindI [OF sim_segment] sim_segment sim_book sim_metrics) simp_all

lemma sim_gate_upd:
  "sim c d \<Longrightarrow> sim (c\<lparr>trade_seq_gates := (trade_seq_gates c)(n \<mapsto> g)\<rparr>) (d\<lparr>trade_seq_gates := (trade_seq_gates d)(n \<mapsto> g)\<rparr>)"
  and sim_id_upd:
  "sim c d \<Longrightarrow> sim (c\<lparr>last_orderbook_update_id := (last_orderbook_update_id c)(n \<mapsto> i)\<rparr>)
     (d\<lparr>last_orderbook_update_id := (last_orderbook_update_id d)(n \<mapsto> i)\<rparr>)"
  by (simp_all add: sim_def)

lemma sim_handle_trade:
  assumes "sim c d"
  shows "rel_option sim (handle_trade api cbs clk n dv c) (handle_trade api cbs' clk n dv d)"
proof (cases "parse_trade api dv")
  case None
  show ?thesis unfolding handle_trade_def None option.case
    by (rule rel_option_bindI [OF sim_parse_segments [OF assms]]) (simp add: sim_parse_error)
next
  case (Some t)
  show ?thesis unfolding handle_trade_def Some option.case Let_def
    apply (rule rel_option_bindI [OF sim_parse_segments [OF assms]])
    subgoal for c1 d1
      unfolding sim_of(1) [of c1 d1]
      apply (rule rel_option_bindI [of "(=)"])
       apply (auto split: gate_action.split intro!: sim_deliver_trade sim_gate_upd rel_option_bindI [of "(=)"] option.rel_refl)
       apply (simp_all add: sim_def E_counts)
      done
    done
qed

lemma sim_handle_depth:
  assumes "sim c d"
  shows "rel_option sim (handle_depth api cbs clk n dv c) (handle_depth api cbs' clk n dv d)"
proof (cases "parse_orderbook api dv n")
  case None
  show ?thesis unfolding handle_depth_def None option.case
    by (rule rel_option_bindI [OF sim_parse_segments [OF assms]]) (simp add: sim_parse_error)
next
  case (Some b)
  show ?thesis unfolding handle_depth_def Some option.case Let_def
    apply (rule rel_option_bindI [OF sim_parse_segments [OF assms]])
    subgoal for c1 d1
      unfolding sim_of(2) [of c1 d1] by (auto intro!: sim_deliver_orderbook sim_id_upd) (simp add: sim_def E_counts)
    done
qed

lemma sim_message:
  assumes "sim c d"
  shows "rel_option sim (on_raw_message api cfg cbs clk msg c) (on_raw_message api cfg cbs' clk msg d)"
  unfolding on_raw_message_def
proof (rule rel_option_bindI [OF _ sim_pipeline])
  let ?c = "with_metrics (\<lambda>m. m\<lparr>msgs_recv := msgs_recv m + 1\<rparr>) (c\<lparr>pin_attempted := True\<rparr>)"
  let ?d = "with_metrics (\<lambda>m. m\<lparr>msgs_recv := msgs_recv m + 1\<rparr>) (d\<lparr>pin_attempted := True\<rparr>)"
  have s: "sim ?c ?d" by (rule sim_metrics [OF sim_pin [OF assms]]) simp
  show "rel_option sim (dispatch api cfg cbs clk msg ?c) (dispatch api cfg cbs' clk msg ?d)"
    using s by (auto simp: dispatch_def split: route.split
        intro!: sim_parse_error sim_handle_trade sim_handle_depth)
qed

lemma sim_messages: "sim c d \<Longrightarrow> rel_option sim (run_messages api cfg cbs ms c) (run_messages api cfg cbs' ms d)"
proof (induction ms arbitrary: c d)
  case (Cons m ms)
  then show ?case by (cases m) (auto intro!: rel_option_bindI [OF sim_message])
qed simp

lemma sim_new: "E new_metrics new_metrics \<Longrightarrow> R u v \<Longrightarrow> sim (new_conn u) (new_conn v)"
  by (simp add: sim_def new_conn_def)

end

end
