(* ===== verification/Market_Feed.thy ===== *)
theory Market_Feed
  imports Storage_Roundtrip Feed_Delivery Callback_Wrapping
begin

text \<open>
  The receiving side of the public library, \<^verbatim>\<open>MarketDataFeed\<close> of \<^verbatim>\<open>include/mds/feed.h\<close> and
  \<^verbatim>\<open>src/api/feed.cpp\<close>: a connection manager, a trade writer and an order book writer in one
  directory, and the user's callbacks. \<open>fstep\<close> interleaves the messages of the I/O thread, the
  two worker threads and the calls of \<open>start\<close> and \<open>stop\<close>. The connection manager appears with its
  message path; a message may arrive until \<open>cm_->stop()\<close> has returned (the races of that call are
  the subject of theory \<open>Connection_Lifecycle\<close>). Log output is not modelled.
\<close>

section \<open>Configuration\<close>

record feed_config =
  fc_symbols :: "string list"
  fc_ws_url :: string
  fc_proxy_url :: string
  fc_data_dir :: string
  fc_reconnect_interval_ms :: int
  fc_ping_interval_ms :: int
  fc_no_data_timeout_ms :: int

definition default_feed_config :: feed_config where
  "default_feed_config = \<lparr>fc_symbols = [''btcusdt'', ''ethusdt''], fc_ws_url = ''wss://stream.binance.com:9443/stream'',
     fc_proxy_url = [], fc_data_dir = ''./data'', fc_reconnect_interval_ms = 100, fc_ping_interval_ms = 1000,
     fc_no_data_timeout_ms = 3000\<rparr>"

definition internal_config :: "feed_config \<Rightarrow> config" where
  "internal_config fc = default_config\<lparr>cfg_symbols := fc_symbols fc, proxy_url := fc_proxy_url fc,
     cfg_data_dir := fc_data_dir fc, reconnect_interval_ms := fc_reconnect_interval_ms fc,
     ping_interval_ms := fc_ping_interval_ms fc, no_data_timeout_ms := fc_no_data_timeout_ms fc,
     data_sources := [\<lparr>ds_name = ''mds_feed_primary'', ds_ws_url = fc_ws_url fc, ds_priority = 0, ds_enabled = True\<rparr>]\<rparr>"

definition persist :: "feed_config \<Rightarrow> bool" where
  "persist fc \<longleftrightarrow> fc_data_dir fc \<noteq> []"

abbreviation kWriterQueueCapacity :: nat where "kWriterQueueCapacity \<equiv> 100000"

section \<open>State\<close>

text \<open>What the callbacks registered with the connection manager work on.\<close>

record 'u feed_env =
  env_trade_writer :: writer
  env_book_writer :: writer
  env_user :: 'u

text \<open>The user's callbacks, on a state of their own; the flag of the result says that one threw.\<close>

record 'u user_callbacks =
  user_on_trade :: "(trade \<Rightarrow> 'u \<Rightarrow> 'u \<times> bool) option"
  user_on_orderbook :: "(orderbook_snapshot \<Rightarrow> 'u \<Rightarrow> 'u \<times> bool) option"

text \<open>Where a call of \<open>stop\<close> is, if one is under way.\<close>

datatype feed_pc = FeedIdle | FeedServing | FeedStoppingCm | FeedClosingTrade | FeedClosingBook

record 'u market_feed =
  feed_cfg :: feed_config
  feed_started :: bool
  feed_pc :: feed_pc
  feed_cm :: "'u feed_env conn"

definition new_feed :: "feed_config \<Rightarrow> 'u \<Rightarrow> 'u market_feed" where
  "new_feed fc u = \<lparr>feed_cfg = fc, feed_started = False, feed_pc = FeedIdle,
     feed_cm = new_conn \<lparr>env_trade_writer = new_writer, env_book_writer = new_writer, env_user = u\<rparr>\<rparr>"

abbreviation feed_env :: "'u market_feed \<Rightarrow> 'u feed_env" where "feed_env f \<equiv> user (feed_cm f)"
abbreviation feed_trade_writer :: "'u market_feed \<Rightarrow> writer" where "feed_trade_writer f \<equiv> env_trade_writer (feed_env f)"
abbreviation feed_book_writer :: "'u market_feed \<Rightarrow> writer" where "feed_book_writer f \<equiv> env_book_writer (feed_env f)"

definition map_env :: "('u feed_env \<Rightarrow> 'u feed_env) \<Rightarrow> 'u market_feed \<Rightarrow> 'u market_feed" where
  "map_env g f = f\<lparr>feed_cm := (feed_cm f)\<lparr>user := g (feed_env f)\<rparr>\<rparr>"

definition set_trade_writer :: "writer \<Rightarrow> 'u market_feed \<Rightarrow> 'u market_feed" where
  "set_trade_writer s = map_env (env_trade_writer_update (\<lambda>_. s))"

definition set_book_writer :: "writer \<Rightarrow> 'u market_feed \<Rightarrow> 'u market_feed" where
  "set_book_writer s = map_env (env_book_writer_update (\<lambda>_. s))"

section \<open>The registered callbacks\<close>

text \<open>A user callback runs inside \<^verbatim>\<open>try\<close>; an exception is counted and goes no further.\<close>

definition guarded :: "('r \<Rightarrow> 'u \<Rightarrow> 'u \<times> bool) option \<Rightarrow> 'r \<Rightarrow> metrics \<Rightarrow> 'u feed_env \<Rightarrow> metrics \<times> 'u feed_env \<times> bool" where
  "guarded cb p m e = (case cb of None \<Rightarrow> (m, e, False)
     | Some f \<Rightarrow> (case f p (env_user e) of (u, threw) \<Rightarrow>
         (if threw then m\<lparr>callback_errors := callback_errors m + 1\<rparr> else m, e\<lparr>env_user := u\<rparr>, False)))"

definition feed_on_trade :: "bool \<Rightarrow> 'u user_callbacks \<Rightarrow> trade \<Rightarrow> metrics \<Rightarrow> 'u feed_env \<Rightarrow> metrics \<times> 'u feed_env \<times> bool" where
  "feed_on_trade pst ucb t m e =
     (let e1 = (if pst then e\<lparr>env_trade_writer := fst (write_record (env_trade_writer e) (trade_bytes t))\<rparr> else e)
      in guarded (user_on_trade ucb) t m e1)"

definition feed_on_orderbook ::
  "bool \<Rightarrow> 'u user_callbacks \<Rightarrow> orderbook_snapshot \<Rightarrow> metrics \<Rightarrow> 'u feed_env \<Rightarrow> metrics \<times> 'u feed_env \<times> bool" where
  "feed_on_orderbook pst ucb b m e =
     (let e1 = (if pst then e\<lparr>env_book_writer := fst (write_record (env_book_writer e) (orderbook_bytes b))\<rparr> else e)
      in guarded (user_on_orderbook ucb) b m e1)"

definition feed_callbacks :: "bool \<Rightarrow> 'u user_callbacks \<Rightarrow> 'u feed_env callbacks" where
  "feed_callbacks pst ucb = \<lparr>on_trade = Some (feed_on_trade pst ucb), on_orderbook = Some (feed_on_orderbook pst ucb)\<rparr>"

section \<open>start, stop and the snapshot\<close>

text \<open>
  \<open>open\<close> reports a failure on \<^verbatim>\<open>cerr\<close> only. \<^const>\<open>None\<close> is the end of the program when a
  joinable thread is assigned to.
\<close>

definition open_or_report :: "string \<Rightarrow> world \<Rightarrow> writer \<Rightarrow> (world \<times> writer) option" where
  "open_or_report dir w s = (case open_writer w s dir kWriterQueueCapacity of
     (w', s', res) \<Rightarrow> if res = Terminated then None else Some (w', s'))"

text \<open>\<open>threads\<close> tells whether \<open>cm_->start\<close> could create its threads; otherwise it throws and \<open>start\<close> falls back to \<open>stop\<close>.\<close>

definition feed_start :: "bool \<Rightarrow> world \<Rightarrow> 'u market_feed \<Rightarrow> (world \<times> 'u market_feed) option" where
  "feed_start threads w f =
     (if feed_started f then Some (w, f)
      else do {
        (w1, f1) \<leftarrow> (if persist (feed_cfg f) then do {
            (w1, ts) \<leftarrow> open_or_report (fc_data_dir (feed_cfg f)) w (feed_trade_writer f);
            (w2, bs) \<leftarrow> open_or_report (fc_data_dir (feed_cfg f)) w1 (feed_book_writer f);
            Some (w2, set_book_writer bs (set_trade_writer ts f))
          } else Some (w, f));
        Some (w1, if threads then f1\<lparr>feed_started := True, feed_pc := FeedServing\<rparr> else f1\<lparr>feed_pc := FeedStoppingCm\<rparr>)
      })"

record metrics_snapshot =
  messages_received :: u64
  trades_received :: u64
  orderbooks_received :: u64
  trades_written :: u64
  orderbooks_written :: u64
  trades_dropped :: u64
  orderbooks_dropped :: u64
  snap_connect_attempts :: u64
  snap_connect_success :: u64
  snap_pipeline_over_500us :: u64
  snap_pipeline_over_1000us :: u64
  snap_clock_anomaly_count :: u64

definition feed_metrics_snapshot :: "'u market_feed \<Rightarrow> metrics_snapshot" where
  "feed_metrics_snapshot f = (let m = conn_metrics (feed_cm f) in
     \<lparr>messages_received = msgs_recv m, trades_received = trades_parsed m, orderbooks_received = orderbooks_parsed m,
      trades_written = records_written (feed_trade_writer f), orderbooks_written = records_written (feed_book_writer f),
      trades_dropped = records_dropped (feed_trade_writer f), orderbooks_dropped = records_dropped (feed_book_writer f),
      snap_connect_attempts = connect_attempts m, snap_connect_success = connect_successes m,
      snap_pipeline_over_500us = pipeline_over_500us m, snap_pipeline_over_1000us = pipeline_over_1000us m,
      snap_clock_anomaly_count = clock_anomaly_count m\<rparr>)"

section \<open>Interleaved executions\<close>

datatype feed_event =
    FeedStart bool
  | FeedMessage raw_clock string
  | FeedTrade wevent
  | FeedBook wevent
  | FeedStop
  | FeedCmStopped
  | FeedTradeClosed
  | FeedBookClosed

text \<open>The sections that the worker threads run.\<close>

fun worker_event :: "wevent \<Rightarrow> bool" where
  "worker_event EvTake = True"
| "worker_event (EvProcess _) = True"
| "worker_event EvFail = True"
| "worker_event EvExit = True"
| "worker_event _ = False"

inductive fstep ::
  "'j json_api \<Rightarrow> 'u user_callbacks \<Rightarrow> world \<times> 'u market_feed \<Rightarrow> feed_event \<Rightarrow> world \<times> 'u market_feed \<Rightarrow> bool"
  for api ucb where
  Start: "feed_pc f = FeedIdle \<or> feed_started f \<Longrightarrow> feed_start threads w f = Some (w', f') \<Longrightarrow>
    fstep api ucb (w, f) (FeedStart threads) (w', f')"
| Message: "feed_pc f \<in> {FeedServing, FeedStoppingCm} \<Longrightarrow>
    on_raw_message api (internal_config (feed_cfg f)) (feed_callbacks (persist (feed_cfg f)) ucb) clk msg (feed_cm f) = Some c \<Longrightarrow>
    fstep api ucb (w, f) (FeedMessage clk msg) (w, f\<lparr>feed_cm := c\<rparr>)"
| TradeWorker: "worker_event e \<Longrightarrow> wstep TradeRecord (w, feed_trade_writer f) e (w', s) \<Longrightarrow>
    fstep api ucb (w, f) (FeedTrade e) (w', set_trade_writer s f)"
| BookWorker: "worker_event e \<Longrightarrow> wstep OrderBookRecord (w, feed_book_writer f) e (w', s) \<Longrightarrow>
    fstep api ucb (w, f) (FeedBook e) (w', set_book_writer s f)"
| Stop: "fstep api ucb (w, f) FeedStop
    (w, if feed_started f then f\<lparr>feed_started := False, feed_pc := FeedStoppingCm\<rparr> else f)"
| CmStopped: "feed_pc f = FeedStoppingCm \<Longrightarrow> wstep TradeRecord (w, feed_trade_writer f) EvCloseBegin (w', s) \<Longrightarrow>
    fstep api ucb (w, f) FeedCmStopped (w', (set_trade_writer s f)\<lparr>feed_pc := FeedClosingTrade\<rparr>)"
| TradeClosed: "feed_pc f = FeedClosingTrade \<Longrightarrow> wstep TradeRecord (w, feed_trade_writer f) EvCloseEnd (w', s) \<Longrightarrow>
    wstep OrderBookRecord (w', feed_book_writer f) EvCloseBegin (w'', s') \<Longrightarrow>
    fstep api ucb (w, f) FeedTradeClosed (w'', (set_book_writer s' (set_trade_writer s f))\<lparr>feed_pc := FeedClosingBook\<rparr>)"
| BookClosed: "feed_pc f = FeedClosingBook \<Longrightarrow> wstep OrderBookRecord (w, feed_book_writer f) EvCloseEnd (w', s) \<Longrightarrow>
    fstep api ucb (w, f) FeedBookClosed (w', (set_book_writer s f)\<lparr>feed_pc := FeedIdle\<rparr>)"

inductive frun ::
  "'j json_api \<Rightarrow> 'u user_callbacks \<Rightarrow> world \<times> 'u market_feed \<Rightarrow> feed_event list \<Rightarrow> world \<times> 'u market_feed \<Rightarrow> bool"
  for api ucb c where
  Begin: "frun api ucb c [] c"
| Continue: "frun api ucb c es c' \<Longrightarrow> fstep api ucb c' e c'' \<Longrightarrow> frun api ucb c (es @ [e]) c''"

section \<open>The facade is transparent\<close>

text \<open>The user's callbacks as they would be registered with the connection manager directly.\<close>

definition direct :: "('r \<Rightarrow> 'u \<Rightarrow> 'u \<times> bool) option \<Rightarrow> ('r, 'u) callback" where
  "direct cb = map_option (\<lambda>f p m u. case f p u of (u', threw) \<Rightarrow> (m, u', threw)) cb"

definition direct_callbacks :: "'u user_callbacks \<Rightarrow> 'u callbacks" where
  "direct_callbacks ucb = \<lparr>on_trade = direct (user_on_trade ucb), on_orderbook = direct (user_on_orderbook ucb)\<rparr>"

lemma guarded_direct:
  "rel_prod (=) (\<lambda>u v. v = env_user u) (case guarded cb p m e of (m', e', threw) \<Rightarrow>
     (if threw then m'\<lparr>callback_errors := callback_errors m' + 1\<rparr> else m', e')) (invoke (direct cb) p m (env_user e))"
  by (simp add: guarded_def direct_def invoke_def split: option.split prod.split)

interpretation facade: callback_simulation "feed_callbacks pst ucb" "direct_callbacks ucb" "\<lambda>e v. v = env_user e" "(=)" for pst ucb
proof (unfold_locales, goal_cases)
  case (2 m m' u v t)
  let ?e = "if pst then u\<lparr>env_trade_writer := fst (write_record (env_trade_writer u) (trade_bytes t))\<rparr> else u"
  have "env_user ?e = env_user u" by simp
  then show ?case using 2 guarded_direct [of "user_on_trade ucb" t m ?e]
    by (simp add: invoke_Some feed_callbacks_def direct_callbacks_def feed_on_trade_def)
next
  case (3 m m' u v b)
  let ?e = "if pst then u\<lparr>env_book_writer := fst (write_record (env_book_writer u) (orderbook_bytes b))\<rparr> else u"
  have "env_user ?e = env_user u" by simp
  then show ?case using 3 guarded_direct [of "user_on_orderbook ucb" b m ?e]
    by (simp add: invoke_Some feed_callbacks_def direct_callbacks_def feed_on_orderbook_def)
qed simp


section \<open>One writer's side of a run\<close>

text \<open>The records offered to a writer, whatever became of them.\<close>

fun puts :: "wevent list \<Rightarrow> byte list list" where
  "puts [] = []"
| "puts (EvWrite r open_now ok # es) = r # puts es"
| "puts (e # es) = puts es"

lemma puts_append [simp]: "puts (es @ fs) = puts es @ puts fs"
  by (induction es rule: puts.induct) auto

lemma accepted_puts: "length (accepted es) \<le> length (puts es) \<and> (length (accepted es) = length (puts es) \<longrightarrow> accepted es = puts es)"
proof (induction es)
  case (Cons e es)
  then show ?case
  proof (cases e)
    case (EvWrite r a ok)
    then show ?thesis using Cons by (cases ok) auto
  qed auto
qed simp

lemma puts_no_write: "(\<And>r a ok. e \<noteq> EvWrite r a ok) \<Longrightarrow> puts [e] = []"
  by (cases e) auto

definition side_inv ::
  "rec_kind \<Rightarrow> world \<times> writer \<Rightarrow> ('r \<Rightarrow> byte list) \<Rightarrow> world \<Rightarrow> writer \<Rightarrow> 'r list \<Rightarrow> bool" where
  "side_inv k c0 enc w s rs \<longleftrightarrow> (\<exists>es. srun k c0 es (w, s) \<and> puts es = map enc rs)"

lemma side_other: "side_inv k c0 enc w s rs \<Longrightarrow> others k (data_dir s) w w' \<Longrightarrow> side_inv k c0 enc w' s rs"
  using srun.Other by (fastforce simp: side_inv_def)

lemma side_own:
  assumes "side_inv k c0 enc w s rs" and "wstep k (w, s) e (w', s')" and "\<And>r a ok. e \<noteq> EvWrite r a ok"
  shows "side_inv k c0 enc w' s' rs"
proof -
  obtain es where "srun k c0 es (w, s)" "puts es = map enc rs" using assms(1) by (auto simp: side_inv_def)
  then show ?thesis using srun.Own [OF _ assms(2)] puts_no_write [OF assms(3)] by (fastforce simp: side_inv_def)
qed

lemma side_put:
  assumes "side_inv k c0 enc w s rs"
  shows "side_inv k c0 enc w (fst (write_record s (enc r))) (rs @ [r])"
proof -
  obtain s' ok where p: "write_record s (enc r) = (s', ok)" by force
  obtain es where "srun k c0 es (w, s)" "puts es = map enc rs" using assms by (auto simp: side_inv_def)
  then show ?thesis using srun.Own [OF _ wstep.Write [OF p]] p by (fastforce simp: side_inv_def)
qed

lemma own_name_hd: "own_name k n \<Longrightarrow> hd n = hd (rec_file_prefix k)"
  unfolding own_name_def
proof (elim disjE)
  assume "is_hourly_file_name (rec_file_prefix k) n"
  then have "take (length (rec_file_prefix k @ ''_'')) n = rec_file_prefix k @ ''_''"
    by (auto simp: is_hourly_file_name_def Let_def split: if_splits)
  then show ?thesis by (cases k; cases n) auto
next
  assume "n \<in> hour_names k"
  then show ?thesis by (cases k) (auto simp: hour_names_def hourly_file_name_def Let_def)
qed

lemma frame_others:
  assumes "frame k' dir w w'" and "k \<noteq> k'"
  shows "others k dir w w'"
proof -
  have "n \<notin> hour_names k'" if "own_name k n" for n
    using own_name_hd [OF that] own_name_hd [of k' n] assms(2) by (cases k; cases k') (auto simp: own_name_def)
  then show ?thesis using assms(1) by (simp add: frame_def others_def)
qed

lemma other_writer:
  "wstep k' (w, s) e (w', s') \<Longrightarrow> own_stream k' s \<Longrightarrow> k \<noteq> k' \<Longrightarrow> others k (data_dir s) w w'"
  using wstep_frame frame_others by fastforce

section \<open>A user that logs\<close>

definition log_user :: "(trade \<Rightarrow> bool) \<Rightarrow> (orderbook_snapshot \<Rightarrow> bool) \<Rightarrow> feed_log user_callbacks" where
  "log_user tt tb = \<lparr>user_on_trade = Some (\<lambda>t u. (u\<lparr>trade_log := trade_log u @ [t]\<rparr>, tt t)),
     user_on_orderbook = Some (\<lambda>b u. (u\<lparr>book_log := book_log u @ [b]\<rparr>, tb b))\<rparr>"

lemma direct_log_user [simp]: "direct_callbacks (log_user tt tb) = log_callbacks tt tb"
  by (simp add: direct_callbacks_def log_user_def log_callbacks_def direct_def)

abbreviation user_trades :: "feed_log market_feed \<Rightarrow> trade list" where
  "user_trades f \<equiv> trade_log (env_user (feed_env f))"
abbreviation user_books :: "feed_log market_feed \<Rightarrow> orderbook_snapshot list" where
  "user_books f \<equiv> book_log (env_user (feed_env f))"

lemma feed_trade_effect:
  "snd (invoke (on_trade (feed_callbacks True (log_user tt tb))) t m e)
     = e\<lparr>env_trade_writer := fst (write_record (env_trade_writer e) (trade_bytes t)),
         env_user := (env_user e)\<lparr>trade_log := trade_log (env_user e) @ [t]\<rparr>\<rparr>"
  by (simp add: feed_callbacks_def invoke_Some feed_on_trade_def guarded_def log_user_def)

lemma feed_book_effect:
  "snd (invoke (on_orderbook (feed_callbacks True (log_user tt tb))) b m e)
     = e\<lparr>env_book_writer := fst (write_record (env_book_writer e) (orderbook_bytes b)),
         env_user := (env_user e)\<lparr>book_log := book_log (env_user e) @ [b]\<rparr>\<rparr>"
  by (simp add: feed_callbacks_def invoke_Some feed_on_orderbook_def guarded_def log_user_def)

text \<open>The counters of records received are the lengths of the logs.\<close>

definition counted :: "metrics \<Rightarrow> feed_log \<Rightarrow> bool" where
  "counted m u \<longleftrightarrow> trades_parsed m = of_nat (length (trade_log u)) \<and> orderbooks_parsed m = of_nat (length (book_log u))"

lemma log_message_counted:
  assumes "on_raw_message api cfg (log_callbacks tt tb) clk msg c = Some c'" and "counted (conn_metrics c) (user c)"
  shows "counted (conn_metrics c') (user c')"
proof -
  have eq: "trades_parsed m = message_counts m ! 1" "orderbooks_parsed m = message_counts m ! 2" for m
    by (simp_all add: message_counts_def)
  have add: "counts_add c c' d \<Longrightarrow> length d = 10 \<Longrightarrow> trades_parsed (conn_metrics c') = trades_parsed (conn_metrics c) + d ! 1
    \<and> orderbooks_parsed (conn_metrics c') = orderbooks_parsed (conn_metrics c) + d ! 2" for d
    unfolding counts_add_def eq by (simp add: add_counts_def) (simp add: message_counts_def)
  from assms(1) show ?thesis
  proof (cases rule: message_step)
    case (trade n t g r)
    then show ?thesis using assms(2) add [OF trade(7)]
      by (cases "action r") (auto simp: counted_def log_trade_def trade_counts_def)
  next
    case (book n b)
    then show ?thesis using assms(2) add [OF book(6)] by (auto simp: counted_def log_book_def)
  next
    case (other k)
    then show ?thesis using assms(2) add [OF other(6)] by (simp add: counted_def)
  qed
qed

text \<open>The connection manager seen without the writers.\<close>

definition facade_view :: "'u feed_env conn \<Rightarrow> 'u conn" where
  "facade_view c = \<lparr>pin_attempted = pin_attempted c, trade_seq_gates = trade_seq_gates c,
     last_orderbook_update_id = last_orderbook_update_id c, clock_calibrator = clock_calibrator c,
     conn_metrics = conn_metrics c, user = env_user (user c)\<rparr>"

lemma facade_sim_iff: "facade.sim c d \<longleftrightarrow> d = facade_view c"
  by (auto simp: facade.sim_def facade_view_def)

lemma feed_message_view:
  "on_raw_message api cfg (direct_callbacks ucb) clk msg (facade_view c)
     = map_option facade_view (on_raw_message api cfg (feed_callbacks pst ucb) clk msg c)"
  using facade.sim_message [of c "facade_view c" api cfg pst ucb clk msg]
  by (auto simp: facade_sim_iff rel_option_iff split: option.splits)

lemma feed_message_counted:
  assumes "on_raw_message api cfg (feed_callbacks pst (log_user tt tb)) clk msg c = Some c'"
    and "counted (conn_metrics c) (env_user (user c))"
  shows "counted (conn_metrics c') (env_user (user c'))"
proof -
  have "on_raw_message api cfg (log_callbacks tt tb) clk msg (facade_view c) = Some (facade_view c')"
    using feed_message_view [of api cfg "log_user tt tb" clk msg c pst] assms(1) by simp
  from log_message_counted [OF this] assms(2) show ?thesis by (simp add: facade_view_def)
qed

end
