(* ===== verification/Writer_Pair.thy ===== *)
theory Writer_Pair
  imports Market_Feed
begin

text \<open>
  Programs with two writers. The facade and the live mode both own a writer of trades and a writer
  of books in one directory: opening both, what a section of one worker leaves of the other, how
  the sections of a worker are a run of the program that owns it (locale \<open>worker_host\<close>), and closing.
\<close>

section \<open>The two sides\<close>

lemma side_stream:
  assumes "side_inv k c0 enc w s rs" and "own_stream k (snd c0)"
  shows "own_stream k s \<and> data_dir s = data_dir (snd c0)"
proof -
  obtain es where es: "srun k c0 es (w, s)" using assms(1) by (auto simp: side_inv_def)
  show ?thesis using srun_own_stream [OF es assms(2)] srun_data_dir [OF es] by simp
qed

definition same_dir :: "world \<times> writer \<Rightarrow> world \<times> writer \<Rightarrow> bool" where
  "same_dir ct cb \<longleftrightarrow> own_stream TradeRecord (snd ct) \<and> own_stream OrderBookRecord (snd cb) \<and> data_dir (snd ct) = data_dir (snd cb)"

definition pair_inv :: "world \<times> writer \<Rightarrow> world \<times> writer \<Rightarrow> world \<Rightarrow> writer \<Rightarrow> writer \<Rightarrow> feed_log \<Rightarrow> bool" where
  "pair_inv ct cb w ts bs u \<longleftrightarrow> side_inv TradeRecord ct trade_bytes w ts (trade_log u)
     \<and> side_inv OrderBookRecord cb orderbook_bytes w bs (book_log u)"

lemma pair_dir:
  assumes "pair_inv ct cb w ts bs u" and "same_dir ct cb"
  shows "own_stream TradeRecord ts" "own_stream OrderBookRecord bs" "data_dir ts = data_dir bs"
  using side_stream [of TradeRecord ct trade_bytes w ts "trade_log u"] side_stream [of OrderBookRecord cb orderbook_bytes w bs "book_log u"] assms
  by (simp_all add: pair_inv_def same_dir_def)

lemma pair_trade:
  assumes "pair_inv ct cb w ts bs u" and "same_dir ct cb" and "wstep TradeRecord (w, ts) ev (w', s)" and "\<And>r a ok. ev \<noteq> EvWrite r a ok"
  shows "pair_inv ct cb w' s bs u"
proof -
  have o: "others OrderBookRecord (data_dir bs) w w'" using other_writer [OF assms(3)] pair_dir [OF assms(1,2)] by simp
  show ?thesis using assms(1) by (simp add: pair_inv_def side_own [OF _ assms(3,4)] side_other [OF _ o])
qed

lemma pair_book:
  assumes "pair_inv ct cb w ts bs u" and "same_dir ct cb" and "wstep OrderBookRecord (w, bs) ev (w', s)" and "\<And>r a ok. ev \<noteq> EvWrite r a ok"
  shows "pair_inv ct cb w' ts s u"
proof -
  have o: "others TradeRecord (data_dir ts) w w'" using other_writer [OF assms(3)] pair_dir [OF assms(1,2)] by simp
  show ?thesis using assms(1) by (simp add: pair_inv_def side_own [OF _ assms(3,4)] side_other [OF _ o])
qed

lemma pair_put:
  "pair_inv ct cb w ts bs u \<Longrightarrow> pair_inv ct cb w (fst (write_record ts (trade_bytes t))) bs (u\<lparr>trade_log := trade_log u @ [t]\<rparr>)"
  "pair_inv ct cb w ts bs u \<Longrightarrow> pair_inv ct cb w ts (fst (write_record bs (orderbook_bytes b))) (u\<lparr>book_log := book_log u @ [b]\<rparr>)"
  by (simp_all add: pair_inv_def side_put)

section \<open>Opening\<close>

lemma open_new:
  assumes "no_faults w" and "0 < cap"
  obtains w' s' where "open_writer w new_writer dir cap = (w', s', Opened)"
  using assms by (cases "w_dirs w dir") (auto simp: open_writer_def new_writer_def create_directories_def io_fault_def
      no_faults_def Let_def)

lemma open_pair:
  assumes "no_faults w" and "0 < cap"
  obtains w1 ts w2 bs where "open_writer w new_writer dir cap = (w1, ts, Opened)" and "open_writer w1 new_writer dir cap = (w2, bs, Opened)"
proof -
  obtain w1 ts where 1: "open_writer w new_writer dir cap = (w1, ts, Opened)" by (rule open_new [OF assms])
  have "no_faults w1" using open_writer_opened(15) [OF 1 new_writer_idle] assms(1) by (simp add: no_faults_def)
  from open_new [OF this assms(2)] 1 that show thesis by metis
qed

lemma open_others: "open_writer w s dir cap = (w', s', Opened) \<Longrightarrow> writer_idle s \<Longrightarrow> w_dirs w dir \<noteq> None \<Longrightarrow> others k dir w w'"
  using open_writer_opened(14-16) [of w s dir cap w' s'] open_writer_distinct [of w s dir cap w' s' Opened dir] by (auto simp: others_def)

lemma opened_pair:
  assumes "open_writer w new_writer dir cap = (w1, ts, Opened)" and "open_writer w1 new_writer dir cap = (w0, bs, Opened)"
  shows "same_dir (w1, ts) (w0, bs)" "pair_inv (w1, ts) (w0, bs) w0 ts bs empty_log" "srun TradeRecord (w1, ts) [] (w0, ts)"
proof -
  note t = open_writer_opened [OF assms(1) new_writer_idle] and b = open_writer_opened [OF assms(2) new_writer_idle]
  show "same_dir (w1, ts) (w0, bs)" using t(3,4) b(3,4) by (simp add: same_dir_def own_stream_def)
  show s: "srun TradeRecord (w1, ts) [] (w0, ts)"
    by (rule srun.Other [OF srun.Start]) (use open_others [OF assms(2) new_writer_idle t(16)] t(4) in simp)
  show "pair_inv (w1, ts) (w0, bs) w0 ts bs empty_log"
    using s srun.Start by (auto simp: pair_inv_def side_inv_def intro!: exI [of _ "[]"])
qed

lemma opened_pair_world:
  assumes "open_writer w new_writer dir cap = (w1, ts, Opened)" and "no_faults w" and "\<forall>k n. own_name k n \<longrightarrow> get_node w dir n = None"
  shows "no_faults w1" "\<forall>k n. own_name k n \<longrightarrow> get_node w1 dir n = None"
  using open_writer_opened(14,15) [OF assms(1) new_writer_idle] assms(2,3) by (simp_all add: no_faults_def)

section \<open>The sections of a worker\<close>

lemma not_write: "worker_event e \<Longrightarrow> e \<noteq> EvWrite r a ok"
  by auto

lemma worker_not_idle: "wstep k (w, s) e c' \<Longrightarrow> worker_event e \<Longrightarrow> worker s \<noteq> NoThread"
  by (erule wstep_elim) auto

lemma close_end_worker: "wstep k (w, s) EvCloseEnd (w', s') \<Longrightarrow> worker s' = NoThread"
  by (erule wstep_elim) (auto simp: close_end_def same_control_def dest!: close_file_control split: prod.splits)

lemma close_begin_worker: "wstep k (w, s) EvCloseBegin (w', s') \<Longrightarrow> worker s' = worker s \<and> w' = w"
  by (erule wstep_elim) (auto simp: close_begin_def)

text \<open>
  A program whose state holds a writer of kind \<open>k\<close> and whose steps include those of its worker:
  a run of the worker is a run of the program.
\<close>

locale worker_host =
  fixes k :: rec_kind
    and step :: "world \<times> 's \<Rightarrow> 'e \<Rightarrow> world \<times> 's \<Rightarrow> bool"
    and run :: "world \<times> 's \<Rightarrow> 'e list \<Rightarrow> world \<times> 's \<Rightarrow> bool"
    and get :: "'s \<Rightarrow> writer" and put :: "writer \<Rightarrow> 's \<Rightarrow> 's" and ev :: "wevent \<Rightarrow> 'e"
  assumes run_nil: "run c [] c"
    and run_snoc: "run c es c' \<Longrightarrow> step c' e c'' \<Longrightarrow> run c (es @ [e]) c''"
    and get_put: "get (put s f) = s" and put_put: "put s (put s' f) = put s f" and put_get: "put (get f) f = f"
    and worker_section: "worker_event x \<Longrightarrow> wstep k (w, get f) x (w', s) \<Longrightarrow> step (w, f) (ev x) (w', put s f)"
begin

lemma worker_run:
  assumes "wrun k c es c'" and "c = (w, get f)" and "list_all worker_event es"
  shows "run (w, f) (map ev es) (fst c', put (snd c') f)"
  using assms
proof (induction rule: wrun.induct)
  case (Step es c' e c'')
  have "step (fst c', put (snd c') f) (ev e) (fst c'', put (snd c'') (put (snd c') f))"
    by (rule worker_section) (use Step in \<open>auto simp: get_put\<close>)
  then show ?case using Step run_snoc [of "(w, f)" "map ev es"] by (simp add: put_put)
qed (simp add: run_nil put_get)

end

section \<open>Closing\<close>

lemma finish_worker:
  "session_inv s \<Longrightarrow> closing s \<Longrightarrow> \<not> running s \<Longrightarrow> \<exists>es w' s'. wrun k (w, s) es (w', s') \<and> list_all worker_event es
     \<and> worker s' \<in> {NoThread, Finished} \<and> session_inv s' \<and> closing s' \<and> length es \<le> work_left s \<and> accepted es = []"
proof (induction "work_left s" arbitrary: w s rule: less_induct)
  case less
  show ?case
  proof (cases "worker s \<in> {NoThread, Finished}")
    case True
    then show ?thesis using less(2-4) wrun.Start by (intro exI [of _ "[]"] exI [of _ w] exI [of _ s]) auto
  next
    case False
    obtain e w1 s1 where st: "wstep k (w, s) e (w1, s1)"
      "e \<in> {EvTake, EvFail, EvExit} \<or> (\<exists>batch. e = EvProcess batch)"
      using worker_not_stuck [OF less(2,4) False] by (metis prod.exhaust)
    have d: "work_left s1 < work_left s" using worker_step_decreases [OF st] by simp
    have i: "session_inv s1" "closing s1" "\<not> running s1"
      using wstep_inv [OF st(1)] worker_step_flags [OF st] less by simp_all
    from less(1) [OF d i] obtain es w' s' where *: "wrun k (w1, s1) es (w', s')" "list_all worker_event es"
      "worker s' \<in> {NoThread, Finished}" "session_inv s'" "closing s'" "length es \<le> work_left s1" "accepted es = []" by blast
    moreover have "worker_event e" "accepted [e] = []" using st(2) by auto
    ultimately show ?thesis using wrun_Cons [OF st(1) *(1)] d accepted_append [of "[e]" es]
      by (intro exI [of _ "e # es"] exI [of _ w'] exI [of _ s']) auto
  qed
qed

text \<open>The sections of closing one writer: the flags, the end of the worker, the file.\<close>

lemma close_writer_run:
  assumes "session_inv s" and "\<not> closing s"
  obtains es w1 s1 w2 s2 where "wstep k (w, s) EvCloseBegin (w, close_begin s)"
    and "wrun k (w, close_begin s) es (w1, s1)" and "list_all worker_event es" and "length es \<le> work_left s"
    and "wstep k (w1, s1) EvCloseEnd (w2, s2)" and "writer_idle s2"
    and "wrun k (w, s) (EvCloseBegin # es @ [EvCloseEnd]) (w2, s2)" and "accepted es = []"
proof -
  have 1: "wstep k (w, s) EvCloseBegin (w, close_begin s)" using assms(2) by (rule wstep.CloseBegin)
  have i: "session_inv (close_begin s)" using wstep_inv [OF 1] assms(1) by simp
  obtain es w1 s1 where es: "wrun k (w, close_begin s) es (w1, s1)" "list_all worker_event es" "accepted es = []"
    "worker s1 \<in> {NoThread, Finished}" "session_inv s1" "closing s1" "length es \<le> work_left (close_begin s)"
    using finish_worker [OF i, of k w] by (auto simp: close_begin_def)
  obtain w2 s2 where e: "close_end w1 s1 = (w2, s2)" by force
  have 2: "wstep k (w1, s1) EvCloseEnd (w2, s2)" using es(6,4) e by (rule wstep.CloseEnd)
  have "work_left (close_begin s) = work_left s" by (simp add: work_left_def close_begin_def)
  then show thesis
    using that [OF 1 es(1,2) _ 2 close_end_idle [OF es(5,6,4) e]] es wrun_Cons [OF 1 wrun.Step [OF es(1) 2]] by simp
qed

lemma opened_write:
  "open_writer w new_writer dir 100000 = (w', s', Opened) \<Longrightarrow> snd (write_record s' r) \<and> session_inv (fst (write_record s' r))
     \<and> \<not> closing (fst (write_record s' r))"
  using open_writer_opened [OF _ new_writer_idle, of w dir 100000 w' s'] write_record_inv [OF opened_session_inv [OF _ new_writer_idle]]
  by (auto simp: write_record_def Let_def split: if_splits)

lemma srun_wrun: "wrun k c' fs c'' \<Longrightarrow> srun k c es c' \<Longrightarrow> srun k c (es @ fs) c''"
proof (induction rule: wrun.induct)
  case (Step fs c1 e c2)
  then show ?case using srun.Own [of k c "es @ fs" c1 e c2] by simp
qed simp

lemma write_record_stream [simp]:
  "own_stream k (fst (write_record s r)) = own_stream k s" "data_dir (fst (write_record s r)) = data_dir s"
  by (auto simp: own_stream_def write_record_def Let_def)

lemma srun_put: "srun k c es (w, s) \<Longrightarrow> \<exists>a. srun k c (es @ [EvWrite r a (snd (write_record s r))]) (w, fst (write_record s r))"
  using srun.Own [of k c es "(w, s)"] wstep.Write [of s r] by (metis prod.collapse)

lemma closing_others:
  "wrun k' (w, s) es (w', s') \<Longrightarrow> own_stream k' s \<Longrightarrow> k \<noteq> k' \<Longrightarrow> others k (data_dir s) w w'"
  using wrun_frame frame_others by fastforce

text \<open>A writer that was opened in a fresh directory and is closed after a session has written what it accepted.\<close>

lemma closed_written:
  assumes "open_writer w new_writer dir cap = (wa, s0, Opened)" and "cap < 2 ^ 64" and "no_faults w"
    and "\<forall>n. own_name k n \<longrightarrow> get_node w dir n = None" and "srun k (wa, s0) fs (wb, s)" and "\<forall>r \<in> set (accepted fs). good_rec k r"
    and "others k dir wb wc" and "wrun k (wc, s) (EvCloseBegin # es @ [EvCloseEnd]) (wd, s')"
    and "accepted es = []" and "writer_idle s'"
  shows "records_written s' = of_nat (length (accepted fs))"
proof -
  have "data_dir s = dir" using srun_data_dir [OF assms(5)] open_writer_opened(4) [OF assms(1) new_writer_idle] by simp
  then have run: "srun k (wa, s0) (fs @ EvCloseBegin # es @ [EvCloseEnd]) (wd, s')"
    by (intro srun_wrun [OF assms(8)] srun.Other [OF assms(5)]) (use assms(7) in simp)
  have c: "closed_files k w dir Map.empty {} {}"
    using assms(4) by (simp add: closed_files_def closed_file_def own_name_def)
  show ?thesis
    using srun_store [OF assms(1) new_writer_idle assms(2,3) c run] assms(6,9,10) by (simp add: list_all_iff writer_idle_def)
qed

end
