(* ===== verification/Feed_Persistence.thy ===== *)
theory Feed_Persistence
  imports Writer_Pair "HOL-Library.Sublist"
begin

text \<open>
  The facade from end to end. A run of \<^verbatim>\<open>MarketDataFeed\<close>, projected to one of its writers, is
  a run of that writer in an environment; so what the user's callbacks were given is what the
  hour files hold, and what a \<^verbatim>\<open>Replayer\<close> delivers later.
\<close>

section \<open>Records and their checksum\<close>

definition stamped_trade :: "trade \<Rightarrow> trade" where
  "stamped_trade t = t\<lparr>crc32 := compute_record_crc TradeRecord (trade_bytes t)\<rparr>"

definition stamped_book :: "orderbook_snapshot \<Rightarrow> orderbook_snapshot" where
  "stamped_book b = b\<lparr>ob_crc32 := compute_record_crc OrderBookRecord (orderbook_bytes b)\<rparr>"

lemma overwrite_mid: "length xs = n \<Longrightarrow> length bs = length cs \<Longrightarrow> overwrite n bs (xs @ cs @ ys) = xs @ bs @ ys"
  by (simp add: overwrite_def)

lemma stamp_trade:
  assumes "trade_wf t"
  shows "trade_of_bytes (stamp_record_crc TradeRecord (trade_bytes t)) = stamped_trade t"
proof -
  let ?pre = "u64_bytes (exchange_ts_us t) @ u64_bytes (recv_ts_us t) @ u64_bytes (trade_id t) @ u64_bytes (price t)
     @ u64_bytes (quantity t) @ symbol t @ [if is_buyer_maker t then 1 else 0] @ padding t"
  have l: "length ?pre = 60" using assms by (simp add: trade_wf_def)
  have "trade_bytes (t\<lparr>crc32 := c\<rparr>) = ?pre @ u32_bytes c @ []" for c by (simp add: trade_bytes_def)
  from this [of "crc32 t"] this [of "crc32 (stamped_trade t)"] overwrite_mid [OF l, of "u32_bytes (crc32 (stamped_trade t))" "u32_bytes (crc32 t)" "[]"]
  have "stamp_record_crc TradeRecord (trade_bytes t) = trade_bytes (stamped_trade t)"
    by (simp add: stamp_record_crc_def set_rec_crc_def stamped_trade_def)
  moreover have "trade_wf (stamped_trade t)" using assms by (simp add: stamped_trade_def trade_wf_def)
  ultimately show ?thesis by (simp add: trade_of_trade_bytes)
qed

lemma stamp_book:
  assumes "orderbook_wf b"
  shows "orderbook_of_bytes (stamp_record_crc OrderBookRecord (orderbook_bytes b)) = stamped_book b"
proof -
  let ?pre = "u64_bytes (ob_exchange_ts_us b) @ u64_bytes (ob_recv_ts_us b) @ u64_bytes (last_update_id b) @ ob_symbol b
     @ concat (map level_bytes (bids b)) @ concat (map level_bytes (asks b))"
  have l: "length ?pre = 680" using assms by (simp add: orderbook_wf_def)
  have "orderbook_bytes (b\<lparr>ob_crc32 := c\<rparr>) = ?pre @ u32_bytes c @ ob_padding b" for c by (simp add: orderbook_bytes_def)
  from this [of "ob_crc32 b"] this [of "ob_crc32 (stamped_book b)"]
    overwrite_mid [OF l, of "u32_bytes (ob_crc32 (stamped_book b))" "u32_bytes (ob_crc32 b)" "ob_padding b"]
  have "stamp_record_crc OrderBookRecord (orderbook_bytes b) = orderbook_bytes (stamped_book b)"
    by (simp add: stamp_record_crc_def set_rec_crc_def stamped_book_def)
  moreover have "orderbook_wf (stamped_book b)" using assms by (simp add: stamped_book_def orderbook_wf_def)
  ultimately show ?thesis by (simp add: orderbook_of_orderbook_bytes)
qed

lemma recv_trade_bytes: "rec_recv_ts_us (trade_bytes t) = sint (recv_ts_us t)"
  and recv_orderbook_bytes: "rec_recv_ts_us (orderbook_bytes b) = sint (ob_recv_ts_us b)"
  by (simp_all add: rec_recv_ts_us_def trade_bytes_def orderbook_bytes_def byte_simps slice_append_skip)

section \<open>Replaying one side\<close>

lemma set_accepted_puts: "set (accepted es) \<subseteq> set (puts es)"
proof (induction es)
  case (Cons e es)
  then show ?case
  proof (cases e)
    case (EvWrite r a ok)
    then show ?thesis using Cons by (cases ok) auto
  qed auto
qed simp

lemma side_files:
  assumes o: "open_writer w s dir cap = (w0, s0, Opened)" "writer_idle s" "cap < 2 ^ 64"
    and w: "no_faults w" "distinct_names w dir" "\<forall>n. own_name k n \<longrightarrow> get_node w dir n = None"
    and s: "side_inv k (w0, s0) enc w1 s1 rs" "worker s1 = NoThread"
    and r: "\<forall>r \<in> set rs. good_rec k (enc r) \<and> rec_recv_ts_us (enc r) < end_of_9999_us"
    and n: "records_written s1 = of_nat (length rs)" "length rs < 2 ^ 64"
  shows "session_files k (map enc rs) w1 dir"
proof -
  obtain es where es: "srun k (w0, s0) es (w1, s1)" "puts es = map enc rs" using s(1) by (auto simp: side_inv_def)
  have acc: "\<forall>r \<in> set (accepted es). good_rec k r \<and> rec_recv_ts_us r < end_of_9999_us"
    using r set_accepted_puts [of es] unfolding es(2) by auto
  have c: "closed_files k w dir Map.empty {} {}"
    using w(3) by (simp add: closed_files_def closed_file_def own_name_def)
  have "records_written s1 = of_nat (length (accepted es))"
    using srun_store [OF o w(1) c es(1) _ s(2)] acc by (simp add: list_all_iff)
  moreover have "length (accepted es) \<le> length rs" using accepted_puts [of es] es(2) by simp
  ultimately have "length (accepted es) = length (puts es)"
    using n es(2) by (simp add: word_of_nat_eq_iff take_bit_nat_eq_self)
  then have "accepted es = map enc rs" using accepted_puts [of es] es(2) by simp
  then show ?thesis
    using session_leaves_files [OF o w(1,2) _ es(1) s(2)] acc w(3) by (simp add: list_all_iff own_name_def)
qed

lemma feed_collect_map: "feed (\<lambda>xs r. (xs @ [g r], False)) acc rs = (acc @ map g rs, length rs, False)"
  by (induction rs arbitrary: acc) auto

lemma side_replay_with:
  assumes "session_files k (map enc rs) w1 dir" and "rs \<noteq> []" and "sorted (map (rec_recv_ts_us \<circ> enc) rs)"
    and "feed cb s (map (stamp_record_crc k \<circ> enc) rs) = (s', length rs, False)"
  shows "\<exists>w2 h. replay_all k w1 dir (Some cb) no_window s = (w2, s',
      \<lparr>records_replayed = of_nat (length rs), header_record_count = h, completed = True, file_error = False,
       callback_error = False, count_mismatch = False\<rparr>)"
proof -
  have ts: "0 \<le> rec_recv_ts_us r \<and> rec_recv_ts_us r < end_of_9999_us" if "r \<in> set (map enc rs)" for r
    using assms(1) that by (auto simp: session_files_def list_all_iff good_rec_def)
  have mono: "hour_of k x \<le> hour_of k y"
    if "x \<in> set (map enc rs)" "y \<in> set (map enc rs)" "rec_recv_ts_us x \<le> rec_recv_ts_us y" for x y
    using hourly_name_mono [of "rec_recv_ts_us x" "rec_recv_ts_us y" "rec_file_prefix k"] ts [OF that(1)] ts [OF that(2)] that(3)
    by (simp add: hour_of_def)
  have "sorted_wrt (\<lambda>x y. rec_recv_ts_us x \<le> rec_recv_ts_us y) (map enc rs)"
    using assms(3) by (simp add: sorted_map sorted_wrt_map)
  then have "sorted (map (hour_of k) (map enc rs))"
    unfolding sorted_map by (rule sorted_wrt_mono_rel [rotated]) (rule mono)
  then have "sort_key (hour_of k) (map enc rs) = map enc rs" by (rule sort_key_id_if_sorted)
  moreover have "filter (in_window no_window) xs = xs" for xs
    by (simp add: in_window_def window_contains_def no_window_def)
  ultimately have "feed cb s (replayed k no_window (map enc rs)) = (s', length rs, False)"
    using assms(4) by (simp add: replayed_def)
  from replay_session_files [OF assms(1) no_window_valid _ _ this] assms(2) show ?thesis
    by (auto simp: no_window_def)
qed

lemma side_replay:
  assumes "session_files k (map enc rs) w1 dir" and "rs \<noteq> []" and "sorted (map (rec_recv_ts_us \<circ> enc) rs)"
    and "\<And>r. r \<in> set rs \<Longrightarrow> dec (stamp_record_crc k (enc r)) = st r"
  shows "\<exists>w2 h. replay_all k w1 dir (Some (\<lambda>xs r. (xs @ [dec r], False))) no_window [] = (w2, map st rs,
      \<lparr>records_replayed = of_nat (length rs), header_record_count = h, completed = True, file_error = False,
       callback_error = False, count_mismatch = False\<rparr>)"
  by (rule side_replay_with [OF assms(1-3)]) (use assms(4) in \<open>simp add: feed_collect_map\<close>)

section \<open>The invariant of a run\<close>

text \<open>The wall clock readings of the messages of a run.\<close>

fun clocks :: "feed_event list \<Rightarrow> i64 list" where
  "clocks [] = []"
| "clocks (FeedMessage clk msg # es) = wall_us clk # clocks es"
| "clocks (e # es) = clocks es"

lemma clocks_append [simp]: "clocks (es @ fs) = clocks es @ clocks fs"
  by (induction es rule: clocks.induct) auto

lemma clocks_no_message: "(\<And>clk msg. e \<noteq> FeedMessage clk msg) \<Longrightarrow> clocks [e] = []"
  by (cases e) auto

definition logged :: "i64 list \<Rightarrow> feed_log \<Rightarrow> bool" where
  "logged ts u \<longleftrightarrow> (\<forall>t \<in> set (trade_log u). trade_wf t) \<and> subseq (map recv_ts_us (trade_log u)) ts
     \<and> (\<forall>b \<in> set (book_log u). orderbook_wf b) \<and> subseq (map ob_recv_ts_us (book_log u)) ts"

abbreviation sides :: "world \<times> writer \<Rightarrow> world \<times> writer \<Rightarrow> world \<Rightarrow> feed_log feed_env \<Rightarrow> bool" where
  "sides ct cb w e \<equiv> pair_inv ct cb w (env_trade_writer e) (env_book_writer e) (env_user e)"

fun closed_by :: "feed_pc \<Rightarrow> writer \<Rightarrow> writer \<Rightarrow> bool" where
  "closed_by FeedIdle ts bs \<longleftrightarrow> worker ts = NoThread \<and> worker bs = NoThread"
| "closed_by FeedClosingBook ts bs \<longleftrightarrow> worker ts = NoThread"
| "closed_by _ ts bs \<longleftrightarrow> True"

definition feed_inv ::
  "feed_config \<Rightarrow> world \<times> writer \<Rightarrow> world \<times> writer \<Rightarrow> i64 list \<Rightarrow> world \<times> feed_log market_feed \<Rightarrow> bool" where
  "feed_inv fc ct cb ts c \<longleftrightarrow> feed_cfg (snd c) = fc \<and> sides ct cb (fst c) (feed_env (snd c))
     \<and> counted (conn_metrics (feed_cm (snd c))) (env_user (feed_env (snd c))) \<and> logged ts (env_user (feed_env (snd c)))
     \<and> closed_by (feed_pc (snd c)) (feed_trade_writer (snd c)) (feed_book_writer (snd c))"

lemma set_writer_sel [simp]:
  "feed_trade_writer (set_trade_writer s f) = s" "feed_book_writer (set_trade_writer s f) = feed_book_writer f"
  "feed_trade_writer (set_book_writer s f) = feed_trade_writer f" "feed_book_writer (set_book_writer s f) = s"
  "env_user (feed_env (set_trade_writer s f)) = env_user (feed_env f)"
  "env_user (feed_env (set_book_writer s f)) = env_user (feed_env f)"
  "feed_cfg (set_trade_writer s f) = feed_cfg f" "feed_cfg (set_book_writer s f) = feed_cfg f"
  "feed_pc (set_trade_writer s f) = feed_pc f" "feed_pc (set_book_writer s f) = feed_pc f"
  "conn_metrics (feed_cm (set_trade_writer s f)) = conn_metrics (feed_cm f)"
  "conn_metrics (feed_cm (set_book_writer s f)) = conn_metrics (feed_cm f)"
  by (simp_all add: set_trade_writer_def set_book_writer_def map_env_def)

lemma logged_more: "logged ts u \<Longrightarrow> logged (ts @ ts') u"
  by (auto simp: logged_def intro: list_emb_append2)

lemma message_inv:
  assumes "on_raw_message api cfg (feed_callbacks True (log_user tt tb)) clk msg c = Some c'"
    and "sides ct cb w (user c)" and "logged ts (env_user (user c))"
  shows "sides ct cb w (user c') \<and> logged (ts @ [wall_us clk]) (env_user (user c'))"
  using assms(1)
proof (cases rule: message_user)
  case silent
  then show ?thesis using assms logged_more by simp
next
  case (trade t m)
  then show ?thesis using assms(2,3) pair_put(1) [OF assms(2), of t]
    by (auto simp: feed_trade_effect logged_def intro: list_emb_append_mono list_emb_append2)
next
  case (book b m)
  then show ?thesis using assms(2,3) pair_put(2) [OF assms(2), of b]
    by (auto simp: feed_book_effect logged_def intro: list_emb_append_mono list_emb_append2)
qed

lemma fstep_inv:
  assumes "fstep api (log_user tt tb) c e c'" and "feed_inv fc ct cb ts c" and "same_dir ct cb" and "persist fc"
    and "\<And>b. e \<noteq> FeedStart b"
  shows "feed_inv fc ct cb (ts @ clocks [e]) c'"
  using assms
proof (induction rule: fstep.induct)
  case (Message f clk msg c w)
  then have "on_raw_message api (internal_config fc) (feed_callbacks True (log_user tt tb)) clk msg (feed_cm f) = Some c"
    by (auto simp: feed_inv_def)
  from message_inv [OF this, of ct cb w ts] feed_message_counted [OF this] Message show ?case
    by (auto simp: feed_inv_def)
next
  case (TradeWorker e w f w' s)
  then have "sides ct cb w (feed_env f)" by (simp add: feed_inv_def)
  from pair_trade [OF this TradeWorker(4,2)] TradeWorker worker_not_idle [OF TradeWorker(2,1)] not_write show ?case
    by (cases "feed_pc f") (auto simp: feed_inv_def)
next
  case (BookWorker e w f w' s)
  then have "sides ct cb w (feed_env f)" by (simp add: feed_inv_def)
  from pair_book [OF this BookWorker(4,2)] BookWorker worker_not_idle [OF BookWorker(2,1)] not_write show ?case
    by (cases "feed_pc f") (auto simp: feed_inv_def)
next
  case (CmStopped f w w' s)
  then have "sides ct cb w (feed_env f)" by (simp add: feed_inv_def)
  from pair_trade [OF this CmStopped(4,2)] CmStopped show ?case by (auto simp: feed_inv_def)
next
  case (TradeClosed f w w' s w'' s')
  then have "sides ct cb w (feed_env f)" by (simp add: feed_inv_def)
  from pair_book [OF pair_trade [OF this TradeClosed(5,2)] TradeClosed(5), of EvCloseBegin w'' s'] TradeClosed close_end_worker [OF TradeClosed(2)]
  show ?case by (auto simp: feed_inv_def)
next
  case (BookClosed f w w' s)
  then have "sides ct cb w (feed_env f)" by (simp add: feed_inv_def)
  from pair_book [OF this BookClosed(4,2)] BookClosed close_end_worker [OF BookClosed(2)] show ?case by (auto simp: feed_inv_def)
qed (auto simp: feed_inv_def)

lemma frun_inv:
  "frun api (log_user tt tb) c es c' \<Longrightarrow> feed_inv fc ct cb [] c \<Longrightarrow> same_dir ct cb \<Longrightarrow> persist fc
     \<Longrightarrow> \<forall>b. FeedStart b \<notin> set es \<Longrightarrow> feed_inv fc ct cb (clocks es) c'"
proof (induction rule: frun.induct)
  case (Continue es c' e c'')
  then have "feed_inv fc ct cb (clocks es) c'" by simp
  from fstep_inv [OF Continue(2) this Continue(5,6)] Continue(7) show ?case by auto
qed simp

section \<open>Starting\<close>

lemma feed_start_opens:
  assumes "feed_start True w (new_feed fc u) = Some (w0, f0)" and "persist fc" and "no_faults w"
  obtains w1 ts bs where "open_writer w new_writer (fc_data_dir fc) kWriterQueueCapacity = (w1, ts, Opened)"
    and "open_writer w1 new_writer (fc_data_dir fc) kWriterQueueCapacity = (w0, bs, Opened)"
    and "f0 = \<lparr>feed_cfg = fc, feed_started = True, feed_pc = FeedServing,
      feed_cm = new_conn \<lparr>env_trade_writer = ts, env_book_writer = bs, env_user = u\<rparr>\<rparr>"
proof -
  obtain w1 ts w2 bs where 1: "open_writer w new_writer (fc_data_dir fc) kWriterQueueCapacity = (w1, ts, Opened)"
    and 2: "open_writer w1 new_writer (fc_data_dir fc) kWriterQueueCapacity = (w2, bs, Opened)"
    by (rule open_pair [OF assms(3), of kWriterQueueCapacity]) simp
  have "w0 = w2 \<and> f0 = \<lparr>feed_cfg = fc, feed_started = True, feed_pc = FeedServing,
      feed_cm = new_conn \<lparr>env_trade_writer = ts, env_book_writer = bs, env_user = u\<rparr>\<rparr>"
    using assms(1,2) 1 2 by (simp add: feed_start_def new_feed_def open_or_report_def new_conn_def
        set_trade_writer_def set_book_writer_def map_env_def)
  then show thesis using that [OF 1] 2 by blast
qed

lemma feed_start_total:
  assumes "no_faults w"
  shows "\<exists>w0 f0. feed_start True w (new_feed fc u) = Some (w0, f0)"
proof -
  obtain w1 ts w2 bs where "open_writer w new_writer (fc_data_dir fc) kWriterQueueCapacity = (w1, ts, Opened)"
    "open_writer w1 new_writer (fc_data_dir fc) kWriterQueueCapacity = (w2, bs, Opened)"
    by (rule open_pair [OF assms, of kWriterQueueCapacity]) simp
  then show ?thesis
    by (simp add: feed_start_def new_feed_def open_or_report_def new_conn_def set_trade_writer_def map_env_def)
qed

lemma feed_start_inv:
  assumes "open_writer w new_writer (fc_data_dir fc) cap = (w1, ts, Opened)"
    and "open_writer w1 new_writer (fc_data_dir fc) cap = (w0, bs, Opened)"
    and "f0 = \<lparr>feed_cfg = fc, feed_started = True, feed_pc = FeedServing,
      feed_cm = new_conn \<lparr>env_trade_writer = ts, env_book_writer = bs, env_user = empty_log\<rparr>\<rparr>"
  shows "feed_inv fc (w1, ts) (w0, bs) [] (w0, f0)" "same_dir (w1, ts) (w0, bs)"
  using opened_pair [OF assms(1,2)]
  by (simp_all add: feed_inv_def assms(3) counted_def logged_def new_conn_def new_metrics_def)

section \<open>Stopping\<close>

lemma frun_trans: "frun api ucb c' fs c'' \<Longrightarrow> frun api ucb c es c' \<Longrightarrow> frun api ucb c (es @ fs) c''"
proof (induction rule: frun.induct)
  case (Continue fs c1 e c2)
  then show ?case using frun.Continue [of api ucb c "es @ fs" c1 e c2] by simp
qed simp

lemma frun_one: "fstep api ucb c e c' \<Longrightarrow> frun api ucb c [e] c'"
  using frun.Continue [OF frun.Begin, of api ucb c e c'] by simp

lemma set_writer_twice [simp]:
  "set_trade_writer s (set_trade_writer s' f) = set_trade_writer s f" "set_trade_writer (feed_trade_writer f) f = f"
  "set_book_writer s (set_book_writer s' f) = set_book_writer s f" "set_book_writer (feed_book_writer f) f = f"
  by (simp_all add: set_trade_writer_def set_book_writer_def map_env_def)

interpretation trade_host: worker_host TradeRecord "fstep api ucb" "frun api ucb" feed_trade_writer set_trade_writer FeedTrade for api ucb
  by unfold_locales (auto intro: frun.intros fstep.TradeWorker)

interpretation book_host: worker_host OrderBookRecord "fstep api ucb" "frun api ucb" feed_book_writer set_book_writer FeedBook for api ucb
  by unfold_locales (auto intro: frun.intros fstep.BookWorker)

lemma feed_stop_run:
  assumes "feed_started f" and "feed_pc f = FeedServing" and "session_inv (feed_trade_writer f)" and "session_inv (feed_book_writer f)"
    and "\<not> closing (feed_trade_writer f)" and "\<not> closing (feed_book_writer f)"
  obtains tes bes wm w' f' where
    "frun api ucb (w, f) ([FeedStop, FeedCmStopped] @ map FeedTrade tes @ [FeedTradeClosed] @ map FeedBook bes @ [FeedBookClosed]) (w', f')"
    and "feed_pc f' = FeedIdle" and "\<not> feed_started f'" and "writer_idle (feed_trade_writer f')" and "writer_idle (feed_book_writer f')"
    and "length tes \<le> work_left (feed_trade_writer f)" and "length bes \<le> work_left (feed_book_writer f)"
    and "wrun TradeRecord (w, feed_trade_writer f) (EvCloseBegin # tes @ [EvCloseEnd]) (wm, feed_trade_writer f')"
    and "wrun OrderBookRecord (wm, feed_book_writer f) (EvCloseBegin # bes @ [EvCloseEnd]) (w', feed_book_writer f')"
    and "accepted tes = []" and "accepted bes = []"
    and "env_user (feed_env f') = env_user (feed_env f)" and "conn_metrics (feed_cm f') = conn_metrics (feed_cm f)"
proof -
  obtain tes w1 s1 w2 s2 where t: "wstep TradeRecord (w, feed_trade_writer f) EvCloseBegin (w, close_begin (feed_trade_writer f))"
    "wrun TradeRecord (w, close_begin (feed_trade_writer f)) tes (w1, s1)" "list_all worker_event tes"
    "length tes \<le> work_left (feed_trade_writer f)" "wstep TradeRecord (w1, s1) EvCloseEnd (w2, s2)" "writer_idle s2"
    "wrun TradeRecord (w, feed_trade_writer f) (EvCloseBegin # tes @ [EvCloseEnd]) (w2, s2)" "accepted tes = []"
    by (rule close_writer_run [OF assms(3,5)])
  obtain bes w3 s3 w4 s4 where b: "wstep OrderBookRecord (w2, feed_book_writer f) EvCloseBegin (w2, close_begin (feed_book_writer f))"
    "wrun OrderBookRecord (w2, close_begin (feed_book_writer f)) bes (w3, s3)" "list_all worker_event bes"
    "length bes \<le> work_left (feed_book_writer f)" "wstep OrderBookRecord (w3, s3) EvCloseEnd (w4, s4)" "writer_idle s4"
    "wrun OrderBookRecord (w2, feed_book_writer f) (EvCloseBegin # bes @ [EvCloseEnd]) (w4, s4)" "accepted bes = []"
    by (rule close_writer_run [OF assms(4,6)])
  define f1 where "f1 = f\<lparr>feed_started := False, feed_pc := FeedStoppingCm\<rparr>"
  define f2 where "f2 = (set_trade_writer (close_begin (feed_trade_writer f)) f1)\<lparr>feed_pc := FeedClosingTrade\<rparr>"
  define f3 where "f3 = set_trade_writer s1 f2"
  define f4 where "f4 = (set_book_writer (close_begin (feed_book_writer f)) (set_trade_writer s2 f3))\<lparr>feed_pc := FeedClosingBook\<rparr>"
  define f5 where "f5 = set_book_writer s3 f4"
  define f6 where "f6 = (set_book_writer s4 f5)\<lparr>feed_pc := FeedIdle\<rparr>"
  have env: "feed_env f1 = feed_env f" "feed_env f2 = feed_env (set_trade_writer (close_begin (feed_trade_writer f)) f1)"
    "feed_env f4 = feed_env (set_book_writer (close_begin (feed_book_writer f)) (set_trade_writer s2 f3))"
    "feed_env f6 = feed_env (set_book_writer s4 f5)"
    by (simp_all add: f1_def f2_def f4_def f6_def)
  have "frun api ucb (w, f) [FeedStop] (w, f1)"
    using frun_one [OF fstep.Stop [of api ucb w f]] assms(1) by (simp add: f1_def)
  moreover have "frun api ucb (w, f1) [FeedCmStopped] (w, f2)"
    unfolding f2_def by (rule frun_one [OF fstep.CmStopped]) (use t(1) in \<open>simp_all add: f1_def\<close>)
  moreover have "frun api ucb (w, f2) (map FeedTrade tes) (w1, f3)"
    using trade_host.worker_run [OF t(2) _ t(3), of w f2] by (simp add: env f3_def)
  moreover have "frun api ucb (w1, f3) [FeedTradeClosed] (w2, f4)"
    unfolding f4_def by (rule frun_one [OF fstep.TradeClosed]) (use t(5) b(1) in \<open>simp_all add: f3_def env, simp_all add: f2_def\<close>)
  moreover have "frun api ucb (w2, f4) (map FeedBook bes) (w3, f5)"
    using book_host.worker_run [OF b(2) _ b(3), of w2 f4] by (simp add: env f5_def)
  moreover have "frun api ucb (w3, f5) [FeedBookClosed] (w4, f6)"
    unfolding f6_def by (rule frun_one [OF fstep.BookClosed]) (use b(5) in \<open>simp_all add: f5_def, simp_all add: f4_def\<close>)
  ultimately have "frun api ucb (w, f) ([FeedStop] @ [FeedCmStopped] @ map FeedTrade tes @ [FeedTradeClosed] @ map FeedBook bes @ [FeedBookClosed]) (w4, f6)"
    by (blast intro: frun_trans)
  moreover have w: "feed_trade_writer f6 = s2" "feed_book_writer f6 = s4" by (simp_all add: env f5_def)
  moreover have "env_user (feed_env f6) = env_user (feed_env f)" by (simp add: env f5_def f3_def)
  moreover have "feed_pc f6 = FeedIdle" by (simp add: f6_def)
  moreover have "conn_metrics (feed_cm f6) = conn_metrics (feed_cm f)" "\<not> feed_started f6"
    by (simp_all add: f6_def f5_def f4_def f3_def f2_def f1_def set_trade_writer_def set_book_writer_def map_env_def)
  ultimately show thesis using that [of tes bes w4 f6 w2] t(4,6,7,8) b(4,6,7,8) by simp
qed

section \<open>The connection manager behind the facade\<close>

fun messages :: "feed_event list \<Rightarrow> (raw_clock \<times> string) list" where
  "messages [] = []"
| "messages (FeedMessage clk msg # es) = (clk, msg) # messages es"
| "messages (e # es) = messages es"

lemma messages_append [simp]: "messages (es @ fs) = messages es @ messages fs"
  by (induction es rule: messages.induct) auto

lemma run_messages_append:
  "run_messages api cfg cbs (ms @ ns) c = run_messages api cfg cbs ms c \<bind> run_messages api cfg cbs ns"
proof (induction ms arbitrary: c)
  case (Cons m ms)
  obtain clk msg where "m = (clk, msg)" by (cases m)
  with Cons show ?case by (cases "on_raw_message api cfg cbs clk msg c") auto
qed simp

lemma facade_view_writers [simp]:
  "facade_view (feed_cm (set_trade_writer s f)) = facade_view (feed_cm f)"
  "facade_view (feed_cm (set_book_writer s f)) = facade_view (feed_cm f)"
  by (simp_all add: set_trade_writer_def set_book_writer_def map_env_def facade_view_def)

lemma feed_start_view:
  "feed_start th w f = Some (w', f') \<Longrightarrow> facade_view (feed_cm f') = facade_view (feed_cm f) \<and> feed_cfg f' = feed_cfg f"
  by (auto simp: feed_start_def split: if_splits bind_splits)

lemma fstep_view:
  assumes "fstep api ucb c e c'"
  shows "feed_cfg (snd c') = feed_cfg (snd c) \<and> run_messages api (internal_config (feed_cfg (snd c))) (direct_callbacks ucb)
    (messages [e]) (facade_view (feed_cm (snd c))) = Some (facade_view (feed_cm (snd c')))"
  using assms
proof (induction rule: fstep.induct)
  case (Message f clk msg c w)
  then show ?case using feed_message_view [of api "internal_config (feed_cfg f)" ucb clk msg "feed_cm f" "persist (feed_cfg f)"]
    by simp
next
  case (Start f threads w w' f')
  then show ?case using feed_start_view by fastforce
qed auto

lemma frun_view:
  "frun api ucb c es c' \<Longrightarrow> feed_cfg (snd c') = feed_cfg (snd c)
     \<and> run_messages api (internal_config (feed_cfg (snd c))) (direct_callbacks ucb) (messages es) (facade_view (feed_cm (snd c)))
       = Some (facade_view (feed_cm (snd c')))"
proof (induction rule: frun.induct)
  case (Continue es c' e c'')
  then show ?case using fstep_view [OF Continue(2)] by (simp add: run_messages_append)
qed simp

section \<open>Properties\<close>

lemma subseq_length_clocks: "length (clocks es) \<le> length es"
proof (induction es)
  case (Cons e es)
  then show ?case by (cases e) auto
qed simp

lemma subseq_subset: "subseq xs ys \<Longrightarrow> set xs \<subseteq> set ys"
  by (induction rule: list_emb.induct) auto

lemma subseq_sorted: "subseq xs ys \<Longrightarrow> sorted (map f ys) \<Longrightarrow> sorted (map f xs)"
proof (induction rule: list_emb.induct)
  case (list_emb_Cons2 x y xs ys)
  then show ?case using subseq_subset [of xs ys] by auto
qed simp_all

text \<open>
  What is on disk after both writers of a session are closed, if everything was written: the
  records of the log, in files that a replay accepts.
\<close>

lemma session_of_log:
  assumes o: "open_writer w new_writer dir cap = (wa, ts, Opened)" "open_writer wa new_writer dir cap = (w0, bs, Opened)"
    and w: "cap < 2 ^ 64" "no_faults w" "distinct_names w dir" "\<forall>k n. own_name k n \<longrightarrow> get_node w dir n = None"
    and s: "pair_inv (wa, ts) (w0, bs) w1 s s' u" "worker s = NoThread" "worker s' = NoThread"
    and l: "logged tss u" "\<forall>ts \<in> set tss. 0 < sint ts \<and> sint ts < end_of_9999_us" "sorted (map sint tss)" "length tss < 2 ^ 64"
    and n: "records_written s = of_nat (length (trade_log u))" "records_written s' = of_nat (length (book_log u))"
  shows "session_files TradeRecord (map trade_bytes (trade_log u)) w1 dir"
    "session_files OrderBookRecord (map orderbook_bytes (book_log u)) w1 dir"
    "sorted (map (rec_recv_ts_us \<circ> trade_bytes) (trade_log u))" "sorted (map (rec_recv_ts_us \<circ> orderbook_bytes) (book_log u))"
    "t \<in> set (trade_log u) \<Longrightarrow> trade_wf t" "b \<in> set (book_log u) \<Longrightarrow> orderbook_wf b"
proof -
  note fa = opened_pair_world(1) [OF o(1) w(2,4)] open_writer_distinct [OF o(1) w(3)] opened_pair_world(2) [OF o(1) w(2,4)]
  have len: "length (trade_log u) < 2 ^ 64" "length (book_log u) < 2 ^ 64"
    using l(1,4) by (auto simp: logged_def dest!: list_emb_length)
  have gt: "\<forall>t \<in> set (trade_log u). trade_wf t \<and> 0 < sint (recv_ts_us t) \<and> sint (recv_ts_us t) < end_of_9999_us"
    and gb: "\<forall>b \<in> set (book_log u). orderbook_wf b \<and> 0 < sint (ob_recv_ts_us b) \<and> sint (ob_recv_ts_us b) < end_of_9999_us"
    using l(1,2) subseq_subset [of "map recv_ts_us (trade_log u)" tss] subseq_subset [of "map ob_recv_ts_us (book_log u)" tss]
    unfolding logged_def by (simp_all add: image_subset_iff)
  show "session_files TradeRecord (map trade_bytes (trade_log u)) w1 dir"
    by (rule side_files [OF o(1) new_writer_idle w(1,2,3)])
      (use w(4) s gt n(1) len(1) in \<open>simp_all add: pair_inv_def good_rec_def recv_trade_bytes\<close>)
  show "session_files OrderBookRecord (map orderbook_bytes (book_log u)) w1 dir"
    by (rule side_files [OF o(2) new_writer_idle w(1) fa(1,2)])
      (use fa(3) s gb n(2) len(2) in \<open>simp_all add: pair_inv_def good_rec_def recv_orderbook_bytes\<close>)
  show "sorted (map (rec_recv_ts_us \<circ> trade_bytes) (trade_log u))" "sorted (map (rec_recv_ts_us \<circ> orderbook_bytes) (book_log u))"
    using l(1) subseq_sorted [OF _ l(3), of "map recv_ts_us (trade_log u)"]
      subseq_sorted [OF _ l(3), of "map ob_recv_ts_us (book_log u)"]
    by (simp_all add: logged_def comp_def recv_trade_bytes recv_orderbook_bytes)
  show "t \<in> set (trade_log u) \<Longrightarrow> trade_wf t" "b \<in> set (book_log u) \<Longrightarrow> orderbook_wf b" using gt gb by simp_all
qed

text \<open>A session of the facade in which everything received was written leaves the log on disk.\<close>

lemma feed_session_files:
  assumes "feed_start True w (new_feed fc empty_log) = Some (w0, f0)" and "persist fc"
    and "no_faults w" and "distinct_names w (fc_data_dir fc)"
    and "\<forall>k n. own_name k n \<longrightarrow> get_node w (fc_data_dir fc) n = None"
    and "frun api (log_user tt tb) (w0, f0) es (w1, f1)" and "\<forall>b. FeedStart b \<notin> set es" and "feed_pc f1 = FeedIdle"
    and "\<forall>ts \<in> set (clocks es). 0 < sint ts \<and> sint ts < end_of_9999_us" and "sorted (map sint (clocks es))"
    and "length es < 2 ^ 64"
    and "trades_written (feed_metrics_snapshot f1) = trades_received (feed_metrics_snapshot f1)"
    and "orderbooks_written (feed_metrics_snapshot f1) = orderbooks_received (feed_metrics_snapshot f1)"
  shows "session_files TradeRecord (map trade_bytes (user_trades f1)) w1 (fc_data_dir fc)"
    "session_files OrderBookRecord (map orderbook_bytes (user_books f1)) w1 (fc_data_dir fc)"
    "sorted (map (rec_recv_ts_us \<circ> trade_bytes) (user_trades f1))" "sorted (map (rec_recv_ts_us \<circ> orderbook_bytes) (user_books f1))"
    "t \<in> set (user_trades f1) \<Longrightarrow> trade_wf t" "b \<in> set (user_books f1) \<Longrightarrow> orderbook_wf b"
    "counted (conn_metrics (feed_cm f1)) (env_user (feed_env f1))" "length (user_trades f1) < 2 ^ 64" "length (user_books f1) < 2 ^ 64"
proof -
  obtain wa ts bs where o: "open_writer w new_writer (fc_data_dir fc) kWriterQueueCapacity = (wa, ts, Opened)"
    "open_writer wa new_writer (fc_data_dir fc) kWriterQueueCapacity = (w0, bs, Opened)"
    and f0: "f0 = \<lparr>feed_cfg = fc, feed_started = True, feed_pc = FeedServing,
      feed_cm = new_conn \<lparr>env_trade_writer = ts, env_book_writer = bs, env_user = empty_log\<rparr>\<rparr>"
    by (rule feed_start_opens [OF assms(1-3)])
  note i0 = feed_start_inv [OF o f0]
  have i: "feed_inv fc (wa, ts) (w0, bs) (clocks es) (w1, f1)" by (rule frun_inv [OF assms(6) i0 assms(2,7)])
  then have l: "logged (clocks es) (env_user (feed_env f1))" and s: "sides (wa, ts) (w0, bs) w1 (feed_env f1)"
    and c: "counted (conn_metrics (feed_cm f1)) (env_user (feed_env f1))"
    and th: "worker (feed_trade_writer f1) = NoThread" "worker (feed_book_writer f1) = NoThread"
    using assms(8) by (simp_all add: feed_inv_def)
  have cl: "length (clocks es) < 2 ^ 64" using assms(11) subseq_length_clocks [of es] by simp
  have cap: "kWriterQueueCapacity < 2 ^ 64" by simp
  have n: "records_written (feed_trade_writer f1) = of_nat (length (user_trades f1))"
    "records_written (feed_book_writer f1) = of_nat (length (user_books f1))"
    using assms(12,13) c by (simp_all add: feed_metrics_snapshot_def counted_def Let_def)
  note f = session_of_log [OF o cap assms(3,4,5) s th l assms(9,10) cl n]
  show "session_files TradeRecord (map trade_bytes (user_trades f1)) w1 (fc_data_dir fc)"
    "session_files OrderBookRecord (map orderbook_bytes (user_books f1)) w1 (fc_data_dir fc)"
    "sorted (map (rec_recv_ts_us \<circ> trade_bytes) (user_trades f1))" "sorted (map (rec_recv_ts_us \<circ> orderbook_bytes) (user_books f1))"
    "t \<in> set (user_trades f1) \<Longrightarrow> trade_wf t" "b \<in> set (user_books f1) \<Longrightarrow> orderbook_wf b"
    using f by simp_all
  show "counted (conn_metrics (feed_cm f1)) (env_user (feed_env f1))" by (rule c)
  show "length (user_trades f1) < 2 ^ 64" "length (user_books f1) < 2 ^ 64"
    using l cl by (auto simp: logged_def dest!: list_emb_length)
qed

text \<open>(C3) From the socket to the replay. Let the facade run with a data directory that holds no hour files yet, under
  any messages, any interleaving of the I/O thread and the two worker threads, and user callbacks
  that may throw, until \<open>stop\<close> has returned; no file call fails and the wall clock does not run
  backwards. If the metrics snapshot says that every trade and every book received was written,
  then a replay of the directory delivers exactly the trades and exactly the books that the
  callbacks were given, in the same order, with their checksums set, and reports completion.
\<close>
theorem feed_end_to_end:
  assumes "feed_start True w (new_feed fc empty_log) = Some (w0, f0)" and "persist fc"
    and "no_faults w" and "distinct_names w (fc_data_dir fc)"
    and "\<forall>k n. own_name k n \<longrightarrow> get_node w (fc_data_dir fc) n = None"
    and "frun api (log_user tt tb) (w0, f0) es (w1, f1)" and "\<forall>b. FeedStart b \<notin> set es" and "feed_pc f1 = FeedIdle"
    and "\<forall>ts \<in> set (clocks es). 0 < sint ts \<and> sint ts < end_of_9999_us" and "sorted (map sint (clocks es))"
    and "length es < 2 ^ 64"
    and "trades_written (feed_metrics_snapshot f1) = trades_received (feed_metrics_snapshot f1)"
    and "orderbooks_written (feed_metrics_snapshot f1) = orderbooks_received (feed_metrics_snapshot f1)"
  shows "(user_trades f1 \<noteq> [] \<longrightarrow> (\<exists>w2 r. replay_trades w1 (fc_data_dir fc) (Some (\<lambda>xs t. (xs @ [t], False))) None None []
        = (w2, map stamped_trade (user_trades f1), r) \<and> completed r \<and> records_replayed r = of_nat (length (user_trades f1))))
    \<and> (user_books f1 \<noteq> [] \<longrightarrow> (\<exists>w2 r. replay_orderbooks w1 (fc_data_dir fc) (Some (\<lambda>xs b. (xs @ [b], False))) None None []
        = (w2, map stamped_book (user_books f1), r) \<and> completed r \<and> records_replayed r = of_nat (length (user_books f1))))"
proof -
  note f = feed_session_files [OF assms]
  have "\<exists>w2 r. replay_trades w1 (fc_data_dir fc) (Some (\<lambda>xs t. (xs @ [t], False))) None None []
        = (w2, map stamped_trade (user_trades f1), r) \<and> completed r \<and> records_replayed r = of_nat (length (user_trades f1))"
    if "user_trades f1 \<noteq> []"
    using side_replay [OF f(1) that f(3), of trade_of_bytes stamped_trade] stamp_trade f(5)
    by (auto simp: replay_trades_def to_public_def new_result_def no_window_def)
  moreover have "\<exists>w2 r. replay_orderbooks w1 (fc_data_dir fc) (Some (\<lambda>xs b. (xs @ [b], False))) None None []
        = (w2, map stamped_book (user_books f1), r) \<and> completed r \<and> records_replayed r = of_nat (length (user_books f1))"
    if "user_books f1 \<noteq> []"
    using side_replay [OF f(2) that f(4), of orderbook_of_bytes stamped_book] stamp_book f(6)
    by (auto simp: replay_orderbooks_def to_public_def new_result_def no_window_def)
  ultimately show ?thesis by blast
qed

text \<open>(C11) The facade adds nothing to and takes nothing from what the user sees. In every interleaving of messages,
  worker threads, \<open>start\<close> and \<open>stop\<close>, with or without a data directory and with callbacks that may
  throw, the gates, the update ids, all metrics and the user's own state are those of a bare
  connection manager that was given the user's callbacks and the same messages.
\<close>
theorem feed_transparent:
  assumes "frun api ucb (w, new_feed fc u) es (w', f')"
  shows "run_messages api (internal_config fc) (direct_callbacks ucb) (messages es) (new_conn u) = Some (facade_view (feed_cm f'))"
proof -
  have "facade_view (feed_cm (new_feed fc u)) = new_conn u" by (simp add: facade_view_def new_feed_def new_conn_def)
  then show ?thesis using frun_view [OF assms] by (simp add: new_feed_def)
qed


section \<open>Witnesses\<close>

text \<open>A feed on the default configuration that is given one trade and stopped.\<close>

abbreviation demo_user :: "bool \<Rightarrow> feed_log user_callbacks" where "demo_user b \<equiv> log_user (\<lambda>_. b) (\<lambda>_. False)"

lemma demo_config_same: "on_raw_message api (internal_config default_feed_config) = on_raw_message api default_config"
proof -
  have "cfg_symbols (internal_config default_feed_config) = cfg_symbols default_config"
    by (simp add: internal_config_def default_feed_config_def default_config_def)
  then have "subscribed (internal_config default_feed_config) = subscribed default_config"
    by (simp add: subscribed_def fun_eq_iff)
  then have "route api (internal_config default_feed_config) = route api default_config"
    by (intro ext) (simp only: route_def)
  then show ?thesis by (simp add: on_raw_message_def dispatch_def fun_eq_iff)
qed

lemma demo_message:
  assumes "env_trade_writer e = ts" and "env_user e = empty_log"
  shows "\<exists>c t. on_raw_message demo_api (internal_config default_feed_config) (feed_callbacks True (demo_user b)) demo_clock ''t1'' (new_conn e) = Some c
    \<and> user c = e\<lparr>env_trade_writer := fst (write_record ts (trade_bytes t)), env_user := empty_log\<lparr>trade_log := [t]\<rparr>\<rparr>
    \<and> trade_wf t \<and> recv_ts_us t = 1700000000000000 \<and> tid t = 1"
proof -
  obtain c where c: "run_messages demo_api default_config (feed_callbacks True (demo_user b)) [(demo_clock, ''t1'')] (new_conn e) = Some c"
    using run_messages_total [of "[(demo_clock, ''t1'')]" demo_api default_config "new_conn e" "feed_callbacks True (demo_user b)"]
      demo_runs [of "[(demo_clock, ''t1'')]"] new_conn_safe by fastforce
  then have m: "on_raw_message demo_api default_config (feed_callbacks True (demo_user b)) demo_clock ''t1'' (new_conn e) = Some c"
    by (cases "on_raw_message demo_api default_config (feed_callbacks True (demo_user b)) demo_clock ''t1'' (new_conn e)") auto
  have v: "facade_view (new_conn e) = new_conn empty_log" using assms by (simp add: facade_view_def new_conn_def)
  then have "on_raw_message demo_api default_config (log_callbacks (\<lambda>_. b) (\<lambda>_. False)) demo_clock ''t1'' (new_conn empty_log) = Some (facade_view c)"
    using feed_message_view [of demo_api default_config "demo_user b" demo_clock "''t1''" "new_conn e" True] m by simp
  then have log: "\<exists>t. env_user (user c) = empty_log\<lparr>trade_log := [t]\<rparr> \<and> tid t = 1"
  proof (cases rule: message_step)
    case (trade n t g r)
    then have "tid t = 1" using demo_trades(4) by auto
    moreover have "action r = Accept" using trade(3) calculation by (auto simp: gate_of_def new_conn_def on_live_trade_def new_gate_def)
    ultimately show ?thesis using trade(6) by (simp add: log_trade_def facade_view_def new_conn_def stamp_recv_def)
  qed (use demo_trades(4) in \<open>auto simp: facade_view_def\<close>)
  have u: "user (new_conn e) = e" by (simp add: new_conn_def)
  from m show ?thesis
  proof (cases rule: message_user)
    case (trade t mm)
    then show ?thesis using m log assms
      by (intro exI [of _ c] exI [of _ t]) (auto simp: demo_config_same u feed_trade_effect demo_clock_def)
  qed (use log assms in \<open>auto simp: u feed_book_effect\<close>)
qed

lemma one_trade_written:
  assumes "open_writer (empty_world (\<lambda>_ _. None)) new_writer dir kWriterQueueCapacity = (wa, ts, Opened)"
    and "open_writer wa new_writer dir kWriterQueueCapacity = (w0, bs, Opened)" and "trade_wf t" and "recv_ts_us t = 1700000000000000"
    and "wrun TradeRecord (w0, fst (write_record ts (trade_bytes t))) (EvCloseBegin # tes @ [EvCloseEnd]) (wm, s1)"
    and "wrun OrderBookRecord (wm, bs) (EvCloseBegin # bes @ [EvCloseEnd]) (w1, s2)" and "accepted tes = []" and "accepted bes = []"
    and "writer_idle s1" and "writer_idle s2"
  shows "records_written s1 = 1" "records_written s2 = 0"
proof -
  note p = opened_pair [OF assms(1,2)] and wa = opened_pair_world [OF assms(1) empty_world_facts(1)]
  note d = open_writer_opened(4) [OF assms(1) new_writer_idle] open_writer_opened(4) [OF assms(2) new_writer_idle] pair_dir [OF p(2,1)]
  have cap: "kWriterQueueCapacity < 2 ^ 64" by simp
  obtain a where tr: "srun TradeRecord (wa, ts) [EvWrite (trade_bytes t) a True] (w0, fst (write_record ts (trade_bytes t)))"
    using srun_put [OF p(3), of "trade_bytes t"] opened_write [OF assms(1), of "trade_bytes t"] by auto
  have "others TradeRecord dir w0 w0" by (simp add: others_def)
  from closed_written [OF assms(1) cap empty_world_facts(1) _ tr _ this assms(5,7,9)] show "records_written s1 = 1"
    using assms(3,4) empty_world_facts(3) by (simp add: good_rec_def recv_trade_bytes)
  have "others OrderBookRecord dir w0 wm" using closing_others [OF assms(5), of OrderBookRecord] d by simp
  from closed_written [OF assms(2) cap wa(1) _ srun.Start _ this assms(6,8,10)] show "records_written s2 = 0"
    using wa(2) empty_world_facts(3) by simp
qed

text \<open>The whole session: the run, what the user saw, and what the snapshot says.\<close>

lemma demo_feed_run:
  obtains w0 f0 es w1 f1 t where
    "feed_start True (empty_world (\<lambda>_ _. None)) (new_feed default_feed_config empty_log) = Some (w0, f0)"
    and "frun demo_api (demo_user b) (w0, f0) es (w1, f1)" and "\<forall>b. FeedStart b \<notin> set es" and "feed_pc f1 = FeedIdle"
    and "clocks es = [1700000000000000]" and "messages es = [(demo_clock, ''t1'')]" and "length es < 2 ^ 64" and "user_trades f1 = [t]" and "tid t = 1" and "user_books f1 = []"
    and "trades_written (feed_metrics_snapshot f1) = trades_received (feed_metrics_snapshot f1)"
    and "orderbooks_written (feed_metrics_snapshot f1) = orderbooks_received (feed_metrics_snapshot f1)"
proof -
  let ?w = "empty_world (\<lambda>_ _. None)" and ?d = "fc_data_dir default_feed_config"
  have p: "persist default_feed_config" by (simp add: persist_def default_feed_config_def)
  obtain w0 f0 where st: "feed_start True ?w (new_feed default_feed_config empty_log) = Some (w0, f0)" using feed_start_total [OF empty_world_facts(1), of default_feed_config empty_log] by blast
  obtain wa ts bs where o: "open_writer ?w new_writer ?d kWriterQueueCapacity = (wa, ts, Opened)"
    "open_writer wa new_writer ?d kWriterQueueCapacity = (w0, bs, Opened)"
    and f0: "f0 = \<lparr>feed_cfg = default_feed_config, feed_started = True, feed_pc = FeedServing,
      feed_cm = new_conn \<lparr>env_trade_writer = ts, env_book_writer = bs, env_user = empty_log\<rparr>\<rparr>"
    by (rule feed_start_opens [OF st p empty_world_facts(1)])
  obtain c t where c: "on_raw_message demo_api (internal_config default_feed_config) (feed_callbacks True (demo_user b)) demo_clock ''t1'' (feed_cm f0) = Some c"
    and u: "user c = \<lparr>env_trade_writer = fst (write_record ts (trade_bytes t)), env_book_writer = bs, env_user = empty_log\<lparr>trade_log := [t]\<rparr>\<rparr>"
    and t: "trade_wf t" "recv_ts_us t = 1700000000000000" "tid t = 1"
    using demo_message [of "\<lparr>env_trade_writer = ts, env_book_writer = bs, env_user = empty_log\<rparr>" ts b] f0 by auto
  define f where "f = f0\<lparr>feed_cm := c\<rparr>"
  have m: "frun demo_api (demo_user b) (w0, f0) [FeedMessage demo_clock ''t1''] (w0, f)"
    unfolding f_def by (rule frun_one [OF fstep.Message]) (use c p f0 in simp_all)
  have s: "feed_trade_writer f = fst (write_record ts (trade_bytes t))" "feed_book_writer f = bs" by (simp_all add: f_def u)
  have i: "session_inv (feed_trade_writer f)" "session_inv (feed_book_writer f)" "\<not> closing (feed_trade_writer f)" "\<not> closing (feed_book_writer f)"
    using opened_write [OF o(1), of "trade_bytes t"] opened_session_inv [OF o(2) new_writer_idle] open_writer_opened(12) [OF o(2) new_writer_idle]
    by (simp_all add: s)
  have on: "feed_started f" "feed_pc f = FeedServing" by (simp_all add: f_def f0)
  obtain tes bes wm w1 f1 where r: "frun demo_api (demo_user b) (w0, f) ([FeedStop, FeedCmStopped] @ map FeedTrade tes @ [FeedTradeClosed]
      @ map FeedBook bes @ [FeedBookClosed]) (w1, f1)" "feed_pc f1 = FeedIdle" "writer_idle (feed_trade_writer f1)" "writer_idle (feed_book_writer f1)"
    "length tes \<le> work_left (feed_trade_writer f)" "length bes \<le> work_left (feed_book_writer f)"
    "wrun TradeRecord (w0, feed_trade_writer f) (EvCloseBegin # tes @ [EvCloseEnd]) (wm, feed_trade_writer f1)"
    "wrun OrderBookRecord (wm, feed_book_writer f) (EvCloseBegin # bes @ [EvCloseEnd]) (w1, feed_book_writer f1)"
    "accepted tes = []" "accepted bes = []" "env_user (feed_env f1) = env_user (feed_env f)" "conn_metrics (feed_cm f1) = conn_metrics (feed_cm f)"
    by (rule feed_stop_run [OF on i])
  let ?es = "[FeedMessage demo_clock ''t1''] @ [FeedStop, FeedCmStopped] @ map FeedTrade tes @ [FeedTradeClosed] @ map FeedBook bes @ [FeedBookClosed]"
  have run: "frun demo_api (demo_user b) (w0, f0) ?es (w1, f1)" by (rule frun_trans [OF r(1) m])
  have user: "env_user (feed_env f1) = empty_log\<lparr>trade_log := [t]\<rparr>" using r(11) by (simp add: f_def u)
  have "counted (conn_metrics c) (env_user (user c))"
    by (rule feed_message_counted [OF c]) (simp add: f0 counted_def new_conn_def new_metrics_def)
  then have cnt: "trades_parsed (conn_metrics (feed_cm f1)) = 1" "orderbooks_parsed (conn_metrics (feed_cm f1)) = 0"
    using r(12) by (simp_all add: counted_def u f_def)
  have "records_written (feed_trade_writer f1) = 1" "records_written (feed_book_writer f1) = 0"
    by (rule one_trade_written [OF o t(1,2) r(7,8) [unfolded s] r(9,10,3,4)])+
  moreover have "clocks (map FeedTrade xs) = []" "clocks (map FeedBook xs) = []" "messages (map FeedTrade xs) = []"
    "messages (map FeedBook xs) = []" for xs by (induction xs) simp_all
  moreover have "length ?es \<le> 5 + work_left (feed_trade_writer f) + work_left (feed_book_writer f)" using r(5,6) by simp
  moreover have "work_left (feed_trade_writer f) \<le> 4" "work_left (feed_book_writer f) \<le> 2"
    using open_writer_opened(1,2) [OF o(1) new_writer_idle] open_writer_opened(1,2) [OF o(2) new_writer_idle]
    by (simp_all add: s work_left_def write_record_def Let_def)
  ultimately have fin: "length ?es < 2 ^ 64" "clocks ?es = [1700000000000000]" "messages ?es = [(demo_clock, ''t1'')]"
    "trades_written (feed_metrics_snapshot f1) = trades_received (feed_metrics_snapshot f1)"
    "orderbooks_written (feed_metrics_snapshot f1) = orderbooks_received (feed_metrics_snapshot f1)"
    using cnt by (simp_all add: demo_clock_def feed_metrics_snapshot_def Let_def)
  have "\<forall>b. FeedStart b \<notin> set ?es" by auto
  then show thesis by (rule that [OF st run _ r(2) fin(2,3,1) _ t(3) _ fin(4,5)]) (simp_all add: user)
qed

theorem feed_end_to_end_witness:
  "\<exists>w0 f0 es w1 f1 t w2 r. feed_start True (empty_world (\<lambda>_ _. None)) (new_feed default_feed_config empty_log) = Some (w0, f0)
     \<and> frun demo_api (demo_user True) (w0, f0) es (w1, f1) \<and> user_trades f1 = [t] \<and> tid t = 1
     \<and> replay_trades w1 ''./data'' (Some (\<lambda>xs t. (xs @ [t], False))) None None [] = (w2, [stamped_trade t], r) \<and> completed r"
proof -
  obtain w0 f0 es w1 f1 t where *: "feed_start True (empty_world (\<lambda>_ _. None)) (new_feed default_feed_config empty_log) = Some (w0, f0)"
    "frun demo_api (demo_user True) (w0, f0) es (w1, f1)" "\<forall>b. FeedStart b \<notin> set es" "feed_pc f1 = FeedIdle"
    "clocks es = [1700000000000000]" "messages es = [(demo_clock, ''t1'')]" "length es < 2 ^ 64" "user_trades f1 = [t]" "tid t = 1" "user_books f1 = []"
    "trades_written (feed_metrics_snapshot f1) = trades_received (feed_metrics_snapshot f1)"
    "orderbooks_written (feed_metrics_snapshot f1) = orderbooks_received (feed_metrics_snapshot f1)" by (rule demo_feed_run)
  have d: "persist default_feed_config" "fc_data_dir default_feed_config = ''./data''" by (simp_all add: persist_def default_feed_config_def)
  have "(user_trades f1 \<noteq> [] \<longrightarrow> (\<exists>w2 r. replay_trades w1 (fc_data_dir default_feed_config) (Some (\<lambda>xs t. (xs @ [t], False))) None None []
        = (w2, map stamped_trade (user_trades f1), r) \<and> completed r \<and> records_replayed r = of_nat (length (user_trades f1))))"
    using feed_end_to_end [OF *(1) d(1) empty_world_facts(1,2) _ *(2,3,4) _ _ *(7,11,12)] *(5) empty_world_facts(3) by simp
  then obtain w2 r where "replay_trades w1 ''./data'' (Some (\<lambda>xs t. (xs @ [t], False))) None None [] = (w2, [stamped_trade t], r)"
    "completed r" using *(8) d(2) by auto
  with *(1,2,8,9) show ?thesis by blast
qed

theorem feed_transparent_witness:
  "\<exists>es w' f'. frun demo_api (demo_user True) (empty_world (\<lambda>_ _. None), new_feed default_feed_config empty_log) es (w', f')
     \<and> length (messages es) = 1 \<and> run_messages demo_api (internal_config default_feed_config) (direct_callbacks (demo_user True)) (messages es)
       (new_conn empty_log) = Some (facade_view (feed_cm f'))"
proof -
  let ?w = "empty_world (\<lambda>_ _. None)" and ?f = "new_feed default_feed_config empty_log"
  obtain w0 f0 es w1 f1 t where *: "feed_start True ?w ?f = Some (w0, f0)" "frun demo_api (demo_user True) (w0, f0) es (w1, f1)"
    "messages es = [(demo_clock, ''t1'')]" by (rule demo_feed_run)
  have "fstep demo_api (demo_user True) (?w, ?f) (FeedStart True) (w0, f0)"
    by (rule fstep.Start) (use *(1) in \<open>simp_all add: new_feed_def\<close>)
  then have run: "frun demo_api (demo_user True) (?w, ?f) ([FeedStart True] @ es) (w1, f1)" using frun_trans [OF *(2) frun_one] by blast
  show ?thesis
    using run feed_transparent [OF run] *(3) by (intro exI [of _ "[FeedStart True] @ es"] exI [of _ w1] exI [of _ f1]) simp
qed


end
