(* ===== verification/Reporter.thy ===== *)
theory Reporter
  imports Metrics Record_Writer
begin

text \<open>
  The reporting thread of the live mode in \<^verbatim>\<open>src/main.cpp\<close>: \<^verbatim>\<open>reporter_loop\<close>,
  \<^verbatim>\<open>collect_and_reset\<close> and \<^verbatim>\<open>print_latency_report\<close>. A tick is one second of the loop; what it
  prints is a list of labelled values. Between two ticks the other threads change the metrics,
  which a run describes by a function, and the writers. Resetting a histogram is atomic here.
\<close>

section \<open>Latency reports\<close>

record latency_report =
  rep_trade :: hist_snapshot
  rep_recv_to_app :: hist_snapshot
  rep_pipeline :: hist_snapshot
  rep_json_parse :: hist_snapshot
  rep_biz_parse :: hist_snapshot
  rep_callback :: hist_snapshot

datatype field = FU u64 | FI i64 | FP u64 u64 | FB bool

datatype out_line = Metrics_Line "(string \<times> field) list" | Latency_Line string string hist_snapshot

definition print_latency_report :: "latency_report \<Rightarrow> out_line list" where
  "print_latency_report r =
     [Latency_Line ''[LATENCY_EXT]'' ''exchange_to_recv'' (rep_trade r),
      Latency_Line ''[LATENCY_INT]'' ''recv_to_app'' (rep_recv_to_app r),
      Latency_Line ''[LATENCY_INT]'' ''pipeline'' (rep_pipeline r),
      Latency_Line ''[LATENCY_SEG]'' ''json_parse'' (rep_json_parse r),
      Latency_Line ''[LATENCY_SEG]'' ''biz_parse'' (rep_biz_parse r),
      Latency_Line ''[LATENCY_SEG]'' ''callback'' (rep_callback r)]"

definition collect_and_reset :: "metrics \<Rightarrow> metrics \<times> latency_report" where
  "collect_and_reset m =
     (m\<lparr>trade_latency := fst (snapshot_and_reset (trade_latency m)),
        recv_to_app_latency := fst (snapshot_and_reset (recv_to_app_latency m)),
        pipeline_latency := fst (snapshot_and_reset (pipeline_latency m)),
        json_parse_latency := fst (snapshot_and_reset (json_parse_latency m)),
        biz_parse_latency := fst (snapshot_and_reset (biz_parse_latency m)),
        callback_latency := fst (snapshot_and_reset (callback_latency m))\<rparr>,
      \<lparr>rep_trade = snd (snapshot_and_reset (trade_latency m)),
       rep_recv_to_app = snd (snapshot_and_reset (recv_to_app_latency m)),
       rep_pipeline = snd (snapshot_and_reset (pipeline_latency m)),
       rep_json_parse = snd (snapshot_and_reset (json_parse_latency m)),
       rep_biz_parse = snd (snapshot_and_reset (biz_parse_latency m)),
       rep_callback = snd (snapshot_and_reset (callback_latency m))\<rparr>)"

section \<open>The loop\<close>

record reporter =
  prev_msgs :: u64
  prev_trades :: u64
  prev_books :: u64
  prev_parse_err :: u64
  prev_cb_err :: u64
  prev_trade_written :: u64
  prev_trade_dropped :: u64
  prev_book_written :: u64
  prev_book_dropped :: u64
  prev_over_500 :: u64
  prev_over_1000 :: u64
  prev_gap :: u64
  prev_dup :: u64
  prev_book_rollback :: u64
  seconds_tick :: u64

definition new_reporter :: reporter where
  "new_reporter = \<lparr>prev_msgs = 0, prev_trades = 0, prev_books = 0, prev_parse_err = 0, prev_cb_err = 0,
     prev_trade_written = 0, prev_trade_dropped = 0, prev_book_written = 0, prev_book_dropped = 0,
     prev_over_500 = 0, prev_over_1000 = 0, prev_gap = 0, prev_dup = 0, prev_book_rollback = 0, seconds_tick = 0\<rparr>"

abbreviation kLatencyReportIntervalSeconds :: u64 where "kLatencyReportIntervalSeconds \<equiv> 30"

definition avg :: "u64 \<Rightarrow> u64 \<Rightarrow> u64" where
  "avg samples tot = (if samples \<noteq> 0 then tot div samples else 0)"

definition metrics_line :: "metrics \<Rightarrow> writer \<Rightarrow> writer \<Rightarrow> reporter \<Rightarrow> (string \<times> field) list" where
  "metrics_line m tw bw r =
     [(''msgs/s'', FU (msgs_recv m - prev_msgs r)), (''trades/s'', FU (trades_parsed m - prev_trades r)),
      (''books/s'', FU (orderbooks_parsed m - prev_books r)),
      (''trade_written/s'', FU (records_written tw - prev_trade_written r)),
      (''trade_dropped/s'', FU (records_dropped tw - prev_trade_dropped r)),
      (''book_written/s'', FU (records_written bw - prev_book_written r)),
      (''book_dropped/s'', FU (records_dropped bw - prev_book_dropped r)),
      (''parse_err/s'', FU (parse_errors m - prev_parse_err r)), (''cb_err/s'', FU (callback_errors m - prev_cb_err r)),
      (''gap/s'', FU (gap_count m - prev_gap r)), (''dup/s'', FU (duplicate_count m - prev_dup r)),
      (''book_rollback/s'', FU (orderbook_id_rollback_count m - prev_book_rollback r)),
      (''over500us/s'', FU (pipeline_over_500us m - prev_over_500 r)),
      (''over1000us/s'', FU (pipeline_over_1000us m - prev_over_1000 r)),
      (''clock_anomaly'', FU (clock_anomaly_count m)), (''clock_ready'', FU (clock_offset_ready m)),
      (''clock_offset_us'', FI (clock_offset_us m)), (''clock_rtt_us'', FU (clock_sync_rtt_us m)),
      (''clock_sync_fail'', FU (clock_sync_fail m)), (''ext_neg_drop'', FU (ext_latency_negative_drop m)),
      (''| conn'', FP (connect_successes m) (connect_attempts m)),
      (''conn_ms(avg/max)'', FP (avg (connect_duration_samples m) (connect_duration_ms_total m)) (connect_duration_ms_max m)),
      (''trade_enqueue_us(avg/max)'', FP (avg (trade_enqueue_samples m) (trade_enqueue_us_total m)) (trade_enqueue_us_max m)),
      (''book_enqueue_us(avg/max)'', FP (avg (orderbook_enqueue_samples m) (orderbook_enqueue_us_total m)) (orderbook_enqueue_us_max m)),
      (''trade_q(depth/max)'', FP (queue_depth_current tw) (queue_depth_max tw)),
      (''book_q(depth/max)'', FP (queue_depth_current bw) (queue_depth_max bw)),
      (''trade_writer_error'', FB (write_error tw)), (''book_writer_error'', FB (write_error bw)),
      (''| total: msgs'', FU (msgs_recv m)), (''trades'', FU (trades_parsed m)), (''books'', FU (orderbooks_parsed m)),
      (''gap'', FU (gap_count m)), (''dup'', FU (duplicate_count m)), (''missing'', FU (missing_records m)),
      (''recovering'', FU (recovering_symbols m)), (''book_rollback'', FU (orderbook_id_rollback_count m)),
      (''trade_written'', FU (records_written tw)), (''trade_dropped'', FU (records_dropped tw)),
      (''book_written'', FU (records_written bw)), (''book_dropped'', FU (records_dropped bw))]"

definition remember :: "metrics \<Rightarrow> writer \<Rightarrow> writer \<Rightarrow> reporter \<Rightarrow> reporter" where
  "remember m tw bw r = r\<lparr>prev_msgs := msgs_recv m, prev_trades := trades_parsed m, prev_books := orderbooks_parsed m,
     prev_parse_err := parse_errors m, prev_cb_err := callback_errors m, prev_over_500 := pipeline_over_500us m,
     prev_over_1000 := pipeline_over_1000us m, prev_gap := gap_count m, prev_dup := duplicate_count m,
     prev_book_rollback := orderbook_id_rollback_count m, prev_trade_written := records_written tw,
     prev_trade_dropped := records_dropped tw, prev_book_written := records_written bw, prev_book_dropped := records_dropped bw\<rparr>"

definition reporter_tick :: "metrics \<Rightarrow> writer \<Rightarrow> writer \<Rightarrow> reporter \<Rightarrow> metrics \<times> reporter \<times> out_line list" where
  "reporter_tick m tw bw r0 =
     (let r = r0\<lparr>seconds_tick := seconds_tick r0 + 1\<rparr>;
          line = Metrics_Line (metrics_line m tw bw r)
      in if seconds_tick r mod kLatencyReportIntervalSeconds = 0
         then (case collect_and_reset m of (m', rep) \<Rightarrow> (m', remember m tw bw r, line # print_latency_report rep))
         else (m, remember m tw bw r, [line]))"

text \<open>The flush behind the loop.\<close>

definition reporter_exit :: "metrics \<Rightarrow> metrics \<times> out_line list" where
  "reporter_exit m = (case collect_and_reset m of (m', rep) \<Rightarrow>
     (m', if snap_count (rep_trade rep) > 0 \<or> snap_count (rep_recv_to_app rep) > 0 \<or> snap_count (rep_pipeline rep) > 0
            \<or> snap_count (rep_json_parse rep) > 0 \<or> snap_count (rep_biz_parse rep) > 0 \<or> snap_count (rep_callback rep) > 0
          then print_latency_report rep else []))"

text \<open>A step of a run: what the other threads did to the metrics, and the writers at the tick.\<close>

type_synonym report_step = "(metrics \<Rightarrow> metrics) \<times> writer \<times> writer"

fun reporter_loop :: "report_step list \<Rightarrow> metrics \<Rightarrow> reporter \<Rightarrow> metrics \<times> reporter \<times> out_line list" where
  "reporter_loop [] m r = (m, r, [])"
| "reporter_loop ((g, tw, bw) # steps) m r = (case reporter_tick (g m) tw bw r of
     (m1, r1, out) \<Rightarrow> (case reporter_loop steps m1 r1 of (m2, r2, out2) \<Rightarrow> (m2, r2, out @ out2)))"

section \<open>Rates\<close>

fun rate :: "string \<Rightarrow> out_line \<Rightarrow> u64" where
  "rate k (Metrics_Line fs) = (case map_of fs k of Some (FU v) \<Rightarrow> v | _ \<Rightarrow> 0)"
| "rate k (Latency_Line _ _ _) = 0"

definition sum_rates :: "string \<Rightarrow> out_line list \<Rightarrow> u64" where
  "sum_rates k out = sum_list (map (rate k) out)"

text \<open>The labels of the rates, what the loop remembers for each, and the counter behind it.\<close>

definition rate_table :: "(string \<times> (reporter \<Rightarrow> u64) \<times> (metrics \<Rightarrow> writer \<Rightarrow> writer \<Rightarrow> u64)) list" where
  "rate_table = [(''msgs/s'', prev_msgs, \<lambda>m tw bw. msgs_recv m), (''trades/s'', prev_trades, \<lambda>m tw bw. trades_parsed m),
     (''books/s'', prev_books, \<lambda>m tw bw. orderbooks_parsed m),
     (''trade_written/s'', prev_trade_written, \<lambda>m tw bw. records_written tw),
     (''trade_dropped/s'', prev_trade_dropped, \<lambda>m tw bw. records_dropped tw),
     (''book_written/s'', prev_book_written, \<lambda>m tw bw. records_written bw),
     (''book_dropped/s'', prev_book_dropped, \<lambda>m tw bw. records_dropped bw),
     (''parse_err/s'', prev_parse_err, \<lambda>m tw bw. parse_errors m), (''cb_err/s'', prev_cb_err, \<lambda>m tw bw. callback_errors m),
     (''gap/s'', prev_gap, \<lambda>m tw bw. gap_count m), (''dup/s'', prev_dup, \<lambda>m tw bw. duplicate_count m),
     (''book_rollback/s'', prev_book_rollback, \<lambda>m tw bw. orderbook_id_rollback_count m),
     (''over500us/s'', prev_over_500, \<lambda>m tw bw. pipeline_over_500us m),
     (''over1000us/s'', prev_over_1000, \<lambda>m tw bw. pipeline_over_1000us m)]"

lemma sum_rates_simps [simp]:
  "sum_rates k [] = 0" "sum_rates k (l # out) = rate k l + sum_rates k out"
  "sum_rates k (out @ out') = sum_rates k out + sum_rates k out'"
  by (simp_all add: sum_rates_def)

lemma sum_rates_latency [simp]: "sum_rates k (print_latency_report rep) = 0"
  by (simp add: print_latency_report_def)

lemma line_rates:
  "list_all (\<lambda>(k, sel, cnt). rate k (Metrics_Line (metrics_line m tw bw r)) = sel (remember m tw bw r) - sel r) rate_table"
  by (simp add: rate_table_def metrics_line_def remember_def)

lemma tick_rates:
  assumes "reporter_tick m tw bw r = (m', r', out)" and "(k, sel, cnt) \<in> set rate_table"
  shows "sum_rates k out = sel r' - sel r"
proof -
  let ?r = "r\<lparr>seconds_tick := seconds_tick r + 1\<rparr>"
  have "rate k (Metrics_Line (metrics_line m tw bw ?r)) = sel (remember m tw bw ?r) - sel ?r"
    using line_rates [of m tw bw ?r] assms(2) by (auto simp: list_all_iff)
  moreover have "sel ?r = sel r" using assms(2) by (auto simp: rate_table_def)
  ultimately show ?thesis using assms(1) by (auto simp: reporter_tick_def Let_def split: if_splits prod.splits)
qed

lemma loop_rates:
  "reporter_loop steps m r = (m', r', out) \<Longrightarrow> (k, sel, cnt) \<in> set rate_table \<Longrightarrow> sum_rates k out = sel r' - sel r"
proof (induction steps arbitrary: m r m' r' out)
  case (Cons s steps)
  obtain g tw bw where s: "s = (g, tw, bw)" by (cases s)
  obtain m1 r1 o1 where t: "reporter_tick (g m) tw bw r = (m1, r1, o1)" by (metis prod_cases3)
  obtain m2 r2 o2 where l: "reporter_loop steps m1 r1 = (m2, r2, o2)" by (metis prod_cases3)
  have "m' = m2" "r' = r2" "out = o1 @ o2" using Cons.prems(1) s t l by simp_all
  then show ?case using tick_rates [OF t Cons.prems(2)] Cons.IH [OF l Cons.prems(2)] by simp
qed simp

lemma collect_counters:
  "collect_and_reset m = (m', rep) \<Longrightarrow> (k, sel, cnt) \<in> set rate_table \<Longrightarrow> cnt m' tw bw = cnt m tw bw"
  by (auto simp: rate_table_def collect_and_reset_def)

lemma tick_remembers:
  assumes "reporter_tick m tw bw r = (m', r', out)" and "(k, sel, cnt) \<in> set rate_table"
  shows "sel r' = cnt m' tw bw"
proof -
  let ?r = "r\<lparr>seconds_tick := seconds_tick r + 1\<rparr>"
  have "list_all (\<lambda>(k, sel, cnt). sel (remember m tw bw ?r) = cnt m tw bw) rate_table"
    by (simp add: rate_table_def remember_def)
  then have "sel (remember m tw bw ?r) = cnt m tw bw" using assms(2) by (auto simp: list_all_iff)
  then show ?thesis using assms collect_counters
    by (fastforce simp: reporter_tick_def Let_def split: if_splits prod.splits)
qed

lemma loop_remembers:
  "reporter_loop (steps @ [(g, tw, bw)]) m r = (m', r', out) \<Longrightarrow> (k, sel, cnt) \<in> set rate_table \<Longrightarrow> sel r' = cnt m' tw bw"
  by (induction steps arbitrary: m r out) (auto split: prod.splits dest: tick_remembers)

section \<open>Samples\<close>

fun reported :: "string \<Rightarrow> out_line list \<Rightarrow> u64" where
  "reported seg [] = 0"
| "reported seg (Latency_Line tag seg' s # out) = (if seg' = seg then snap_count s else 0) + reported seg out"
| "reported seg (Metrics_Line fs # out) = reported seg out"

lemma reported_append [simp]: "reported seg (out @ out') = reported seg out + reported seg out'"
  by (induction seg out rule: reported.induct) simp_all

definition hist_table :: "(string \<times> (metrics \<Rightarrow> histogram)) list" where
  "hist_table = [(''exchange_to_recv'', trade_latency), (''recv_to_app'', recv_to_app_latency),
     (''pipeline'', pipeline_latency), (''json_parse'', json_parse_latency), (''biz_parse'', biz_parse_latency),
     (''callback'', callback_latency)]"

lemma reset_empty: "fst (snapshot_and_reset h) = new_histogram"
  by (simp add: snapshot_and_reset_def new_histogram_def Let_def)

lemma snapshot_count: "length xs < 2 ^ 64 \<Longrightarrow> snap_count (snd (snapshot_and_reset (recorded xs))) = of_nat (length xs)"
  using recorded_total [of xs] by (simp add: snapshot_and_reset_def Let_def)

lemma collect_table:
  "list_all (\<lambda>(seg, sel). sel (fst (collect_and_reset m)) = new_histogram
     \<and> reported seg (print_latency_report (snd (collect_and_reset m))) = snap_count (snd (snapshot_and_reset (sel m)))) hist_table"
  by (simp add: hist_table_def collect_and_reset_def reset_empty print_latency_report_def)

lemma collect_reports:
  assumes "(seg, sel) \<in> set hist_table" and "collect_and_reset m = (m', rep)"
  shows "sel m' = new_histogram" "reported seg (print_latency_report rep) = snap_count (snd (snapshot_and_reset (sel m)))"
  using collect_table [of m] assms by (auto simp: list_all_iff)

lemma tick_samples:
  assumes "reporter_tick m tw bw r = (m', r', out)" and "(seg, sel) \<in> set hist_table" and "sel m = recorded pend"
    and "length pend < 2 ^ 64"
  shows "\<exists>pend'. sel m' = recorded pend' \<and> reported seg out + of_nat (length pend') = of_nat (length pend) \<and> length pend' \<le> length pend"
proof (cases "seconds_tick (r\<lparr>seconds_tick := seconds_tick r + 1\<rparr>) mod kLatencyReportIntervalSeconds = 0")
  case True
  obtain m1 rep where c: "collect_and_reset m = (m1, rep)" by force
  then have "m' = m1" "reported seg out = reported seg (print_latency_report rep)"
    using assms(1) True by (auto simp: reporter_tick_def Let_def)
  then show ?thesis using collect_reports [OF assms(2) c] snapshot_count [OF assms(4)] assms(3)
    by (intro exI [of _ "[]"]) (simp add: recorded_def)
next
  case False
  then have "m' = m" "reported seg out = 0" using assms(1) by (auto simp: reporter_tick_def Let_def)
  then show ?thesis using assms(3) by (intro exI [of _ pend]) simp
qed

text \<open>The samples that the other threads record between the ticks.\<close>

definition records :: "(metrics \<Rightarrow> histogram) \<Rightarrow> (metrics \<Rightarrow> metrics) \<Rightarrow> u64 list \<Rightarrow> bool" where
  "records sel g xs \<longleftrightarrow> (\<forall>m. sel (g m) = foldl hist_record (sel m) xs)"

lemma records_recorded: "records sel g xs \<Longrightarrow> sel m = recorded ys \<Longrightarrow> sel (g m) = recorded (ys @ xs)"
  by (simp add: records_def recorded_def)

lemma loop_samples:
  "reporter_loop steps m r = (m', r', out) \<Longrightarrow> (seg, sel) \<in> set hist_table \<Longrightarrow> sel m = recorded pend
   \<Longrightarrow> list_all2 (records sel) (map fst steps) xss \<Longrightarrow> length pend + length (concat xss) < 2 ^ 64
   \<Longrightarrow> \<exists>pend'. sel m' = recorded pend' \<and> reported seg out + of_nat (length pend') = of_nat (length pend + length (concat xss))
        \<and> length pend' \<le> length pend + length (concat xss)"
proof (induction steps arbitrary: m r m' r' out pend xss)
  case (Cons s steps)
  obtain g tw bw where s: "s = (g, tw, bw)" by (cases s)
  obtain xs yss where x: "xss = xs # yss" "records sel g xs" "list_all2 (records sel) (map fst steps) yss"
    using Cons.prems(4) s by (cases xss) auto
  obtain m1 r1 o1 where t: "reporter_tick (g m) tw bw r = (m1, r1, o1)" by (metis prod_cases3)
  obtain m2 r2 o2 where l: "reporter_loop steps m1 r1 = (m2, r2, o2)" by (metis prod_cases3)
  have eq: "m' = m2" "out = o1 @ o2" using Cons.prems(1) s t l by simp_all
  have "sel (g m) = recorded (pend @ xs)" by (rule records_recorded [OF x(2) Cons.prems(3)])
  then obtain p1 where p1: "sel m1 = recorded p1" "reported seg o1 + of_nat (length p1) = of_nat (length (pend @ xs))"
    "length p1 \<le> length (pend @ xs)"
    using tick_samples [OF t Cons.prems(2)] Cons.prems(5) x(1) by fastforce
  then obtain p2 where "sel m2 = recorded p2" "reported seg o2 + of_nat (length p2) = of_nat (length p1 + length (concat yss))"
    "length p2 \<le> length p1 + length (concat yss)"
    using Cons.IH [OF l Cons.prems(2) p1(1) x(3)] Cons.prems(5) x(1) by fastforce
  then show ?case using eq p1 x(1)
    by (intro exI [of _ p2]) (simp add: algebra_simps, metis (no_types, lifting) add.assoc add.commute)
qed auto

section \<open>Property\<close>

text \<open>(C27) Nothing is lost between the reports. Over any number of ticks, the rates printed for each of the fourteen
  counters add up to the value of the counter itself at the last tick, also when it wraps; and for each of
  the six latency histograms the sample counts of the reports of a run, the flush at the end
  included, add up to the number of samples that the other threads recorded.
\<close>
theorem reports_account:
  assumes "reporter_loop steps m new_reporter = (m1, r1, out)" and "last steps = (g0, tw, bw)" and "steps \<noteq> []"
    and "reporter_exit (g m1) = (m2, out')"
    and "(seg, sel) \<in> set hist_table" and "sel m = new_histogram" and "list_all2 (records sel) (map fst steps) xss"
    and "records sel g xs" and "length (concat xss) + length xs < 2 ^ 64"
  shows "(\<forall>(k, sel, cnt) \<in> set rate_table. sum_rates k out = cnt m1 tw bw)
    \<and> reported seg (out @ out') = of_nat (length (concat xss) + length xs)"
proof -
  have l: "reporter_loop (butlast steps @ [(g0, tw, bw)]) m new_reporter = (m1, r1, out)"
    using assms(1-3) append_butlast_last_id by metis
  have "sum_rates k out = cnt m1 tw bw" if k: "(k, sel, cnt) \<in> set rate_table" for k sel cnt
  proof -
    have "sel new_reporter = 0" using k by (auto simp: rate_table_def new_reporter_def)
    then show ?thesis using loop_rates [OF assms(1) k] loop_remembers [OF l k] by simp
  qed
  moreover obtain pend where p: "sel m1 = recorded pend" "reported seg out + of_nat (length pend) = of_nat (length (concat xss))"
    "length pend \<le> length (concat xss)"
    using loop_samples [OF assms(1,5) _ assms(7), of "[]"] assms(6,9) by (auto simp: recorded_def)
  have s: "sel (g m1) = recorded (pend @ xs)" by (rule records_recorded [OF assms(8) p(1)])
  obtain m' rep where c: "collect_and_reset (g m1) = (m', rep)" by force
  have n: "reported seg (print_latency_report rep) = of_nat (length (pend @ xs))"
    using collect_reports(2) [OF assms(5) c] snapshot_count [of "pend @ xs"] p(3) assms(9) s by simp
  have "reported seg out' = of_nat (length (pend @ xs))"
  proof (cases "out' = []")
    case True
    then have "reported seg (print_latency_report rep) = 0"
      using assms(4,5) c by (auto simp: reporter_exit_def hist_table_def print_latency_report_def word_greater_zero_iff split: if_splits)
    with True n show ?thesis by simp
  next
    case False
    then show ?thesis using assms(4) c n by (auto simp: reporter_exit_def split: if_splits)
  qed
  ultimately show ?thesis using p(2) by auto
qed

text \<open>Two ticks, with a message and a sample before each.\<close>

theorem reports_account_witness:
  "\<exists>m1 r1 out m2 out'. (let g = (\<lambda>m. m\<lparr>msgs_recv := msgs_recv m + 1, pipeline_latency := hist_record (pipeline_latency m) 7\<rparr>) in
     reporter_loop [(g, new_writer, new_writer), (g, new_writer, new_writer)] new_metrics new_reporter = (m1, r1, out)
     \<and> reporter_exit (g m1) = (m2, out')) \<and> sum_rates ''msgs/s'' out = msgs_recv m1 \<and> reported ''pipeline'' (out @ out') = 3"
proof -
  define g :: "metrics \<Rightarrow> metrics" where "g = (\<lambda>m. m\<lparr>msgs_recv := msgs_recv m + 1, pipeline_latency := hist_record (pipeline_latency m) 7\<rparr>)"
  obtain m1 r1 out where l: "reporter_loop [(g, new_writer, new_writer), (g, new_writer, new_writer)] new_metrics new_reporter = (m1, r1, out)"
    by (metis prod_cases3)
  obtain m2 out' where e: "reporter_exit (g m1) = (m2, out')" by force
  have r: "records pipeline_latency g [7]" by (simp add: records_def g_def)
  have "(''pipeline'', pipeline_latency) \<in> set hist_table" "pipeline_latency new_metrics = new_histogram"
    "(''msgs/s'', prev_msgs, \<lambda>m tw bw. msgs_recv m) \<in> set rate_table" by (simp_all add: hist_table_def new_metrics_def rate_table_def)
  with reports_account [where steps = "[(g, new_writer, new_writer), (g, new_writer, new_writer)]" and m = new_metrics
      and g = g and sel = pipeline_latency and seg = "''pipeline''" and xss = "[[7], [7]]" and xs = "[7]", OF l _ _ e] r l e
  show ?thesis unfolding g_def by auto
qed

end
