(* ===== verification/Live_Session.thy ===== *)
theory Live_Session
  imports Feed_Persistence Ring_Buffer Reporter
begin

text \<open>
  The live and the replay mode of \<^verbatim>\<open>src/main.cpp\<close>: \<^verbatim>\<open>run_live\<close> with its checks, the
  callbacks it registers, the reporting thread and the shutdown, and \<^verbatim>\<open>run_replay\<close>.
  \<open>live_step\<close> interleaves the messages of the I/O thread, the two worker threads, the ticks of
  the reporter and the main thread. What is printed is a list of values. The writers are closed
  by their destructors, the order book writer first.
\<close>

section \<open>Callbacks\<close>

datatype live_line = Live_Trade u64 trade | Live_Book u64 orderbook_snapshot | Write_Failed rec_kind

record live_env =
  live_trade_cache :: "trade ring"
  live_book_cache :: "orderbook_snapshot ring"
  live_trade_writer :: writer
  live_book_writer :: writer
  live_trade_print_count :: u64
  live_book_print_count :: u64
  live_console :: "live_line list"
  live_reading :: nat     \<comment> \<open>readings of the steady clock so far\<close>

text \<open>The first five records and every \<open>every\<close>-th one are printed.\<close>

definition sampled :: "u64 \<Rightarrow> u64 \<Rightarrow> bool" where
  "sampled every n \<longleftrightarrow> n \<le> 5 \<or> n mod every = 0"

definition trade_enqueue_sample :: "int \<Rightarrow> metrics \<Rightarrow> metrics" where
  "trade_enqueue_sample us m = (if us \<ge> 0 then (let v = of_int us in
     m\<lparr>trade_enqueue_samples := trade_enqueue_samples m + 1, trade_enqueue_us_total := trade_enqueue_us_total m + v,
       trade_enqueue_us_max := update_atomic_max (trade_enqueue_us_max m) v\<rparr>) else count_anomaly m)"

definition orderbook_enqueue_sample :: "int \<Rightarrow> metrics \<Rightarrow> metrics" where
  "orderbook_enqueue_sample us m = (if us \<ge> 0 then (let v = of_int us in
     m\<lparr>orderbook_enqueue_samples := orderbook_enqueue_samples m + 1, orderbook_enqueue_us_total := orderbook_enqueue_us_total m + v,
       orderbook_enqueue_us_max := update_atomic_max (orderbook_enqueue_us_max m) v\<rparr>) else count_anomaly m)"

text \<open>\<open>steady\<close> gives the readings of the steady clock, in nanoseconds; two readings of one process
  are close enough for their difference to be exact.\<close>

definition live_on_trade :: "(nat \<Rightarrow> int) \<Rightarrow> trade \<Rightarrow> metrics \<Rightarrow> live_env \<Rightarrow> metrics \<times> live_env \<times> bool" where
  "live_on_trade steady t m e =
     (let e1 = e\<lparr>live_trade_cache := ring_push t (live_trade_cache e)\<rparr>;
          enqueue_begin = steady (live_reading e1);
          (s, ok) = write_record (live_trade_writer e1) (trade_bytes t);
          e2 = e1\<lparr>live_trade_writer := s,
                 live_console := live_console e1 @ (if ok then [] else [Write_Failed TradeRecord])\<rparr>;
          enqueue_end = steady (live_reading e2 + 1);
          m1 = trade_enqueue_sample (quot (enqueue_end - enqueue_begin) 1000) m;
          n = live_trade_print_count e2 + 1;
          e3 = e2\<lparr>live_reading := live_reading e2 + 2, live_trade_print_count := n\<rparr>
      in (m1, e3\<lparr>live_console := live_console e3 @ (if sampled 1000 n then [Live_Trade n t] else [])\<rparr>, False))"

definition live_on_orderbook :: "(nat \<Rightarrow> int) \<Rightarrow> orderbook_snapshot \<Rightarrow> metrics \<Rightarrow> live_env \<Rightarrow> metrics \<times> live_env \<times> bool" where
  "live_on_orderbook steady b m e =
     (let e1 = e\<lparr>live_book_cache := ring_push b (live_book_cache e)\<rparr>;
          enqueue_begin = steady (live_reading e1);
          (s, ok) = write_record (live_book_writer e1) (orderbook_bytes b);
          e2 = e1\<lparr>live_book_writer := s,
                 live_console := live_console e1 @ (if ok then [] else [Write_Failed OrderBookRecord])\<rparr>;
          enqueue_end = steady (live_reading e2 + 1);
          m1 = orderbook_enqueue_sample (quot (enqueue_end - enqueue_begin) 1000) m;
          n = live_book_print_count e2 + 1;
          e3 = e2\<lparr>live_reading := live_reading e2 + 2, live_book_print_count := n\<rparr>
      in (m1, e3\<lparr>live_console := live_console e3 @ (if sampled 1000 n then [Live_Book n b] else [])\<rparr>, False))"

definition live_callbacks :: "(nat \<Rightarrow> int) \<Rightarrow> live_env callbacks" where
  "live_callbacks steady = \<lparr>on_trade = Some (live_on_trade steady), on_orderbook = Some (live_on_orderbook steady)\<rparr>"

section \<open>Starting\<close>

text \<open>Where the main thread is, once \<open>mgr.start\<close> was called.\<close>

datatype live_pc = Live_Serving | Live_Closing_Book | Live_Closing_Trade | Live_Done

record live =
  live_cm :: "live_env conn"
  g_running :: bool
  live_reporting :: bool
  live_reporter :: reporter
  live_out :: "out_line list"
  live_pc :: live_pc

text \<open>
  What the part of \<open>run_live\<close> before \<open>mgr.start\<close> ends in: exit code 1, with the writers whose
  destructors then run; the exception of a cache constructor, which nothing catches; or service.
\<close>

datatype live_start = Live_Exit world "writer list" | Live_Abort world | Live_Ready world live

definition run_live_start :: "world \<Rightarrow> config \<Rightarrow> live_start" where
  "run_live_start w cfg = (case data_sources cfg of
       [] \<Rightarrow> Live_Exit w []
     | source # _ \<Rightarrow>
        if ds_ws_url source = [] then Live_Exit w []
        else (case open_writer w new_writer (cfg_data_dir cfg) (ring_buffer_size cfg) of (w1, ts, r1) \<Rightarrow>
          if r1 \<noteq> Opened then Live_Exit w1 [ts]
          else (case open_writer w1 new_writer (cfg_data_dir cfg) (ring_buffer_size cfg) of (w2, bs, r2) \<Rightarrow>
            if r2 \<noteq> Opened then Live_Exit w2 [ts, bs]
            else (case (ring_new zero_trade (ring_buffer_size cfg), ring_new zero_orderbook (ring_buffer_size cfg)) of
                (Inr tc, Inr bc) \<Rightarrow> Live_Ready w2
                  \<lparr>live_cm = new_conn \<lparr>live_trade_cache = tc, live_book_cache = bc, live_trade_writer = ts, live_book_writer = bs,
                     live_trade_print_count = 0, live_book_print_count = 0, live_console = [], live_reading = 0\<rparr>,
                   g_running = True, live_reporting = True, live_reporter = new_reporter, live_out = [], live_pc = Live_Serving\<rparr>
              | _ \<Rightarrow> Live_Abort w2))))"

section \<open>Interleaved executions\<close>

abbreviation live_user :: "live \<Rightarrow> live_env" where "live_user l \<equiv> user (live_cm l)"
abbreviation live_metrics :: "live \<Rightarrow> metrics" where "live_metrics l \<equiv> conn_metrics (live_cm l)"

definition live_set_trade :: "writer \<Rightarrow> live \<Rightarrow> live" where
  "live_set_trade s l = l\<lparr>live_cm := (live_cm l)\<lparr>user := (live_user l)\<lparr>live_trade_writer := s\<rparr>\<rparr>\<rparr>"

definition live_set_book :: "writer \<Rightarrow> live \<Rightarrow> live" where
  "live_set_book s l = l\<lparr>live_cm := (live_cm l)\<lparr>user := (live_user l)\<lparr>live_book_writer := s\<rparr>\<rparr>\<rparr>"

definition live_set_metrics :: "metrics \<Rightarrow> live \<Rightarrow> live" where
  "live_set_metrics m l = l\<lparr>live_cm := (live_cm l)\<lparr>conn_metrics := m\<rparr>\<rparr>"

definition live_tick :: "live \<Rightarrow> live" where
  "live_tick l = (case reporter_tick (live_metrics l) (live_trade_writer (live_user l)) (live_book_writer (live_user l)) (live_reporter l) of
     (m, r, out) \<Rightarrow> (live_set_metrics m l)\<lparr>live_reporter := r, live_out := live_out l @ out\<rparr>)"

definition live_flush :: "live \<Rightarrow> live" where
  "live_flush l = (case reporter_exit (live_metrics l) of
     (m, out) \<Rightarrow> (live_set_metrics m l)\<lparr>live_reporting := False, live_out := live_out l @ out\<rparr>)"

datatype live_event =
    Live_Message raw_clock string
  | Live_Trade_Worker wevent
  | Live_Book_Worker wevent
  | Live_Tick
  | Live_Signal
  | Live_Flush
  | Live_Shutdown       \<comment> \<open>\<open>mgr.stop()\<close> and the join are over; the book writer's destructor begins\<close>
  | Live_Book_Closed
  | Live_Trade_Closed

inductive live_step ::
  "'j json_api \<Rightarrow> config \<Rightarrow> (nat \<Rightarrow> int) \<Rightarrow> world \<times> live \<Rightarrow> live_event \<Rightarrow> world \<times> live \<Rightarrow> bool"
  for api cfg steady where
  Message: "live_pc l = Live_Serving \<Longrightarrow> on_raw_message api cfg (live_callbacks steady) clk msg (live_cm l) = Some c \<Longrightarrow>
    live_step api cfg steady (w, l) (Live_Message clk msg) (w, l\<lparr>live_cm := c\<rparr>)"
| TradeWorker: "worker_event e \<Longrightarrow> wstep TradeRecord (w, live_trade_writer (live_user l)) e (w', s) \<Longrightarrow>
    live_step api cfg steady (w, l) (Live_Trade_Worker e) (w', live_set_trade s l)"
| BookWorker: "worker_event e \<Longrightarrow> wstep OrderBookRecord (w, live_book_writer (live_user l)) e (w', s) \<Longrightarrow>
    live_step api cfg steady (w, l) (Live_Book_Worker e) (w', live_set_book s l)"
| Tick: "g_running l \<Longrightarrow> live_reporting l \<Longrightarrow> live_step api cfg steady (w, l) Live_Tick (w, live_tick l)"
| Signal: "live_step api cfg steady (w, l) Live_Signal (w, l\<lparr>g_running := False\<rparr>)"
| Flush: "\<not> g_running l \<Longrightarrow> live_reporting l \<Longrightarrow> live_step api cfg steady (w, l) Live_Flush (w, live_flush l)"
| Shutdown: "\<not> g_running l \<Longrightarrow> \<not> live_reporting l \<Longrightarrow> live_pc l = Live_Serving \<Longrightarrow>
    wstep OrderBookRecord (w, live_book_writer (live_user l)) EvCloseBegin (w', s) \<Longrightarrow>
    live_step api cfg steady (w, l) Live_Shutdown (w', (live_set_book s l)\<lparr>live_pc := Live_Closing_Book\<rparr>)"
| BookClosed: "live_pc l = Live_Closing_Book \<Longrightarrow> wstep OrderBookRecord (w, live_book_writer (live_user l)) EvCloseEnd (w', s) \<Longrightarrow>
    wstep TradeRecord (w', live_trade_writer (live_user l)) EvCloseBegin (w'', s') \<Longrightarrow>
    live_step api cfg steady (w, l) Live_Book_Closed
      (w'', (live_set_trade s' (live_set_book s l))\<lparr>live_pc := Live_Closing_Trade\<rparr>)"
| TradeClosed: "live_pc l = Live_Closing_Trade \<Longrightarrow> wstep TradeRecord (w, live_trade_writer (live_user l)) EvCloseEnd (w', s) \<Longrightarrow>
    live_step api cfg steady (w, l) Live_Trade_Closed (w', (live_set_trade s l)\<lparr>live_pc := Live_Done\<rparr>)"

inductive live_run ::
  "'j json_api \<Rightarrow> config \<Rightarrow> (nat \<Rightarrow> int) \<Rightarrow> world \<times> live \<Rightarrow> live_event list \<Rightarrow> world \<times> live \<Rightarrow> bool"
  for api cfg steady c where
  Begin: "live_run api cfg steady c [] c"
| Continue: "live_run api cfg steady c es c' \<Longrightarrow> live_step api cfg steady c' e c'' \<Longrightarrow> live_run api cfg steady c (es @ [e]) c''"

section \<open>The replay mode\<close>

datatype replay_line = Replay_Trade u64 trade | Replay_Book u64 orderbook_snapshot | Replay_Summary rec_kind replay_result

text \<open>The callbacks count what they are given.\<close>

definition replay_counter :: "u64 \<Rightarrow> (u64 \<Rightarrow> 'r \<Rightarrow> replay_line) \<Rightarrow> u64 \<times> replay_line list \<Rightarrow> 'r \<Rightarrow> (u64 \<times> replay_line list) \<times> bool" where
  "replay_counter every line st r = (case st of (cnt, out) \<Rightarrow>
     (let n = cnt + 1 in ((n, out @ (if sampled every n then [line n r] else [])), False)))"

definition run_replay :: "world \<Rightarrow> config \<Rightarrow> world \<times> replay_line list \<times> int" where
  "run_replay w cfg =
     (case replay_trades w (cfg_data_dir cfg) (Some (replay_counter 10000 Replay_Trade)) None None (0, []) of
        (w1, (trade_cnt, out1), trade_result) \<Rightarrow>
      (case replay_orderbooks w1 (cfg_data_dir cfg) (Some (replay_counter 1000 Replay_Book)) None None (0, []) of
        (w2, (book_cnt, out2), ob_result) \<Rightarrow>
          (w2, out1 @ [Replay_Summary TradeRecord trade_result] @ out2 @ [Replay_Summary OrderBookRecord ob_result],
           if completed trade_result \<and> completed ob_result then 0 else 1)))"

end
