(* ===== verification/Session_Replay.thy ===== *)
theory Session_Replay
  imports Feed_Persistence
begin

text \<open>
  Replaying what a session left on disk, for any callback that does not throw. Shared by the
  replay mode of the program and by the example programs of the library.
\<close>

section \<open>Replaying leaves the disk alone\<close>

definition same_disk :: "world \<Rightarrow> world \<Rightarrow> bool" where
  "same_disk w w' \<longleftrightarrow> w_dirs w' = w_dirs w \<and> w_fault w' = w_fault w"

lemma same_disk_refl [simp]: "same_disk w w"
  by (simp add: same_disk_def)

lemma same_disk_trans: "same_disk w w1 \<Longrightarrow> same_disk w1 w2 \<Longrightarrow> same_disk w w2"
  by (simp add: same_disk_def)

lemma open_in_disk: "open_in w dir n = (w', f) \<Longrightarrow> same_disk w w'"
  by (auto simp: open_in_def open_inout_def same_disk_def io_tick_def split: option.splits)

lemma open_index_disk: "open_index k w rd i = (w', rd', ok) \<Longrightarrow> same_disk w w'"
  by (auto simp: open_index_def Let_def split: if_splits prod.splits option.splits dest: open_in_disk)

lemma probe_files_disk: "probe_files k w dir ns tot = (w', n, ok) \<Longrightarrow> same_disk w w'"
proof (induction k w dir ns tot rule: probe_files.induct)
  case (2 k w dir name names tot)
  then show ?case
    by (auto split: prod.splits option.splits dest: open_in_disk intro: same_disk_trans)
qed simp

lemma read_next_disk: "read_next k w rd = (w', rd', r) \<Longrightarrow> same_disk w w'"
proof (induction k w rd rule: read_next.induct)
  case (1 k w rd)
  show ?case
  proof (cases "rd_file rd")
    case None
    then show ?thesis using 1(3) by (subst (asm) read_next.simps) simp
  next
    case (Some f)
    let ?rec = "slice (fs_pos f) (rec_size k) (stream_content w f)"
    let ?rd1 = "rd\<lparr>rd_file := Some (f\<lparr>fs_pos := fs_pos f + length ?rec\<rparr>)\<rparr>"
    let ?rd2 = "?rd1\<lparr>file_index := Suc (file_index ?rd1)\<rparr>"
    obtain w1 rd3 ok where o: "open_index k w ?rd2 (file_index ?rd2) = (w1, rd3, ok)" by (metis prod_cases3)
    consider "w' = w"
      | "length ?rec = rec_size k" "record_crc_ok k ?rec" "\<not> window_contains (rd_window ?rd1) (rec_recv_ts_us ?rec)"
        "read_next k w ?rd1 = (w', rd', r)"
      | "length ?rec \<noteq> rec_size k" "\<not> length (files ?rd2) \<le> file_index ?rd2" "ok" "read_next k w1 rd3 = (w', rd', r)"
      | "w' = w1"
      using 1(3) Some o by (subst (asm) read_next.simps) (auto simp: Let_def split: if_splits bool.splits)
    then show ?thesis
    proof cases
      case 2
      then show ?thesis using 1(1) [OF Some refl refl 2(1)] by simp
    next
      case 3
      have "same_disk w1 w'" by (rule 1(2) [OF Some refl refl 3(1) refl 3(2) o [symmetric] refl]) (use 3 in auto)
      then show ?thesis using open_index_disk [OF o] by (rule same_disk_trans [rotated])
    qed (use open_index_disk [OF o] in simp_all)
  qed
qed

lemma replay_loop_disk: "replay_loop k cb w rd s res = (w', rd', s', res') \<Longrightarrow> same_disk w w'"
proof (induction k cb w rd s res rule: replay_loop.induct)
  case (1 k cb w rd s res)
  obtain w1 rd1 r where n: "read_next k w rd = (w1, rd1, r)" by (metis prod_cases3)
  show ?case
  proof (cases r)
    case None
    then show ?thesis using 1(2) n read_next_disk [OF n] by (subst (asm) replay_loop.simps) simp
  next
    case (Some x)
    obtain s1 t where c: "cb s x = (s1, t)" by force
    show ?thesis
    proof (cases t)
      case True
      then show ?thesis using 1(2) n Some c read_next_disk [OF n] by (subst (asm) replay_loop.simps) simp
    next
      case False
      then have "replay_loop k cb w1 rd1 s1 (res\<lparr>records_replayed := records_replayed res + 1\<rparr>) = (w', rd', s', res')"
        using 1(2) n Some c by (subst (asm) replay_loop.simps) simp
      from 1(1) [OF n [symmetric] refl Some c [symmetric] _ this] False have "same_disk w1 w'" by simp
      then show ?thesis using read_next_disk [OF n] by (rule same_disk_trans [rotated])
    qed
  qed
qed

lemma reader_open_disk: "reader_open k w rd dir win = (w', rd', ok) \<Longrightarrow> same_disk w w'"
  by (auto simp: reader_open_def Let_def split: if_splits prod.splits bool.splits
      dest: probe_files_disk open_index_disk intro: same_disk_trans)

lemma replay_all_disk: "replay_all k w dir cb win s = (w', s', r) \<Longrightarrow> same_disk w w'"
  by (auto simp: replay_all_def Let_def split: option.splits prod.splits bool.splits
      dest: reader_open_disk replay_loop_disk intro: same_disk_trans)

lemma session_files_disk: "session_files k rs w dir \<Longrightarrow> same_disk w w' \<Longrightarrow> session_files k rs w' dir"
proof -
  assume "same_disk w w'"
  then have "get_node w' dir n = get_node w dir n" "get_file w' dir n = get_file w dir n" "no_faults w' = no_faults w"
    "distinct_names w' dir = distinct_names w dir" "w_dirs w' = w_dirs w" for n
    by (simp_all add: same_disk_def no_faults_def distinct_names_def get_file_def get_node_def)
  then show "session_files k rs w dir \<Longrightarrow> session_files k rs w' dir" by (simp add: session_files_def)
qed

text \<open>A directory without files of a kind is a file error of the replay.\<close>

lemma replay_nothing:
  assumes "session_files k [] w dir"
  shows "replay_all k w dir (Some cb) no_window s = (w, s, new_result\<lparr>file_error := True\<rparr>)"
proof -
  have "list_record_files (w_dirs w dir) (rec_file_prefix k) no_window = []"
    using session_listing(3) [OF assms, of no_window] by simp
  then show ?thesis
    by (simp add: replay_all_def reader_open_def reader_close_def new_reader_def new_result_def
        no_window_def window_valid_def window_empty_def)
qed

section \<open>Callbacks that do not throw\<close>

lemma feed_total: "(\<And>s r. \<not> snd (cb s r)) \<Longrightarrow> feed cb s rs = (foldl (\<lambda>s r. fst (cb s r)) s rs, length rs, False)"
proof (induction rs arbitrary: s)
  case (Cons r rs)
  obtain s' where "cb s r = (s', False)" using Cons.prems [of s r] by (cases "cb s r") simp
  then show ?case using Cons.IH [OF Cons.prems, of s'] by simp
qed simp

lemma replay_kind:
  assumes "session_files k (map enc rs) w dir" and "sorted (map (rec_recv_ts_us \<circ> enc) rs)" and "\<And>s r. \<not> snd (cb s r)"
  shows "\<exists>w' r. replay_all k w dir (Some cb) no_window s = (w', foldl (\<lambda>s r. fst (cb s r)) s (map (stamp_record_crc k \<circ> enc) rs), r)
    \<and> same_disk w w' \<and> records_replayed r = of_nat (length rs) \<and> (completed r \<longleftrightarrow> rs \<noteq> []) \<and> (file_error r \<longleftrightarrow> rs = [])
    \<and> \<not> callback_error r \<and> \<not> count_mismatch r"
proof (cases "rs = []")
  case True
  then show ?thesis using replay_nothing [of k w dir cb s] assms(1) by (simp add: new_result_def)
next
  case False
  have "feed cb s (map (stamp_record_crc k \<circ> enc) rs) = (foldl (\<lambda>s r. fst (cb s r)) s (map (stamp_record_crc k \<circ> enc) rs), length rs, False)"
    using feed_total [of cb, OF assms(3)] by simp
  from side_replay_with [OF assms(1) False assms(2) this] False replay_all_disk show ?thesis by fastforce
qed

text \<open>The result of a replay of \<open>n\<close> records.\<close>

definition replayed_ok :: "nat \<Rightarrow> replay_result \<Rightarrow> bool" where
  "replayed_ok n r \<longleftrightarrow> records_replayed r = of_nat n \<and> (completed r \<longleftrightarrow> n \<noteq> 0) \<and> (file_error r \<longleftrightarrow> n = 0)
     \<and> \<not> callback_error r \<and> \<not> count_mismatch r"

lemma replay_trades_of_session:
  assumes "session_files TradeRecord (map trade_bytes tr) w dir" and "sorted (map (rec_recv_ts_us \<circ> trade_bytes) tr)"
    and "\<And>t. t \<in> set tr \<Longrightarrow> trade_wf t" and "\<And>s t. \<not> snd (cb s t)"
  shows "\<exists>w' r. replay_trades w dir (Some cb) None None s = (w', foldl (\<lambda>s t. fst (cb s t)) s (map stamped_trade tr), r)
    \<and> same_disk w w' \<and> replayed_ok (length tr) r"
proof -
  have "foldl (\<lambda>s r. fst (cb s (trade_of_bytes r))) s (map (stamp_record_crc TradeRecord \<circ> trade_bytes) tr)
      = foldl (\<lambda>s t. fst (cb s t)) s (map stamped_trade tr)"
    unfolding foldl_map comp_def by (rule foldl_cong) (simp_all add: stamp_trade assms(3))
  then show ?thesis
    using replay_kind [OF assms(1,2), of "\<lambda>s r. cb s (trade_of_bytes r)" s] assms(4)
    by (auto simp: replay_trades_def to_public_def new_result_def no_window_def replayed_ok_def)
qed

lemma replay_orderbooks_of_session:
  assumes "session_files OrderBookRecord (map orderbook_bytes bo) w dir" and "sorted (map (rec_recv_ts_us \<circ> orderbook_bytes) bo)"
    and "\<And>b. b \<in> set bo \<Longrightarrow> orderbook_wf b" and "\<And>s b. \<not> snd (cb s b)"
  shows "\<exists>w' r. replay_orderbooks w dir (Some cb) None None s = (w', foldl (\<lambda>s b. fst (cb s b)) s (map stamped_book bo), r)
    \<and> same_disk w w' \<and> replayed_ok (length bo) r"
proof -
  have "foldl (\<lambda>s r. fst (cb s (orderbook_of_bytes r))) s (map (stamp_record_crc OrderBookRecord \<circ> orderbook_bytes) bo)
      = foldl (\<lambda>s b. fst (cb s b)) s (map stamped_book bo)"
    unfolding foldl_map comp_def by (rule foldl_cong) (simp_all add: stamp_book assms(3))
  then show ?thesis
    using replay_kind [OF assms(1,2), of "\<lambda>s r. cb s (orderbook_of_bytes r)" s] assms(4)
    by (auto simp: replay_orderbooks_def to_public_def new_result_def no_window_def replayed_ok_def)
qed

end
