(* ===== verification/Live_Replay.thy ===== *)
theory Live_Replay
  imports Live_Session Session_Replay
begin

text \<open>
  The live mode followed by the replay mode. The callbacks of the live mode simulate a log of what
  the connection manager delivers, so the caches and the files after a session are those of the
  log, and the replay mode prints them.
\<close>

section \<open>What the replay mode prints\<close>

fun printed :: "u64 \<Rightarrow> (u64 \<Rightarrow> 'r \<Rightarrow> replay_line) \<Rightarrow> nat \<Rightarrow> 'r list \<Rightarrow> replay_line list" where
  "printed every line i [] = []"
| "printed every line i (r # rs) =
     (if sampled every (of_nat (Suc i)) then [line (of_nat (Suc i)) r] else []) @ printed every line (Suc i) rs"

lemma replay_counter_not_throw: "\<not> snd (replay_counter every line st r)"
  by (cases st) (simp add: replay_counter_def Let_def)

lemma foldl_counter:
  "foldl (\<lambda>st r. fst (replay_counter every line st r)) (of_nat i, out) rs = (of_nat (i + length rs), out @ printed every line i rs)"
proof (induction rs arbitrary: i out)
  case (Cons r rs)
  have "fst (replay_counter every line (of_nat i, out) r) = (of_nat (Suc i),
      out @ (if sampled every (of_nat (Suc i)) then [line (of_nat (Suc i)) r] else []))"
    by (simp add: replay_counter_def Let_def add.commute)
  then show ?case using Cons.IH [of "Suc i"] by (simp del: of_nat_Suc)
qed simp

section \<open>The live callbacks simulate a log\<close>

definition cached :: "nat \<Rightarrow> 'a ring \<Rightarrow> 'a list \<Rightarrow> bool" where
  "cached n b xs \<longleftrightarrow> ring_invar b \<and> rb_cap b = n \<and> ring_contents b = last_n n xs"

lemma cached_new: "ring_new z n = Inr b \<Longrightarrow> cached n b []"
  by (auto simp: ring_new_def validate_capacity_def cached_def ring_invar_def ring_contents_def last_n_def split: if_splits)

lemma cached_push: "cached n b xs \<Longrightarrow> cached n (ring_push x b) (xs @ [x])"
  using rb.contents_push [of b x] rb.invar_push [of b x] rb.cap_push [of x b]
  by (simp add: cached_def last_n_append_last_n)

lemma cached_snapshot: "cached n b xs \<Longrightarrow> ring_snapshot b k = last_n (min k n) xs"
  using rb.snap_contents [of b k] by (simp add: cached_def last_n_last_n)

definition live_matches :: "nat \<Rightarrow> world \<times> writer \<Rightarrow> world \<times> writer \<Rightarrow> world \<Rightarrow> live_env \<Rightarrow> feed_log \<Rightarrow> bool" where
  "live_matches n ct cb w e u \<longleftrightarrow> cached n (live_trade_cache e) (trade_log u) \<and> cached n (live_book_cache e) (book_log u)
     \<and> pair_inv ct cb w (live_trade_writer e) (live_book_writer e) u"

lemma trade_enqueue_counts [simp]: "message_counts (trade_enqueue_sample us m) = message_counts m"
proof (cases "us \<ge> 0")
  case True
  then show ?thesis unfolding trade_enqueue_sample_def if_P [OF True] Let_def message_counts_def
    by simp
qed (simp add: trade_enqueue_sample_def)

lemma orderbook_enqueue_counts [simp]: "message_counts (orderbook_enqueue_sample us m) = message_counts m"
proof (cases "us \<ge> 0")
  case True
  then show ?thesis unfolding orderbook_enqueue_sample_def if_P [OF True] Let_def message_counts_def
    by simp
qed (simp add: orderbook_enqueue_sample_def)

abbreviation quiet_log :: "feed_log callbacks" where "quiet_log \<equiv> log_callbacks (\<lambda>_. False) (\<lambda>_. False)"

abbreviation same_counts :: "metrics \<Rightarrow> metrics \<Rightarrow> bool" where
  "same_counts m m' \<equiv> message_counts m = message_counts m'"

interpretation live_mode: callback_simulation "live_callbacks steady" quiet_log "live_matches n ct cb w" same_counts
  for steady n ct cb w
proof (unfold_locales, goal_cases)
  case (1 f m m')
  then show ?case unfolding counts_alone_def by blast
next
  case (2 m m' u v t)
  then show ?case using pair_put(1) [of ct cb w "live_trade_writer u" "live_book_writer u" v t]
    by (auto simp: invoke_Some live_callbacks_def log_callbacks_def live_on_trade_def live_matches_def Let_def cached_push
        split: prod.splits)
next
  case (3 m m' u v b)
  then show ?case using pair_put(2) [of ct cb w "live_trade_writer u" "live_book_writer u" v b]
    by (auto simp: invoke_Some live_callbacks_def log_callbacks_def live_on_orderbook_def live_matches_def Let_def cached_push
        split: prod.splits)
qed

section \<open>The invariant of a live run\<close>

fun live_messages :: "live_event list \<Rightarrow> (raw_clock \<times> string) list" where
  "live_messages [] = []"
| "live_messages (Live_Message clk msg # es) = (clk, msg) # live_messages es"
| "live_messages (e # es) = live_messages es"

lemma live_messages_append [simp]: "live_messages (es @ fs) = live_messages es @ live_messages fs"
  by (induction es rule: live_messages.induct) auto

lemma live_messages_other: "(\<And>clk msg. e \<noteq> Live_Message clk msg) \<Longrightarrow> live_messages [e] = []"
  by (cases e) auto

abbreviation live_clocks :: "live_event list \<Rightarrow> i64 list" where
  "live_clocks es \<equiv> map (wall_us \<circ> fst) (live_messages es)"

abbreviation live_sim :: "nat \<Rightarrow> world \<times> writer \<Rightarrow> world \<times> writer \<Rightarrow> world \<Rightarrow> live_env conn \<Rightarrow> feed_log conn \<Rightarrow> bool" where
  "live_sim n ct cb w \<equiv> callback_simulation.sim (live_matches n ct cb w) same_counts"

fun live_closed :: "live_pc \<Rightarrow> live_env \<Rightarrow> bool" where
  "live_closed Live_Done e \<longleftrightarrow> worker (live_trade_writer e) = NoThread \<and> worker (live_book_writer e) = NoThread"
| "live_closed Live_Closing_Trade e \<longleftrightarrow> worker (live_book_writer e) = NoThread"
| "live_closed _ e \<longleftrightarrow> True"

definition live_inv ::
  "'j json_api \<Rightarrow> config \<Rightarrow> world \<times> writer \<Rightarrow> world \<times> writer \<Rightarrow> live_event list \<Rightarrow> world \<times> live \<Rightarrow> bool" where
  "live_inv api cfg ct cb es c \<longleftrightarrow> live_closed (live_pc (snd c)) (live_user (snd c))
     \<and> (\<exists>d. run_messages api cfg quiet_log (live_messages es) (new_conn empty_log) = Some d
        \<and> live_sim (ring_buffer_size cfg) ct cb (fst c) (live_cm (snd c)) d
        \<and> logged (live_clocks es) (user d) \<and> counted (conn_metrics d) (user d))"

lemma log_message_logged:
  assumes "on_raw_message api cfg (log_callbacks tt tb) clk msg d = Some d'" and "logged ts (user d)"
  shows "logged (ts @ [wall_us clk]) (user d')"
  using assms(1)
proof (cases rule: message_user)
  case silent
  then show ?thesis using assms(2) logged_more by simp
next
  case (trade t m)
  then show ?thesis using assms(2)
    by (auto simp: log_callbacks_def invoke_Some logged_def intro: list_emb_append_mono list_emb_append2)
next
  case (book b m)
  then show ?thesis using assms(2)
    by (auto simp: log_callbacks_def invoke_Some logged_def intro: list_emb_append_mono list_emb_append2)
qed

lemma live_step_message:
  assumes "on_raw_message api cfg (live_callbacks steady) clk msg (live_cm l) = Some c" and "live_pc l = Live_Serving"
    and "live_inv api cfg ct cb es (w, l)"
  shows "live_inv api cfg ct cb (es @ [Live_Message clk msg]) (w, l\<lparr>live_cm := c\<rparr>)"
proof -
  obtain d where d: "run_messages api cfg quiet_log (live_messages es) (new_conn empty_log) = Some d"
    "live_sim (ring_buffer_size cfg) ct cb w (live_cm l) d" "logged (live_clocks es) (user d)" "counted (conn_metrics d) (user d)"
    using assms(3) by (auto simp: live_inv_def)
  from live_mode.sim_message [OF d(2), of api cfg steady clk msg] assms(1) obtain d' where
    d': "on_raw_message api cfg quiet_log clk msg d = Some d'" "live_sim (ring_buffer_size cfg) ct cb w c d'"
    by (cases "on_raw_message api cfg quiet_log clk msg d") auto
  have "run_messages api cfg quiet_log (live_messages (es @ [Live_Message clk msg])) (new_conn empty_log) = Some d'"
    using run_messages_append [of api cfg quiet_log "live_messages es" "[(clk, msg)]" "new_conn empty_log"] d(1) d'(1) by simp
  then show ?thesis
    using d'(2) log_message_logged [OF d'(1) d(3)] log_message_counted [OF d'(1) d(4)] assms(2) by (auto simp: live_inv_def)
qed

lemma live_matches_worker:
  "live_matches n ct cb w e u \<Longrightarrow> same_dir ct cb \<Longrightarrow> wstep TradeRecord (w, live_trade_writer e) ev (w', s)
     \<Longrightarrow> (\<And>r a ok. ev \<noteq> EvWrite r a ok) \<Longrightarrow> live_matches n ct cb w' (e\<lparr>live_trade_writer := s\<rparr>) u"
  "live_matches n ct cb w e u \<Longrightarrow> same_dir ct cb \<Longrightarrow> wstep OrderBookRecord (w, live_book_writer e) ev (w', s)
     \<Longrightarrow> (\<And>r a ok. ev \<noteq> EvWrite r a ok) \<Longrightarrow> live_matches n ct cb w' (e\<lparr>live_book_writer := s\<rparr>) u"
  using pair_trade [of ct cb w "live_trade_writer e" "live_book_writer e" u ev w' s]
    pair_book [of ct cb w "live_trade_writer e" "live_book_writer e" u ev w' s] by (simp_all add: live_matches_def)

lemma live_inv_other:
  assumes "live_inv api cfg ct cb es (w, l)" and "\<And>clk msg. e \<noteq> Live_Message clk msg"
    and "live_cm l' = (live_cm l)\<lparr>conn_metrics := m, user := u\<rparr>" and "same_counts (live_metrics l) m"
    and "\<And>v. live_matches (ring_buffer_size cfg) ct cb w (live_user l) v \<Longrightarrow> live_matches (ring_buffer_size cfg) ct cb w' u v"
    and "live_closed (live_pc l') u"
  shows "live_inv api cfg ct cb (es @ [e]) (w', l')"
  using assms live_messages_other [of e] by (auto simp: live_inv_def live_mode.sim_def)

lemma collect_counts: "message_counts (fst (collect_and_reset m)) = message_counts m"
  by (simp add: collect_and_reset_def message_counts_def)

lemma tick_counts: "reporter_tick m tw bw r = (m', r', out) \<Longrightarrow> message_counts m' = message_counts m"
  using collect_counts [of m] by (auto simp: reporter_tick_def Let_def split: if_splits prod.splits)

lemma flush_counts: "reporter_exit m = (m', out) \<Longrightarrow> message_counts m' = message_counts m"
  using collect_counts [of m] by (auto simp: reporter_exit_def split: prod.splits)

lemma live_worker_inv:
  assumes "live_inv api cfg ct cb es (w, l)" and "same_dir ct cb" and "worker_event e"
  shows "wstep TradeRecord (w, live_trade_writer (live_user l)) e (w', s) \<Longrightarrow> live_inv api cfg ct cb (es @ [Live_Trade_Worker e]) (w', live_set_trade s l)"
    and "wstep OrderBookRecord (w, live_book_writer (live_user l)) e (w', s) \<Longrightarrow> live_inv api cfg ct cb (es @ [Live_Book_Worker e]) (w', live_set_book s l)"
proof -
  assume st: "wstep TradeRecord (w, live_trade_writer (live_user l)) e (w', s)"
  have "live_closed (live_pc l) ((live_user l)\<lparr>live_trade_writer := s\<rparr>)"
    using assms(1) worker_not_idle [OF st assms(3)] by (cases "live_pc l") (simp_all add: live_inv_def)
  then show "live_inv api cfg ct cb (es @ [Live_Trade_Worker e]) (w', live_set_trade s l)"
    by (intro live_inv_other [OF assms(1), where m = "live_metrics l" and u = "(live_user l)\<lparr>live_trade_writer := s\<rparr>"]
        live_matches_worker(1) [OF _ assms(2) st]) (use assms(3) not_write in \<open>auto simp: live_set_trade_def\<close>)
next
  assume st: "wstep OrderBookRecord (w, live_book_writer (live_user l)) e (w', s)"
  have "live_closed (live_pc l) ((live_user l)\<lparr>live_book_writer := s\<rparr>)"
    using assms(1) worker_not_idle [OF st assms(3)] by (cases "live_pc l") (simp_all add: live_inv_def)
  then show "live_inv api cfg ct cb (es @ [Live_Book_Worker e]) (w', live_set_book s l)"
    by (intro live_inv_other [OF assms(1), where m = "live_metrics l" and u = "(live_user l)\<lparr>live_book_writer := s\<rparr>"]
        live_matches_worker(2) [OF _ assms(2) st]) (use assms(3) not_write in \<open>auto simp: live_set_book_def\<close>)
qed

lemma live_report_inv:
  assumes "live_inv api cfg ct cb es (w, l)"
  shows "live_inv api cfg ct cb (es @ [Live_Tick]) (w, live_tick l)" and "live_inv api cfg ct cb (es @ [Live_Flush]) (w, live_flush l)"
proof -
  obtain m r out where t: "reporter_tick (live_metrics l) (live_trade_writer (live_user l)) (live_book_writer (live_user l)) (live_reporter l) = (m, r, out)"
    by (metis prod_cases3)
  show "live_inv api cfg ct cb (es @ [Live_Tick]) (w, live_tick l)"
    by (rule live_inv_other [OF assms, where m = m and u = "live_user l"])
      (use assms t tick_counts [OF t] in \<open>simp_all add: live_tick_def live_set_metrics_def live_inv_def\<close>)
  obtain m out where t: "reporter_exit (live_metrics l) = (m, out)" by force
  show "live_inv api cfg ct cb (es @ [Live_Flush]) (w, live_flush l)"
    by (rule live_inv_other [OF assms, where m = m and u = "live_user l"])
      (use assms t flush_counts [OF t] in \<open>simp_all add: live_flush_def live_set_metrics_def live_inv_def\<close>)
qed

lemma live_step_inv:
  assumes "live_step api cfg steady c e c'" and "live_inv api cfg ct cb es c" and "same_dir ct cb"
  shows "live_inv api cfg ct cb (es @ [e]) c'"
  using assms
proof (induction rule: live_step.induct)
  case (Message l clk msg c w)
  then show ?case using live_step_message by blast
next
  case (TradeWorker e w l w' s)
  show ?case by (rule live_worker_inv(1) [OF TradeWorker(3,4,1,2)])
next
  case (BookWorker e w l w' s)
  show ?case by (rule live_worker_inv(2) [OF BookWorker(3,4,1,2)])
next
  case (Tick l w)
  show ?case by (rule live_report_inv(1) [OF Tick(3)])
next
  case (Signal w l)
  show ?case
    by (rule live_inv_other [OF Signal(1), where m = "live_metrics l" and u = "live_user l"])
      (use Signal(1) in \<open>simp_all add: live_inv_def\<close>)
next
  case (Flush l w)
  show ?case by (rule live_report_inv(2) [OF Flush(3)])
next
  case (Shutdown l w w' s)
  show ?case
    by (intro live_inv_other [OF Shutdown(5), where m = "live_metrics l" and u = "(live_user l)\<lparr>live_book_writer := s\<rparr>"]
        live_matches_worker(2) [OF _ Shutdown(6,4)]) (simp_all add: live_set_book_def)
next
  case (BookClosed l w w' s w'' s')
  have m: "live_matches n ct cb w'' ((live_user l)\<lparr>live_book_writer := s, live_trade_writer := s'\<rparr>) v"
    if "live_matches n ct cb w (live_user l) v" for n v
    using live_matches_worker(1) [OF live_matches_worker(2) [OF that BookClosed(5,2)] BookClosed(5), of EvCloseBegin w'' s'] BookClosed(3) by simp
  show ?case
    by (rule live_inv_other [OF BookClosed(4), where m = "live_metrics l"
          and u = "(live_user l)\<lparr>live_book_writer := s, live_trade_writer := s'\<rparr>"])
      (use m close_end_worker [OF BookClosed(2)] in \<open>simp_all add: live_set_book_def live_set_trade_def\<close>)
next
  case (TradeClosed l w w' s)
  have "worker (live_book_writer (live_user l)) = NoThread" using TradeClosed(1,3) by (simp add: live_inv_def)
  then show ?case
    by (intro live_inv_other [OF TradeClosed(3), where m = "live_metrics l" and u = "(live_user l)\<lparr>live_trade_writer := s\<rparr>"]
        live_matches_worker(1) [OF _ TradeClosed(4,2)]) (simp_all add: live_set_trade_def close_end_worker [OF TradeClosed(2)])
qed

lemma live_run_inv:
  "live_run api cfg steady c es c' \<Longrightarrow> live_inv api cfg ct cb [] c \<Longrightarrow> same_dir ct cb \<Longrightarrow> live_inv api cfg ct cb es c'"
  by (induction rule: live_run.induct) (blast intro: live_step_inv)+

lemma live_start_opens:
  assumes "run_live_start w cfg = Live_Ready w0 l0"
  obtains wa ts bs where "open_writer w new_writer (cfg_data_dir cfg) (ring_buffer_size cfg) = (wa, ts, Opened)"
    and "open_writer wa new_writer (cfg_data_dir cfg) (ring_buffer_size cfg) = (w0, bs, Opened)"
    and "live_inv api cfg (wa, ts) (w0, bs) [] (w0, l0)" and "same_dir (wa, ts) (w0, bs)"
proof -
  obtain wa ts bs tc bc where o: "open_writer w new_writer (cfg_data_dir cfg) (ring_buffer_size cfg) = (wa, ts, Opened)"
    "open_writer wa new_writer (cfg_data_dir cfg) (ring_buffer_size cfg) = (w0, bs, Opened)"
    and r: "ring_new zero_trade (ring_buffer_size cfg) = Inr tc" "ring_new zero_orderbook (ring_buffer_size cfg) = Inr bc"
    and l0: "live_pc l0 = Live_Serving" "live_cm l0 = new_conn \<lparr>live_trade_cache = tc, live_book_cache = bc, live_trade_writer = ts, live_book_writer = bs,
                     live_trade_print_count = 0, live_book_print_count = 0, live_console = [], live_reading = 0\<rparr>"
    using assms by (auto simp: run_live_start_def split: list.splits if_splits prod.splits sum.splits)
  note i = opened_pair [OF o]
  have "live_matches (ring_buffer_size cfg) (wa, ts) (w0, bs) w0 (live_user l0) empty_log"
    using i(2) cached_new [OF r(1)] cached_new [OF r(2)] by (simp add: live_matches_def l0 new_conn_def)
  then have "live_sim (ring_buffer_size cfg) (wa, ts) (w0, bs) w0 (live_cm l0) (new_conn empty_log)"
    by (simp add: live_mode.sim_def l0 new_conn_def)
  then have "live_inv api cfg (wa, ts) (w0, bs) [] (w0, l0)"
    by (simp add: live_inv_def l0(1) logged_def counted_def new_conn_def new_metrics_def)
  with that [OF o _ i(1)] show thesis by blast
qed

section \<open>The replay mode after a session\<close>

lemma run_replay_of_session:
  assumes "session_files TradeRecord (map trade_bytes tr) w dir" and "session_files OrderBookRecord (map orderbook_bytes bo) w dir"
    and "sorted (map (rec_recv_ts_us \<circ> trade_bytes) tr)" and "sorted (map (rec_recv_ts_us \<circ> orderbook_bytes) bo)"
    and "\<And>t. t \<in> set tr \<Longrightarrow> trade_wf t" and "\<And>b. b \<in> set bo \<Longrightarrow> orderbook_wf b" and "cfg_data_dir cfg = dir"
  shows "\<exists>w' rt rb. run_replay w cfg = (w', printed 10000 Replay_Trade 0 (map stamped_trade tr) @ [Replay_Summary TradeRecord rt]
      @ printed 1000 Replay_Book 0 (map stamped_book bo) @ [Replay_Summary OrderBookRecord rb], if tr = [] \<or> bo = [] then 1 else 0)
    \<and> records_replayed rt = of_nat (length tr) \<and> records_replayed rb = of_nat (length bo)
    \<and> completed rt = (tr \<noteq> []) \<and> completed rb = (bo \<noteq> [])"
proof -
  obtain w1 rt where t: "replay_trades w dir (Some (replay_counter 10000 Replay_Trade)) None None (0, [])
      = (w1, (of_nat (length tr), printed 10000 Replay_Trade 0 (map stamped_trade tr)), rt)" "same_disk w w1" "replayed_ok (length tr) rt"
    using replay_trades_of_session [where cb = "replay_counter 10000 Replay_Trade" and s = "(0, [])", OF assms(1,3,5) replay_counter_not_throw]
      foldl_counter [of 10000 Replay_Trade 0 "[]" "map stamped_trade tr"] by auto
  have f: "session_files OrderBookRecord (map orderbook_bytes bo) w1 dir" by (rule session_files_disk [OF assms(2) t(2)])
  obtain w2 rb where "replay_orderbooks w1 dir (Some (replay_counter 1000 Replay_Book)) None None (0, [])
      = (w2, (of_nat (length bo), printed 1000 Replay_Book 0 (map stamped_book bo)), rb)" "replayed_ok (length bo) rb"
    using replay_orderbooks_of_session [where cb = "replay_counter 1000 Replay_Book" and s = "(0, [])", OF f assms(4,6) replay_counter_not_throw]
      foldl_counter [of 1000 Replay_Book 0 "[]" "map stamped_book bo"] by auto
  with t assms(7) show ?thesis by (simp add: run_replay_def replayed_ok_def)
qed

section \<open>Properties\<close>

text \<open>(C4) A session of the live mode, then the replay mode. Let \<open>run_live\<close> start in a directory without hour files and run
  to its end, under any messages and any interleaving of the I/O thread, the worker threads, the
  reporter and the signal; no file call fails, the wall clock does not run backwards, and every
  record counted as received was written. Then the connection manager delivered what it delivers
  to a bare log; the trade cache and the book cache hold the last \<open>ring_buffer_size\<close> records of
  it; and \<open>run_replay\<close> prints the sampled records of exactly this log with their numbers, reports
  the full counts, and exits with 0, unless the log has no trade or no book, when it exits with 1.
\<close>
theorem live_then_replay:
  assumes "run_live_start w cfg = Live_Ready w0 l0" and "ring_buffer_size cfg < 2 ^ 64" and "no_faults w"
    and "distinct_names w (cfg_data_dir cfg)" and "\<forall>k n. own_name k n \<longrightarrow> get_node w (cfg_data_dir cfg) n = None"
    and "live_run api cfg steady (w0, l0) es (w1, l1)" and "live_pc l1 = Live_Done"
    and "\<forall>ts \<in> set (live_clocks es). 0 < sint ts \<and> sint ts < end_of_9999_us" and "sorted (map sint (live_clocks es))"
    and "length (live_messages es) < 2 ^ 64"
    and "records_written (live_trade_writer (live_user l1)) = trades_parsed (live_metrics l1)"
    and "records_written (live_book_writer (live_user l1)) = orderbooks_parsed (live_metrics l1)"
  shows "\<exists>d w2 rt rb. run_messages api cfg quiet_log (live_messages es) (new_conn empty_log) = Some d
    \<and> (\<forall>k. ring_snapshot (live_trade_cache (live_user l1)) k = last_n (min k (ring_buffer_size cfg)) (trade_log (user d))
        \<and> ring_snapshot (live_book_cache (live_user l1)) k = last_n (min k (ring_buffer_size cfg)) (book_log (user d)))
    \<and> run_replay w1 cfg = (w2, printed 10000 Replay_Trade 0 (map stamped_trade (trade_log (user d))) @ [Replay_Summary TradeRecord rt]
        @ printed 1000 Replay_Book 0 (map stamped_book (book_log (user d))) @ [Replay_Summary OrderBookRecord rb],
        if trade_log (user d) = [] \<or> book_log (user d) = [] then 1 else 0)
    \<and> records_replayed rt = of_nat (length (trade_log (user d))) \<and> records_replayed rb = of_nat (length (book_log (user d)))"
proof -
  obtain wa ts bs where o: "open_writer w new_writer (cfg_data_dir cfg) (ring_buffer_size cfg) = (wa, ts, Opened)"
    "open_writer wa new_writer (cfg_data_dir cfg) (ring_buffer_size cfg) = (w0, bs, Opened)"
    and i0: "live_inv api cfg (wa, ts) (w0, bs) [] (w0, l0)" and sd: "same_dir (wa, ts) (w0, bs)"
    by (rule live_start_opens [OF assms(1)])
  have i: "live_inv api cfg (wa, ts) (w0, bs) es (w1, l1)" by (rule live_run_inv [OF assms(6) i0 sd])
  then obtain d where d: "run_messages api cfg quiet_log (live_messages es) (new_conn empty_log) = Some d"
    "live_sim (ring_buffer_size cfg) (wa, ts) (w0, bs) w1 (live_cm l1) d" "logged (live_clocks es) (user d)" "counted (conn_metrics d) (user d)"
    by (auto simp: live_inv_def)
  have th: "worker (live_trade_writer (live_user l1)) = NoThread" "worker (live_book_writer (live_user l1)) = NoThread"
    using i assms(7) by (simp_all add: live_inv_def)
  have m: "live_matches (ring_buffer_size cfg) (wa, ts) (w0, bs) w1 (live_user l1) (user d)"
    and mc: "message_counts (live_metrics l1) = message_counts (conn_metrics d)" using d(2) by (simp_all add: live_mode.sim_def)
  have n: "records_written (live_trade_writer (live_user l1)) = of_nat (length (trade_log (user d)))"
    "records_written (live_book_writer (live_user l1)) = of_nat (length (book_log (user d)))"
    using assms(11,12) d(4) mc by (simp_all add: counted_def message_counts_def)
  have s: "pair_inv (wa, ts) (w0, bs) w1 (live_trade_writer (live_user l1)) (live_book_writer (live_user l1)) (user d)"
    using m by (simp add: live_matches_def)
  have cl: "length (live_clocks es) < 2 ^ 64" using assms(10) by simp
  note f = session_of_log [OF o assms(2-5) s th d(3) assms(8,9) cl n]
  have "ring_snapshot (live_trade_cache (live_user l1)) k = last_n (min k (ring_buffer_size cfg)) (trade_log (user d))
      \<and> ring_snapshot (live_book_cache (live_user l1)) k = last_n (min k (ring_buffer_size cfg)) (book_log (user d))" for k
    using m by (simp add: live_matches_def cached_snapshot)
  with run_replay_of_session [OF f refl] d(1) show ?thesis by blast
qed

section \<open>Shutting down\<close>

lemma live_run_trans:
  "live_run api cfg steady c' fs c'' \<Longrightarrow> live_run api cfg steady c es c' \<Longrightarrow> live_run api cfg steady c (es @ fs) c''"
proof (induction rule: live_run.induct)
  case (Continue fs c1 e c2)
  then show ?case using live_run.Continue [of api cfg steady c "es @ fs" c1 e c2] by simp
qed simp

lemma live_run_one: "live_step api cfg steady c e c' \<Longrightarrow> live_run api cfg steady c [e] c'"
  using live_run.Continue [OF live_run.Begin, of api cfg steady c e c'] by simp

lemma live_set_sel [simp]:
  "live_trade_writer (live_user (live_set_trade s l)) = s" "live_book_writer (live_user (live_set_trade s l)) = live_book_writer (live_user l)"
  "live_trade_writer (live_user (live_set_book s l)) = live_trade_writer (live_user l)" "live_book_writer (live_user (live_set_book s l)) = s"
  "live_set_trade s (live_set_trade s' l) = live_set_trade s l" "live_set_trade (live_trade_writer (live_user l)) l = l"
  "live_set_book s (live_set_book s' l) = live_set_book s l" "live_set_book (live_book_writer (live_user l)) l = l"
  "live_pc (live_set_trade s l) = live_pc l" "live_pc (live_set_book s l) = live_pc l"
  "live_metrics (live_set_trade s l) = live_metrics l" "live_metrics (live_set_book s l) = live_metrics l"
  by (simp_all add: live_set_trade_def live_set_book_def)

interpretation live_trade_host: worker_host TradeRecord "live_step api cfg steady" "live_run api cfg steady"
  "\<lambda>l. live_trade_writer (live_user l)" live_set_trade Live_Trade_Worker for api cfg steady
  by unfold_locales (auto intro: live_run.intros live_step.TradeWorker)

interpretation live_book_host: worker_host OrderBookRecord "live_step api cfg steady" "live_run api cfg steady"
  "\<lambda>l. live_book_writer (live_user l)" live_set_book Live_Book_Worker for api cfg steady
  by unfold_locales (auto intro: live_run.intros live_step.BookWorker)

lemma flush_fields:
  "live_trade_writer (live_user (live_flush l)) = live_trade_writer (live_user l)"
  "live_book_writer (live_user (live_flush l)) = live_book_writer (live_user l)"
  "live_pc (live_flush l) = live_pc l" "\<not> live_reporting (live_flush l)" "g_running (live_flush l) = g_running l"
  "message_counts (live_metrics (live_flush l)) = message_counts (live_metrics l)"
  using flush_counts [of "live_metrics l"] by (auto simp: live_flush_def live_set_metrics_def split: prod.splits)

lemma live_shutdown_run:
  assumes "live_pc l = Live_Serving" and "live_reporting l" and "session_inv (live_trade_writer (live_user l))"
    and "session_inv (live_book_writer (live_user l))"
    and "\<not> closing (live_trade_writer (live_user l))" and "\<not> closing (live_book_writer (live_user l))"
  obtains tes bes wm w' l' where
    "live_run api cfg steady (w, l) ([Live_Signal, Live_Flush, Live_Shutdown] @ map Live_Book_Worker bes @ [Live_Book_Closed]
       @ map Live_Trade_Worker tes @ [Live_Trade_Closed]) (w', l')"
    and "live_pc l' = Live_Done" and "message_counts (live_metrics l') = message_counts (live_metrics l)"
    and "writer_idle (live_trade_writer (live_user l'))" and "writer_idle (live_book_writer (live_user l'))"
    and "wrun OrderBookRecord (w, live_book_writer (live_user l)) (EvCloseBegin # bes @ [EvCloseEnd]) (wm, live_book_writer (live_user l'))"
    and "wrun TradeRecord (wm, live_trade_writer (live_user l)) (EvCloseBegin # tes @ [EvCloseEnd]) (w', live_trade_writer (live_user l'))"
    and "accepted tes = []" and "accepted bes = []"
    and "length tes \<le> work_left (live_trade_writer (live_user l))" and "length bes \<le> work_left (live_book_writer (live_user l))"
proof -
  let ?t = "live_trade_writer (live_user l)" and ?b = "live_book_writer (live_user l)"
  obtain bes w1 s1 w2 s2 where b: "wstep OrderBookRecord (w, ?b) EvCloseBegin (w, close_begin ?b)"
    "wrun OrderBookRecord (w, close_begin ?b) bes (w1, s1)" "list_all worker_event bes"
    "length bes \<le> work_left ?b" "wstep OrderBookRecord (w1, s1) EvCloseEnd (w2, s2)" "writer_idle s2"
    "wrun OrderBookRecord (w, ?b) (EvCloseBegin # bes @ [EvCloseEnd]) (w2, s2)" "accepted bes = []"
    by (rule close_writer_run [OF assms(4,6)])
  obtain tes w3 s3 w4 s4 where t: "wstep TradeRecord (w2, ?t) EvCloseBegin (w2, close_begin ?t)"
    "wrun TradeRecord (w2, close_begin ?t) tes (w3, s3)" "list_all worker_event tes"
    "length tes \<le> work_left ?t" "wstep TradeRecord (w3, s3) EvCloseEnd (w4, s4)" "writer_idle s4"
    "wrun TradeRecord (w2, ?t) (EvCloseBegin # tes @ [EvCloseEnd]) (w4, s4)" "accepted tes = []"
    by (rule close_writer_run [OF assms(3,5)])
  define l1 where "l1 = live_flush (l\<lparr>g_running := False\<rparr>)"
  have l1: "live_trade_writer (live_user l1) = ?t" "live_book_writer (live_user l1) = ?b" "live_pc l1 = Live_Serving"
    "\<not> live_reporting l1" "\<not> g_running l1" "message_counts (live_metrics l1) = message_counts (live_metrics l)"
    using assms(1) by (simp_all add: l1_def flush_fields)
  define l2 where "l2 = (live_set_book (close_begin ?b) l1)\<lparr>live_pc := Live_Closing_Book\<rparr>"
  define l3 where "l3 = live_set_book s1 l2"
  define l4 where "l4 = (live_set_trade (close_begin ?t) (live_set_book s2 l3))\<lparr>live_pc := Live_Closing_Trade\<rparr>"
  define l5 where "l5 = live_set_trade s3 l4"
  define l6 where "l6 = (live_set_trade s4 l5)\<lparr>live_pc := Live_Done\<rparr>"
  have u: "live_cm l2 = live_cm (live_set_book (close_begin ?b) l1)" "live_cm l4 = live_cm (live_set_trade (close_begin ?t) (live_set_book s2 l3))"
    "live_cm l6 = live_cm (live_set_trade s4 l5)" by (simp_all add: l2_def l4_def l6_def)
  have "live_run api cfg steady (w, l) [Live_Signal] (w, l\<lparr>g_running := False\<rparr>)"
    by (rule live_run_one [OF live_step.Signal])
  moreover have "live_run api cfg steady (w, l\<lparr>g_running := False\<rparr>) [Live_Flush] (w, l1)"
    unfolding l1_def by (rule live_run_one [OF live_step.Flush]) (use assms(2) in simp_all)
  moreover have "live_run api cfg steady (w, l1) [Live_Shutdown] (w, l2)"
    unfolding l2_def by (rule live_run_one [OF live_step.Shutdown]) (use l1 b(1) in simp_all)
  moreover have "live_run api cfg steady (w, l2) (map Live_Book_Worker bes) (w1, l3)"
    using live_book_host.worker_run [OF b(2) _ b(3), of w l2] by (simp add: u l3_def)
  moreover have "live_run api cfg steady (w1, l3) [Live_Book_Closed] (w2, l4)"
    unfolding l4_def by (rule live_run_one [OF live_step.BookClosed])
      (use b(5) t(1) l1 in \<open>simp_all add: l3_def u, simp_all add: l2_def\<close>)
  moreover have "live_run api cfg steady (w2, l4) (map Live_Trade_Worker tes) (w3, l5)"
    using live_trade_host.worker_run [OF t(2) _ t(3), of w2 l4] by (simp add: u l5_def)
  moreover have "live_run api cfg steady (w3, l5) [Live_Trade_Closed] (w4, l6)"
    unfolding l6_def by (rule live_run_one [OF live_step.TradeClosed]) (use t(5) in \<open>simp_all add: l5_def, simp_all add: l4_def\<close>)
  ultimately have "live_run api cfg steady (w, l) ([Live_Signal] @ [Live_Flush] @ [Live_Shutdown] @ map Live_Book_Worker bes
      @ [Live_Book_Closed] @ map Live_Trade_Worker tes @ [Live_Trade_Closed]) (w4, l6)"
    by (blast intro: live_run_trans)
  moreover have "live_trade_writer (live_user l6) = s4" "live_book_writer (live_user l6) = s2" by (simp_all add: u l5_def)
  moreover have "live_pc l6 = Live_Done" by (simp add: l6_def)
  moreover have "message_counts (live_metrics l6) = message_counts (live_metrics l)"
    using l1(6) by (simp add: u l5_def l3_def)
  ultimately show thesis using that [of bes tes w4 l6 w2] t(4,6,7,8) b(4,6,7,8) by simp
qed

section \<open>A concrete session\<close>

text \<open>The writers of the live mode have been offered the records of the log, in order.\<close>

definition live_offered :: "writer \<Rightarrow> writer \<Rightarrow> live_env \<Rightarrow> feed_log \<Rightarrow> bool" where
  "live_offered ts bs e u \<longleftrightarrow> live_trade_writer e = foldl (\<lambda>s t. fst (write_record s (trade_bytes t))) ts (trade_log u)
     \<and> live_book_writer e = foldl (\<lambda>s b. fst (write_record s (orderbook_bytes b))) bs (book_log u)"

interpretation live_offer: callback_simulation "live_callbacks steady" quiet_log "live_offered ts bs" same_counts for steady ts bs
proof (unfold_locales, goal_cases)
  case (1 f m m')
  then show ?case unfolding counts_alone_def by blast
next
  case (2 m m' u v t)
  then show ?case
    by (auto simp: invoke_Some live_callbacks_def log_callbacks_def live_on_trade_def live_offered_def Let_def split: prod.splits)
next
  case (3 m m' u v b)
  then show ?case
    by (auto simp: invoke_Some live_callbacks_def log_callbacks_def live_on_orderbook_def live_offered_def Let_def split: prod.splits)
qed

abbreviation two_messages :: "(raw_clock \<times> string) list" where
  "two_messages \<equiv> [(demo_clock, ''t1''), (demo_clock, ''b5'')]"

lemma two_messages_log:
  assumes "run_messages demo_api default_config quiet_log two_messages (new_conn empty_log) = Some d"
  obtains t b where "user d = \<lparr>trade_log = [t], book_log = [b]\<rparr>" and "trade_wf t" and "orderbook_wf b"
    and "recv_ts_us t = 1700000000000000" and "ob_recv_ts_us b = 1700000000000000" and "tid t = 1" and "uid b = 5"
    and "trades_parsed (conn_metrics d) = 1" and "orderbooks_parsed (conn_metrics d) = 1"
proof -
  obtain d1 where d1: "on_raw_message demo_api default_config quiet_log demo_clock ''t1'' (new_conn empty_log) = Some d1"
    "on_raw_message demo_api default_config quiet_log demo_clock ''b5'' d1 = Some d"
    using assms by (auto split: bind_splits)
  from d1(1) have t: "\<exists>t. user d1 = empty_log\<lparr>trade_log := [t]\<rparr> \<and> tid t = 1 \<and> last_orderbook_update_id d1 = Map.empty"
  proof (cases rule: message_step)
    case (trade n t g r)
    then have "tid t = 1" using demo_trades(4) by auto
    moreover have "action r = Accept" using trade(3) calculation by (auto simp: gate_of_def new_conn_def on_live_trade_def new_gate_def)
    ultimately show ?thesis using trade(5,6) by (simp add: log_trade_def new_conn_def stamp_recv_def)
  qed (use demo_trades(4) in auto)
  from d1(2) have b: "\<exists>b. user d = (user d1)\<lparr>book_log := book_log (user d1) @ [b]\<rparr> \<and> uid b = 5"
  proof (cases rule: message_step)
    case (book n b)
    then have "uid b = 5" using demo_book(1) [OF demo_trades(1)] by auto
    moreover have "last_update_of d1 n = 0" using t by (auto simp: last_update_of_def)
    ultimately show ?thesis using book(5)
      by (intro exI [of _ "ob_stamp_recv b (wall_us demo_clock)"]) (simp add: log_book_def book_ok_def ob_stamp_recv_def)
  qed (use demo_trades(1) demo_book(1) [OF demo_trades(1)] in auto)
  have "logged [1700000000000000] (user d1)"
    using log_message_logged [OF d1(1), of "[]"] by (simp add: logged_def new_conn_def demo_clock_def)
  from log_message_logged [OF d1(2) this] have l: "logged [1700000000000000, 1700000000000000] (user d)" by (simp add: demo_clock_def)
  obtain t b where tb: "user d = \<lparr>trade_log = [t], book_log = [b]\<rparr>" "tid t = 1" "uid b = 5" using t b by auto
  with l have "recv_ts_us t = 1700000000000000" "ob_recv_ts_us b = 1700000000000000" "trade_wf t" "orderbook_wf b"
    by (auto simp: logged_def split: if_splits)
  moreover have "counted (conn_metrics d1) (user d1)"
    by (rule log_message_counted [OF d1(1)]) (simp add: counted_def new_conn_def new_metrics_def)
  then have "counted (conn_metrics d) (user d)" by (rule log_message_counted [OF d1(2)])
  then have "trades_parsed (conn_metrics d) = 1" "orderbooks_parsed (conn_metrics d) = 1" by (simp_all add: counted_def tb(1))
  ultimately show thesis using that [OF tb(1)] tb(2,3) by blast
qed

lemma live_serves:
  assumes "run_messages api cfg (live_callbacks steady) ms (live_cm l) = Some c" and "live_pc l = Live_Serving"
  shows "live_run api cfg steady (w, l) (map (\<lambda>(clk, msg). Live_Message clk msg) ms) (w, l\<lparr>live_cm := c\<rparr>)"
  using assms
proof (induction ms arbitrary: l)
  case Nil
  then have "l\<lparr>live_cm := c\<rparr> = l" by (cases l) simp
  then show ?case by (simp add: live_run.Begin)
next
  case (Cons m ms)
  obtain clk msg where m: "m = (clk, msg)" by (cases m)
  with Cons.prems obtain c1 where c1: "on_raw_message api cfg (live_callbacks steady) clk msg (live_cm l) = Some c1"
    "run_messages api cfg (live_callbacks steady) ms c1 = Some c" by (auto split: bind_splits)
  have 1: "live_run api cfg steady (w, l) [Live_Message clk msg] (w, l\<lparr>live_cm := c1\<rparr>)"
    using live_run_one [OF live_step.Message [OF Cons.prems(2) c1(1)]] by simp
  have "live_run api cfg steady (w, l\<lparr>live_cm := c1\<rparr>) (map (\<lambda>(clk, msg). Live_Message clk msg) ms) (w, l\<lparr>live_cm := c\<rparr>)"
    using Cons.IH [of "l\<lparr>live_cm := c1\<rparr>"] c1(2) Cons.prems(2) by simp
  from live_run_trans [OF this 1] show ?case by (simp add: m)
qed

text \<open>The start in an empty world, the two messages, and what both writers have written when they are closed.\<close>

lemma demo_live_start:
  obtains wa ts w0 bs l0 e0 where
    "open_writer (empty_world (\<lambda>_ _. None)) new_writer (cfg_data_dir default_config) 100000 = (wa, ts, Opened)"
    and "open_writer wa new_writer (cfg_data_dir default_config) 100000 = (w0, bs, Opened)"
    and "run_live_start (empty_world (\<lambda>_ _. None)) default_config = Live_Ready w0 l0"
    and "live_cm l0 = new_conn e0" and "live_offered ts bs e0 empty_log" and "live_pc l0 = Live_Serving" and "live_reporting l0"
proof -
  let ?w = "empty_world (\<lambda>_ _. None)" and ?d = "cfg_data_dir default_config"
  have cfg: "ring_buffer_size default_config = 100000" "data_sources default_config \<noteq> []" "ds_ws_url (hd (data_sources default_config)) \<noteq> []"
    by (simp_all add: default_config_def)
  obtain wa ts w0 bs where o: "open_writer ?w new_writer ?d 100000 = (wa, ts, Opened)" "open_writer wa new_writer ?d 100000 = (w0, bs, Opened)"
    by (rule open_pair [OF empty_world_facts(1), of 100000]) simp
  obtain tc bc where r: "ring_new zero_trade 100000 = Inr tc" "ring_new zero_orderbook 100000 = Inr bc"
    by (auto simp: ring_new_def validate_capacity_def)
  have "run_live_start ?w default_config = Live_Ready w0 \<lparr>live_cm = new_conn \<lparr>live_trade_cache = tc, live_book_cache = bc, live_trade_writer = ts,
      live_book_writer = bs, live_trade_print_count = 0, live_book_print_count = 0, live_console = [], live_reading = 0\<rparr>, g_running = True,
      live_reporting = True, live_reporter = new_reporter, live_out = [], live_pc = Live_Serving\<rparr>"
    using cfg o r by (cases "data_sources default_config") (simp_all add: run_live_start_def)
  from that [OF o this] show thesis by (simp add: live_offered_def new_conn_def)
qed

lemma demo_live_messages:
  assumes "live_cm l0 = new_conn e0" and "live_offered ts bs e0 empty_log" and "live_pc l0 = Live_Serving" and "live_reporting l0"
  obtains l d t b where "run_messages demo_api default_config quiet_log two_messages (new_conn empty_log) = Some d"
    and "live_run demo_api default_config (\<lambda>_. 0) (w0, l0) [Live_Message demo_clock ''t1'', Live_Message demo_clock ''b5''] (w0, l)"
    and "user d = \<lparr>trade_log = [t], book_log = [b]\<rparr>" and "trade_wf t" and "orderbook_wf b"
    and "recv_ts_us t = 1700000000000000" and "ob_recv_ts_us b = 1700000000000000" and "tid t = 1" and "uid b = 5"
    and "trades_parsed (live_metrics l) = 1" and "orderbooks_parsed (live_metrics l) = 1"
    and "live_trade_writer (live_user l) = fst (write_record ts (trade_bytes t))"
    and "live_book_writer (live_user l) = fst (write_record bs (orderbook_bytes b))" and "live_pc l = Live_Serving" and "live_reporting l"
proof -
  obtain c where c: "run_messages demo_api default_config (live_callbacks (\<lambda>_. 0)) two_messages (live_cm l0) = Some c"
    using run_messages_total [of two_messages demo_api default_config "new_conn e0" "live_callbacks (\<lambda>_. 0)"]
      demo_runs [of two_messages] new_conn_safe by (fastforce simp: assms(1))
  have "live_offer.sim ts bs (live_cm l0) (new_conn empty_log)"
    using assms(2) by (simp add: assms(1) live_offer.sim_def new_conn_def)
  from live_offer.sim_messages [OF this, of demo_api default_config "\<lambda>_. 0" two_messages] c obtain d where
    d: "run_messages demo_api default_config quiet_log two_messages (new_conn empty_log) = Some d" "live_offer.sim ts bs c d"
    by (cases "run_messages demo_api default_config quiet_log two_messages (new_conn empty_log)") auto
  obtain t b where tb: "user d = \<lparr>trade_log = [t], book_log = [b]\<rparr>" "trade_wf t" "orderbook_wf b" "recv_ts_us t = 1700000000000000"
    "ob_recv_ts_us b = 1700000000000000" "tid t = 1" "uid b = 5" "trades_parsed (conn_metrics d) = 1" "orderbooks_parsed (conn_metrics d) = 1"
    by (rule two_messages_log [OF d(1)])
  have "live_run demo_api default_config (\<lambda>_. 0) (w0, l0) [Live_Message demo_clock ''t1'', Live_Message demo_clock ''b5''] (w0, l0\<lparr>live_cm := c\<rparr>)"
    using live_serves [OF c assms(3), of w0] by simp
  moreover have "live_trade_writer (user c) = fst (write_record ts (trade_bytes t))" "live_book_writer (user c) = fst (write_record bs (orderbook_bytes b))"
    "message_counts (conn_metrics c) = message_counts (conn_metrics d)"
    using d(2) by (simp_all add: live_offer.sim_def live_offered_def tb(1))
  ultimately show thesis
    using that [OF d(1) _ tb(1-7), of "l0\<lparr>live_cm := c\<rparr>"] tb(8,9) assms(3,4) by (simp add: message_counts_def)
qed

lemma both_written:
  assumes "open_writer (empty_world (\<lambda>_ _. None)) new_writer dir 100000 = (wa, ts, Opened)" and "open_writer wa new_writer dir 100000 = (w0, bs, Opened)"
    and "good_rec TradeRecord r" and "good_rec OrderBookRecord r'"
    and "wrun OrderBookRecord (w0, fst (write_record bs r')) (EvCloseBegin # bes @ [EvCloseEnd]) (wm, s2)"
    and "wrun TradeRecord (wm, fst (write_record ts r)) (EvCloseBegin # tes @ [EvCloseEnd]) (w1, s1)"
    and "accepted tes = []" and "accepted bes = []" and "writer_idle s1" and "writer_idle s2"
  shows "records_written s1 = 1" "records_written s2 = 1"
proof -
  note p = opened_pair [OF assms(1,2)] and wa = opened_pair_world [OF assms(1) empty_world_facts(1)]
  note d = open_writer_opened(4) [OF assms(1) new_writer_idle] open_writer_opened(4) [OF assms(2) new_writer_idle] pair_dir [OF p(2,1)]
  have cap: "(100000 :: nat) < 2 ^ 64" by simp
  obtain a where tr: "srun TradeRecord (wa, ts) [EvWrite r a True] (w0, fst (write_record ts r))"
    using srun_put [OF p(3), of r] opened_write [OF assms(1), of r] by auto
  obtain a' where br: "srun OrderBookRecord (w0, bs) [EvWrite r' a' True] (w0, fst (write_record bs r'))"
    using srun_put [OF srun.Start, of OrderBookRecord w0 bs r'] opened_write [OF assms(2), of r'] by auto
  have "others TradeRecord dir w0 wm" using closing_others [OF assms(5), of TradeRecord] d by simp
  from closed_written [OF assms(1) cap empty_world_facts(1) _ tr _ this assms(6,7,9)] show "records_written s1 = 1"
    using assms(3) empty_world_facts(3) by simp
  have "others OrderBookRecord dir w0 w0" by (simp add: others_def)
  from closed_written [OF assms(2) cap wa(1) _ br _ this assms(5,8,10)] show "records_written s2 = 1"
    using assms(4) wa(2) empty_world_facts(3) by simp
qed

lemma demo_live_run:
  obtains w0 l0 es w1 l1 d t b where
    "run_live_start (empty_world (\<lambda>_ _. None)) default_config = Live_Ready w0 l0"
    and "live_run demo_api default_config (\<lambda>_. 0) (w0, l0) es (w1, l1)" and "live_pc l1 = Live_Done" and "live_messages es = two_messages"
    and "run_messages demo_api default_config quiet_log two_messages (new_conn empty_log) = Some d"
    and "user d = \<lparr>trade_log = [t], book_log = [b]\<rparr>" and "tid t = 1" and "uid b = 5"
    and "records_written (live_trade_writer (live_user l1)) = trades_parsed (live_metrics l1)"
    and "records_written (live_book_writer (live_user l1)) = orderbooks_parsed (live_metrics l1)"
proof -
  obtain wa ts w0 bs l0 e0 where s: "open_writer (empty_world (\<lambda>_ _. None)) new_writer (cfg_data_dir default_config) 100000 = (wa, ts, Opened)"
    "open_writer wa new_writer (cfg_data_dir default_config) 100000 = (w0, bs, Opened)"
    "run_live_start (empty_world (\<lambda>_ _. None)) default_config = Live_Ready w0 l0"
    "live_cm l0 = new_conn e0" "live_offered ts bs e0 empty_log" "live_pc l0 = Live_Serving" "live_reporting l0"
    by (rule demo_live_start)
  obtain l d t b where m: "run_messages demo_api default_config quiet_log two_messages (new_conn empty_log) = Some d"
    "live_run demo_api default_config (\<lambda>_. 0) (w0, l0) [Live_Message demo_clock ''t1'', Live_Message demo_clock ''b5''] (w0, l)"
    "user d = \<lparr>trade_log = [t], book_log = [b]\<rparr>" "trade_wf t" "orderbook_wf b"
    "recv_ts_us t = 1700000000000000" "ob_recv_ts_us b = 1700000000000000" "tid t = 1" "uid b = 5"
    "trades_parsed (live_metrics l) = 1" "orderbooks_parsed (live_metrics l) = 1"
    "live_trade_writer (live_user l) = fst (write_record ts (trade_bytes t))"
    "live_book_writer (live_user l) = fst (write_record bs (orderbook_bytes b))" "live_pc l = Live_Serving" "live_reporting l"
    by (rule demo_live_messages [OF s(4-7)])
  obtain tes bes wm w1 l1 where x: "live_run demo_api default_config (\<lambda>_. 0) (w0, l) ([Live_Signal, Live_Flush, Live_Shutdown]
      @ map Live_Book_Worker bes @ [Live_Book_Closed] @ map Live_Trade_Worker tes @ [Live_Trade_Closed]) (w1, l1)"
    "live_pc l1 = Live_Done" "message_counts (live_metrics l1) = message_counts (live_metrics l)"
    "writer_idle (live_trade_writer (live_user l1))" "writer_idle (live_book_writer (live_user l1))"
    "wrun OrderBookRecord (w0, live_book_writer (live_user l)) (EvCloseBegin # bes @ [EvCloseEnd]) (wm, live_book_writer (live_user l1))"
    "wrun TradeRecord (wm, live_trade_writer (live_user l)) (EvCloseBegin # tes @ [EvCloseEnd]) (w1, live_trade_writer (live_user l1))"
    "accepted tes = []" "accepted bes = []"
    by (rule live_shutdown_run [where l = l and w = w0 and api = demo_api and cfg = default_config and steady = "\<lambda>_. 0"])
      (use opened_write [OF s(1)] opened_write [OF s(2)] m(12-15) in simp_all)
  have g: "good_rec TradeRecord (trade_bytes t)" "good_rec OrderBookRecord (orderbook_bytes b)"
    using m(4-7) by (simp_all add: good_rec_def recv_trade_bytes recv_orderbook_bytes)
  note both_written [OF s(1,2) g x(6,7) [unfolded m(12,13)] x(8,9,4,5)]
  moreover have "trades_parsed (live_metrics l1) = 1" "orderbooks_parsed (live_metrics l1) = 1"
    using x(3) m(10,11) by (simp_all add: message_counts_def)
  moreover have "live_messages (map Live_Trade_Worker xs) = []" "live_messages (map Live_Book_Worker xs) = []" for xs
    by (induction xs) simp_all
  ultimately show thesis using that [OF s(3) live_run_trans [OF x(1) m(2)] x(2) _ m(1,3,8,9)] by simp
qed

theorem live_then_replay_witness:
  "\<exists>w0 l0 es w1 l1 t b w2 rt rb. run_live_start (empty_world (\<lambda>_ _. None)) default_config = Live_Ready w0 l0
     \<and> live_run demo_api default_config (\<lambda>_. 0) (w0, l0) es (w1, l1) \<and> live_pc l1 = Live_Done
     \<and> ring_snapshot (live_trade_cache (live_user l1)) 10 = [t] \<and> tid t = 1 \<and> uid b = 5
     \<and> run_replay w1 default_config = (w2, [Replay_Trade 1 (stamped_trade t), Replay_Summary TradeRecord rt,
         Replay_Book 1 (stamped_book b), Replay_Summary OrderBookRecord rb], 0) \<and> records_replayed rt = 1"
proof -
  obtain w0 l0 es w1 l1 d t b where *: "run_live_start (empty_world (\<lambda>_ _. None)) default_config = Live_Ready w0 l0"
    "live_run demo_api default_config (\<lambda>_. 0) (w0, l0) es (w1, l1)" "live_pc l1 = Live_Done" "live_messages es = two_messages"
    "run_messages demo_api default_config quiet_log two_messages (new_conn empty_log) = Some d"
    "user d = \<lparr>trade_log = [t], book_log = [b]\<rparr>" "tid t = 1" "uid b = 5"
    "records_written (live_trade_writer (live_user l1)) = trades_parsed (live_metrics l1)"
    "records_written (live_book_writer (live_user l1)) = orderbooks_parsed (live_metrics l1)" by (rule demo_live_run)
  have n: "ring_buffer_size default_config = 100000" by (simp add: default_config_def)
  have "\<exists>d w2 rt rb. run_messages demo_api default_config quiet_log (live_messages es) (new_conn empty_log) = Some d
    \<and> (\<forall>k. ring_snapshot (live_trade_cache (live_user l1)) k = last_n (min k (ring_buffer_size default_config)) (trade_log (user d))
        \<and> ring_snapshot (live_book_cache (live_user l1)) k = last_n (min k (ring_buffer_size default_config)) (book_log (user d)))
    \<and> run_replay w1 default_config = (w2, printed 10000 Replay_Trade 0 (map stamped_trade (trade_log (user d))) @ [Replay_Summary TradeRecord rt]
        @ printed 1000 Replay_Book 0 (map stamped_book (book_log (user d))) @ [Replay_Summary OrderBookRecord rb],
        if trade_log (user d) = [] \<or> book_log (user d) = [] then 1 else 0)
    \<and> records_replayed rt = of_nat (length (trade_log (user d))) \<and> records_replayed rb = of_nat (length (book_log (user d)))"
    by (rule live_then_replay [OF *(1) _ empty_world_facts(1,2) _ *(2,3) _ _ _ *(9,10)])
      (use *(4) n empty_world_facts(3) in \<open>simp_all add: demo_clock_def\<close>)
  then obtain w2 rt rb where r: "run_replay w1 default_config = (w2, [Replay_Trade 1 (stamped_trade t), Replay_Summary TradeRecord rt,
      Replay_Book 1 (stamped_book b), Replay_Summary OrderBookRecord rb], 0)" "records_replayed rt = 1"
    "ring_snapshot (live_trade_cache (live_user l1)) 10 = [t]"
    using *(4,5,6) n by (auto simp: sampled_def last_n_def)
  with * show ?thesis by blast
qed

end
