(* ===== verification/Pipeline_Benchmark.thy ===== *)
theory Pipeline_Benchmark
  imports Live_Replay
begin

text \<open>
  The benchmark mode: \<^verbatim>\<open>src/benchmark/pipeline_benchmark.cpp\<close> and \<^verbatim>\<open>run_bench_pipeline\<close> of
  \<^verbatim>\<open>src/main.cpp\<close>. Two synthetic messages take turns on the message path; the callbacks count
  and check them and, with writing on, cache and write them. \<open>bench_step\<close> interleaves the loop
  with the worker threads. The pauses between messages and the measured durations are not
  modelled; the latency snapshots are.
\<close>

section \<open>The synthetic messages\<close>

definition upper_char :: "char \<Rightarrow> char" where
  "upper_char c = (let n = of_char c :: nat in if 97 \<le> n \<and> n \<le> 122 then char_of (n - 32) else c)"

definition upper_symbol :: "string \<Rightarrow> string" where
  "upper_symbol name = map upper_char name"

definition lower_symbol :: "string \<Rightarrow> string" where
  "lower_symbol name = map lower_char name"

text \<open>The characters of the array up to its first zero byte, or all of them.\<close>

definition symbol_equals :: "byte list \<Rightarrow> nat \<Rightarrow> string \<Rightarrow> bool" where
  "symbol_equals actual capacity expected \<longleftrightarrow>
     (if length expected \<ge> capacity then False
      else (let len = length (takeWhile (\<lambda>x. x \<noteq> 0) (take capacity actual)) in
        len = length expected \<and> take len actual = bytes_of_string expected))"

definition is_valid_symbol :: "string \<Rightarrow> bool" where
  "is_valid_symbol name \<longleftrightarrow> name \<noteq> [] \<and> length name \<le> 15
     \<and> list_all (\<lambda>ch. (CHR ''a'' \<le> ch \<and> ch \<le> CHR ''z'') \<or> (CHR ''A'' \<le> ch \<and> ch \<le> CHR ''Z'') \<or> is_digit ch) name"

abbreviation dq :: string where "dq \<equiv> [CHR 0x22]"

definition quoted :: "string \<Rightarrow> string" where
  "quoted s = dq @ s @ dq"

definition make_trade_message :: "string \<Rightarrow> string" where
  "make_trade_message name =
     ''{'' @ quoted ''stream'' @ '':'' @ quoted (lower_symbol name @ ''@trade'') @ '','' @ quoted ''data'' @ '':{''
     @ quoted ''e'' @ '':'' @ quoted ''trade'' @ '','' @ quoted ''E'' @ '':1777446266491,'' @ quoted ''s'' @ '':'' @ quoted (upper_symbol name) @ '',''
     @ quoted ''t'' @ '':123456789,'' @ quoted ''p'' @ '':'' @ quoted ''108160.55000000'' @ '',''
     @ quoted ''q'' @ '':'' @ quoted ''0.00040000'' @ '','' @ quoted ''b'' @ '':987654321,'' @ quoted ''a'' @ '':987654322,''
     @ quoted ''T'' @ '':1777446266488,'' @ quoted ''m'' @ '':false,'' @ quoted ''M'' @ '':true}}''"

definition bench_levels :: "(nat \<Rightarrow> nat) \<Rightarrow> string" where
  "bench_levels pr = concat (map (\<lambda>i. (if i \<noteq> 0 then '','' else '''') @ ''['' @ quoted (show_nat (pr i) @ ''.55000000'') @ '','' @ quoted ''0.00040000'' @ '']'') [0..<20])"

definition make_orderbook_message :: "string \<Rightarrow> string" where
  "make_orderbook_message name =
     ''{'' @ quoted ''stream'' @ '':'' @ quoted (lower_symbol name @ ''@depth20@100ms'') @ '','' @ quoted ''data'' @ '':{''
     @ quoted ''lastUpdateId'' @ '':1,'' @ quoted ''bids'' @ '':['' @ bench_levels (\<lambda>i. 108160 - i) @ ''],''
     @ quoted ''asks'' @ '':['' @ bench_levels (\<lambda>i. 108161 + i) @ '']}}''"

section \<open>State and callbacks\<close>

record bench_env =
  trade_callbacks :: u64
  book_callbacks :: u64
  validation_errors :: u64
  bench_trade_cache :: "trade ring"
  bench_book_cache :: "orderbook_snapshot ring"
  bench_trade_writer :: writer
  bench_book_writer :: writer

definition count_invalid :: "bool \<Rightarrow> bench_env \<Rightarrow> bench_env" where
  "count_invalid ok e = (if ok then e else e\<lparr>validation_errors := validation_errors e + 1\<rparr>)"

definition bench_on_trade :: "bool \<Rightarrow> string \<Rightarrow> trade \<Rightarrow> metrics \<Rightarrow> bench_env \<Rightarrow> metrics \<times> bench_env \<times> bool" where
  "bench_on_trade enable_write sym_lower t m e =
     (let e1 = e\<lparr>trade_callbacks := trade_callbacks e + 1\<rparr>;
          e2 = count_invalid (symbol_equals (symbol t) (length (symbol t)) sym_lower) e1
      in (m, if enable_write then
               (let e3 = e2\<lparr>bench_trade_cache := ring_push t (bench_trade_cache e2)\<rparr> in
                case write_record (bench_trade_writer e3) (trade_bytes t) of
                  (s, ok) \<Rightarrow> count_invalid ok (e3\<lparr>bench_trade_writer := s\<rparr>))
             else e2, False))"

definition bench_on_orderbook :: "bool \<Rightarrow> string \<Rightarrow> orderbook_snapshot \<Rightarrow> metrics \<Rightarrow> bench_env \<Rightarrow> metrics \<times> bench_env \<times> bool" where
  "bench_on_orderbook enable_write sym_lower b m e =
     (let e1 = e\<lparr>book_callbacks := book_callbacks e + 1\<rparr>;
          e2 = count_invalid (symbol_equals (ob_symbol b) (length (ob_symbol b)) sym_lower) e1
      in (m, if enable_write then
               (let e3 = e2\<lparr>bench_book_cache := ring_push b (bench_book_cache e2)\<rparr> in
                case write_record (bench_book_writer e3) (orderbook_bytes b) of
                  (s, ok) \<Rightarrow> count_invalid ok (e3\<lparr>bench_book_writer := s\<rparr>))
             else e2, False))"

definition bench_callbacks :: "bool \<Rightarrow> string \<Rightarrow> bench_env callbacks" where
  "bench_callbacks enable_write sym_lower =
     \<lparr>on_trade = Some (bench_on_trade enable_write sym_lower), on_orderbook = Some (bench_on_orderbook enable_write sym_lower)\<rparr>"

section \<open>The run\<close>

definition bench_symbol :: "config \<Rightarrow> string" where
  "bench_symbol cfg = (case cfg_symbols cfg of [] \<Rightarrow> ''btcusdt'' | name # _ \<Rightarrow> name)"

definition bench_dir :: "config \<Rightarrow> string" where
  "bench_dir cfg = (let d = cfg_data_dir cfg in
     if d = [] \<or> last d = CHR ''/'' then d @ ''bench_pipeline'' else d @ ''/bench_pipeline'')"

definition bench_message :: "config \<Rightarrow> nat \<Rightarrow> string" where
  "bench_message cfg i = (if i mod 2 = 0 then make_trade_message (bench_symbol cfg) else make_orderbook_message (bench_symbol cfg))"

text \<open>Where the benchmark is: before message \<open>i\<close>, closing a writer, or done.\<close>

datatype bench_pc = Bench_Message_Number nat | Bench_Closing_Book | Bench_Closing_Trade | Bench_Done

record bench =
  bench_cm :: "bench_env conn"
  bench_pc :: bench_pc

datatype bench_error = Bad_Gap | Bad_Symbol | Bad_Capacity | Trade_Writer_Failed | Book_Writer_Failed

text \<open>
  What the part before the loop ends in: an exception, which becomes exit code 1, with the writers
  that \<^verbatim>\<open>WriterCloseGuard\<close> then closes; or the loop.
\<close>

datatype bench_start = Bench_Error bench_error world "writer list" | Bench_Ready world bench

definition run_bench_start :: "world \<Rightarrow> config \<Rightarrow> bool \<Rightarrow> nat \<Rightarrow> bench_start" where
  "run_bench_start w cfg enable_write message_gap_us =
     (if int message_gap_us > i64_max then Bench_Error Bad_Gap w []
      else if \<not> is_valid_symbol (bench_symbol cfg) then Bench_Error Bad_Symbol w []
      else (case (ring_new zero_trade (ring_buffer_size cfg), ring_new zero_orderbook (ring_buffer_size cfg)) of
          (Inr tc, Inr bc) \<Rightarrow>
            (let start = (\<lambda>w ts bs. Bench_Ready w \<lparr>bench_cm = new_conn \<lparr>trade_callbacks = 0, book_callbacks = 0, validation_errors = 0,
                   bench_trade_cache = tc, bench_book_cache = bc, bench_trade_writer = ts, bench_book_writer = bs\<rparr>,
                   bench_pc = Bench_Message_Number 0\<rparr>)
             in if \<not> enable_write then start w new_writer new_writer
                else (case open_writer w new_writer (bench_dir cfg) (ring_buffer_size cfg) of (w1, ts, r1) \<Rightarrow>
                  if r1 \<noteq> Opened then Bench_Error Trade_Writer_Failed w1 []
                  else (case open_writer w1 new_writer (bench_dir cfg) (ring_buffer_size cfg) of (w2, bs, r2) \<Rightarrow>
                    if r2 \<noteq> Opened then Bench_Error Book_Writer_Failed w2 [ts] else start w2 ts bs)))
        | _ \<Rightarrow> Bench_Error Bad_Capacity w []))"

abbreviation bench_user :: "bench \<Rightarrow> bench_env" where "bench_user b \<equiv> user (bench_cm b)"

definition bench_set_trade :: "writer \<Rightarrow> bench \<Rightarrow> bench" where
  "bench_set_trade s b = b\<lparr>bench_cm := (bench_cm b)\<lparr>user := (bench_user b)\<lparr>bench_trade_writer := s\<rparr>\<rparr>\<rparr>"

definition bench_set_book :: "writer \<Rightarrow> bench \<Rightarrow> bench" where
  "bench_set_book s b = b\<lparr>bench_cm := (bench_cm b)\<lparr>user := (bench_user b)\<lparr>bench_book_writer := s\<rparr>\<rparr>\<rparr>"

datatype bench_event =
    Bench_Message raw_clock
  | Bench_Trade_Worker wevent
  | Bench_Book_Worker wevent
  | Bench_End_Loop
  | Bench_Book_Closed
  | Bench_Trade_Closed

inductive bench_step ::
  "'j json_api \<Rightarrow> config \<Rightarrow> nat \<Rightarrow> bool \<Rightarrow> world \<times> bench \<Rightarrow> bench_event \<Rightarrow> world \<times> bench \<Rightarrow> bool"
  for api cfg nmsgs enable_write where
  Message: "bench_pc b = Bench_Message_Number i \<Longrightarrow> i < nmsgs \<Longrightarrow>
    on_raw_message api cfg (bench_callbacks enable_write (lower_symbol (bench_symbol cfg))) clk (bench_message cfg i) (bench_cm b) = Some c \<Longrightarrow>
    bench_step api cfg nmsgs enable_write (w, b) (Bench_Message clk) (w, b\<lparr>bench_cm := c, bench_pc := Bench_Message_Number (Suc i)\<rparr>)"
| TradeWorker: "worker_event e \<Longrightarrow> wstep TradeRecord (w, bench_trade_writer (bench_user b)) e (w', s) \<Longrightarrow>
    bench_step api cfg nmsgs enable_write (w, b) (Bench_Trade_Worker e) (w', bench_set_trade s b)"
| BookWorker: "worker_event e \<Longrightarrow> wstep OrderBookRecord (w, bench_book_writer (bench_user b)) e (w', s) \<Longrightarrow>
    bench_step api cfg nmsgs enable_write (w, b) (Bench_Book_Worker e) (w', bench_set_book s b)"
| EndWriting: "bench_pc b = Bench_Message_Number i \<Longrightarrow> nmsgs \<le> i \<Longrightarrow> enable_write \<Longrightarrow>
    wstep OrderBookRecord (w, bench_book_writer (bench_user b)) EvCloseBegin (w', s) \<Longrightarrow>
    bench_step api cfg nmsgs enable_write (w, b) Bench_End_Loop (w', (bench_set_book s b)\<lparr>bench_pc := Bench_Closing_Book\<rparr>)"
| EndDry: "bench_pc b = Bench_Message_Number i \<Longrightarrow> nmsgs \<le> i \<Longrightarrow> \<not> enable_write \<Longrightarrow>
    bench_step api cfg nmsgs enable_write (w, b) Bench_End_Loop (w, b\<lparr>bench_pc := Bench_Done\<rparr>)"
| BookClosed: "bench_pc b = Bench_Closing_Book \<Longrightarrow> wstep OrderBookRecord (w, bench_book_writer (bench_user b)) EvCloseEnd (w', s) \<Longrightarrow>
    wstep TradeRecord (w', bench_trade_writer (bench_user b)) EvCloseBegin (w'', s') \<Longrightarrow>
    bench_step api cfg nmsgs enable_write (w, b) Bench_Book_Closed
      (w'', (bench_set_trade s' (bench_set_book s b))\<lparr>bench_pc := Bench_Closing_Trade\<rparr>)"
| TradeClosed: "bench_pc b = Bench_Closing_Trade \<Longrightarrow> wstep TradeRecord (w, bench_trade_writer (bench_user b)) EvCloseEnd (w', s) \<Longrightarrow>
    bench_step api cfg nmsgs enable_write (w, b) Bench_Trade_Closed (w', (bench_set_trade s b)\<lparr>bench_pc := Bench_Done\<rparr>)"

inductive bench_run ::
  "'j json_api \<Rightarrow> config \<Rightarrow> nat \<Rightarrow> bool \<Rightarrow> world \<times> bench \<Rightarrow> bench_event list \<Rightarrow> world \<times> bench \<Rightarrow> bool"
  for api cfg nmsgs enable_write c where
  Begin: "bench_run api cfg nmsgs enable_write c [] c"
| Continue: "bench_run api cfg nmsgs enable_write c es c' \<Longrightarrow> bench_step api cfg nmsgs enable_write c' e c''
    \<Longrightarrow> bench_run api cfg nmsgs enable_write c (es @ [e]) c''"

section \<open>The result\<close>

record bench_result =
  res_messages :: u64
  res_trades :: u64
  res_orderbooks :: u64
  expected_trades :: u64
  expected_orderbooks :: u64
  res_parse_errors :: u64
  res_callback_errors :: u64
  res_validation_errors :: u64
  trade_written :: u64
  trade_dropped :: u64
  orderbook_written :: u64
  orderbook_dropped :: u64
  writer_error :: bool
  pipeline_lat :: hist_snapshot
  json_parse_lat :: hist_snapshot
  biz_parse_lat :: hist_snapshot
  callback_lat :: hist_snapshot

definition bench_result_of :: "nat \<Rightarrow> bool \<Rightarrow> bench \<Rightarrow> bench_result" where
  "bench_result_of nmsgs enable_write b =
     (let e = bench_user b; m = conn_metrics (bench_cm b); ts = bench_trade_writer e; bs = bench_book_writer e in
      \<lparr>res_messages = of_nat nmsgs, res_trades = trade_callbacks e, res_orderbooks = book_callbacks e,
       expected_trades = of_nat (nmsgs div 2 + nmsgs mod 2), expected_orderbooks = of_nat (nmsgs div 2),
       res_parse_errors = parse_errors m, res_callback_errors = callback_errors m, res_validation_errors = validation_errors e,
       trade_written = (if enable_write then records_written ts else 0), trade_dropped = (if enable_write then records_dropped ts else 0),
       orderbook_written = (if enable_write then records_written bs else 0), orderbook_dropped = (if enable_write then records_dropped bs else 0),
       writer_error = (enable_write \<and> (write_error ts \<or> write_error bs)),
       pipeline_lat = snd (snapshot_and_reset (pipeline_latency m)), json_parse_lat = snd (snapshot_and_reset (json_parse_latency m)),
       biz_parse_lat = snd (snapshot_and_reset (biz_parse_latency m)), callback_lat = snd (snapshot_and_reset (callback_latency m))\<rparr>)"

definition bench_exit_code :: "bool \<Rightarrow> bench_result \<Rightarrow> int" where
  "bench_exit_code enable_write r =
     (if res_parse_errors r = 0 \<and> res_callback_errors r = 0 \<and> res_validation_errors r = 0 \<and> \<not> writer_error r
        \<and> trade_dropped r = 0 \<and> orderbook_dropped r = 0
        \<and> res_trades r = expected_trades r \<and> res_orderbooks r = expected_orderbooks r
        \<and> (\<not> enable_write \<or> trade_written r = expected_trades r \<and> orderbook_written r = expected_orderbooks r)
      then 0 else 1)"

text \<open>
  \<^verbatim>\<open>run_bench_pipeline\<close> of \<^verbatim>\<open>main.cpp\<close>, given what \<^verbatim>\<open>run_pipeline_benchmark\<close> threw or returned: the
  values of the printed lines, the measured durations apart, and the exit code.
\<close>

datatype bench_line = Bench_Failed bench_error | Bench_Summary bool nat "int option" bench_result | Bench_Segment string string hist_snapshot

definition run_bench_pipeline :: "config \<Rightarrow> bool \<Rightarrow> nat \<Rightarrow> bench_error + bench_result \<Rightarrow> bench_line list \<times> int" where
  "run_bench_pipeline cfg enable_write message_gap_us outcome =
     (case outcome of
        Inl e \<Rightarrow> ([Bench_Failed e], 1)
      | Inr r \<Rightarrow>
          (let pin_field = (if pin_cpu cfg < 0 then None else Some (pin_cpu cfg)) in
           ([Bench_Summary enable_write message_gap_us pin_field r, Bench_Segment ''[LATENCY_INT]'' ''pipeline'' (pipeline_lat r),
             Bench_Segment ''[LATENCY_SEG]'' ''json_parse'' (json_parse_lat r), Bench_Segment ''[LATENCY_SEG]'' ''biz_parse'' (biz_parse_lat r),
             Bench_Segment ''[LATENCY_SEG]'' ''callback'' (callback_lat r)], bench_exit_code enable_write r)))"

section \<open>Repeating one trade\<close>

text \<open>A gate lets a trade that always has the same id through at most once.\<close>

definition one_trade :: "string \<Rightarrow> int \<Rightarrow> feed_log conn \<Rightarrow> bool" where
  "one_trade n i c \<longleftrightarrow> (if has_last (gate_of c n) then last_id (gate_of c n) = i \<and> length (trade_log (user c)) = 1
     else gstate (gate_of c n) = Live \<and> trade_log (user c) = [])"

lemma one_trade_step:
  assumes "on_raw_message api cfg (log_callbacks tt tb) clk msg c = Some c'" and "one_trade n i c"
    and "\<forall>n' t. carried_trade api cfg msg = Some (n', t) \<longrightarrow> n' = n \<and> tid t = i"
  shows "one_trade n i c'"
  using assms(1)
proof (cases rule: message_step)
  case (trade n' t g r)
  then have "n' = n" "tid t = i" using assms(3) by auto
  then have g: "gate_of c' n = g" "on_live_trade (gate_of c n) i = Some (g, r)" using trade by (simp_all add: gate_of_def)
  show ?thesis
    using g(2) assms(2) trade(6) unfolding one_trade_def g(1)
    by (auto simp: on_live_trade_def log_trade_def i64_add_def split: if_splits)
next
  case (book n' b)
  then have "gate_of c' n = gate_of c n" by (simp add: gate_of_def)
  then show ?thesis using assms(2) book(5) by (simp add: one_trade_def log_book_def)
next
  case (other k)
  then have "gate_of c' n = gate_of c n" by (simp add: gate_of_def)
  then show ?thesis using assms(2) other(5) by (simp add: one_trade_def)
qed

lemma one_trade_run:
  "run_messages api cfg (log_callbacks tt tb) ms c = Some c' \<Longrightarrow> one_trade n i c
   \<Longrightarrow> \<forall>msg \<in> snd ` set ms. \<forall>n' t. carried_trade api cfg msg = Some (n', t) \<longrightarrow> n' = n \<and> tid t = i \<Longrightarrow> one_trade n i c'"
proof (induction ms arbitrary: c)
  case (Cons m ms)
  obtain clk msg where m: "m = (clk, msg)" by (cases m)
  with Cons.prems(1) obtain c1 where c1: "on_raw_message api cfg (log_callbacks tt tb) clk msg c = Some c1"
    "run_messages api cfg (log_callbacks tt tb) ms c1 = Some c'" by (auto split: bind_splits)
  have "one_trade n i c1" by (rule one_trade_step [OF c1(1) Cons.prems(2)]) (use Cons.prems(3) m in simp)
  then show ?case using Cons.IH [OF c1(2)] Cons.prems(3) by simp
qed simp

section \<open>The invariant of a benchmark\<close>

definition bench_counts :: "bench_env \<Rightarrow> feed_log \<Rightarrow> bool" where
  "bench_counts e u \<longleftrightarrow> trade_callbacks e = of_nat (length (trade_log u)) \<and> book_callbacks e = of_nat (length (book_log u))"

interpretation bench_mode: callback_simulation "bench_callbacks enable_write sym_lower" quiet_log bench_counts same_counts
  for enable_write sym_lower
proof (unfold_locales, goal_cases)
  case (1 f m m')
  then show ?case unfolding counts_alone_def by blast
next
  case (2 m m' u v t)
  then show ?case
    by (auto simp: invoke_Some bench_callbacks_def log_callbacks_def bench_on_trade_def bench_counts_def count_invalid_def Let_def
        split: prod.splits)
next
  case (3 m m' u v b)
  then show ?case
    by (auto simp: invoke_Some bench_callbacks_def log_callbacks_def bench_on_orderbook_def bench_counts_def count_invalid_def Let_def
        split: prod.splits)
qed

abbreviation bench_sim :: "bench_env conn \<Rightarrow> feed_log conn \<Rightarrow> bool" where
  "bench_sim \<equiv> callback_simulation.sim bench_counts same_counts"

fun bench_script :: "config \<Rightarrow> nat \<Rightarrow> raw_clock list \<Rightarrow> (raw_clock \<times> string) list" where
  "bench_script cfg i [] = []"
| "bench_script cfg i (clk # clks) = (clk, bench_message cfg i) # bench_script cfg (Suc i) clks"

lemma bench_script_snoc: "bench_script cfg i (clks @ [clk]) = bench_script cfg i clks @ [(clk, bench_message cfg (i + length clks))]"
  by (induction clks arbitrary: i) simp_all

lemma bench_script_messages: "snd ` set (bench_script cfg i clks) \<subseteq> range (bench_message cfg)"
  by (induction clks arbitrary: i) auto

fun bench_at :: "nat \<Rightarrow> nat \<Rightarrow> bench_pc \<Rightarrow> bool" where
  "bench_at nmsgs i (Bench_Message_Number j) \<longleftrightarrow> j = i \<and> i \<le> nmsgs"
| "bench_at nmsgs i _ \<longleftrightarrow> i = nmsgs"

definition bench_inv :: "'j json_api \<Rightarrow> config \<Rightarrow> nat \<Rightarrow> bench \<Rightarrow> bool" where
  "bench_inv api cfg nmsgs b \<longleftrightarrow> (\<exists>clks d. run_messages api cfg quiet_log (bench_script cfg 0 clks) (new_conn empty_log) = Some d
     \<and> bench_sim (bench_cm b) d \<and> bench_at nmsgs (length clks) (bench_pc b))"

lemma bench_inv_writers:
  assumes "bench_inv api cfg nmsgs b" and "bench_at nmsgs (case bench_pc b of Bench_Message_Number i \<Rightarrow> i | _ \<Rightarrow> nmsgs) (bench_pc b')"
    and "bench_cm b' = (bench_cm b)\<lparr>user := e\<rparr>" and "trade_callbacks e = trade_callbacks (bench_user b)"
    and "book_callbacks e = book_callbacks (bench_user b)"
  shows "bench_inv api cfg nmsgs b'"
proof -
  obtain clks d where d: "run_messages api cfg quiet_log (bench_script cfg 0 clks) (new_conn empty_log) = Some d"
    "bench_sim (bench_cm b) d" "bench_at nmsgs (length clks) (bench_pc b)" using assms(1) by (auto simp: bench_inv_def)
  have "bench_sim (bench_cm b') d" using d(2) assms(3-5) by (simp add: bench_mode.sim_def bench_counts_def)
  moreover have "bench_at nmsgs (length clks) (bench_pc b')" using d(3) assms(2) by (cases "bench_pc b") auto
  ultimately show ?thesis using d(1) by (auto simp: bench_inv_def)
qed

lemma bench_step_inv:
  assumes "bench_step api cfg nmsgs enable_write c e c'" and "bench_inv api cfg nmsgs (snd c)"
  shows "bench_inv api cfg nmsgs (snd c')"
  using assms
proof (induction rule: bench_step.induct)
  case (Message b i clk c w)
  obtain clks d where d: "run_messages api cfg quiet_log (bench_script cfg 0 clks) (new_conn empty_log) = Some d"
    "bench_sim (bench_cm b) d" "i = length clks" using Message(1,4) by (auto simp: bench_inv_def)
  from bench_mode.sim_message [OF d(2), of api cfg enable_write "lower_symbol (bench_symbol cfg)" clk "bench_message cfg i"] Message(3)
  obtain d' where d': "on_raw_message api cfg quiet_log clk (bench_message cfg i) d = Some d'" "bench_sim c d'"
    by (cases "on_raw_message api cfg quiet_log clk (bench_message cfg i) d") auto
  have "run_messages api cfg quiet_log (bench_script cfg 0 (clks @ [clk])) (new_conn empty_log) = Some d'"
    using d(1,3) d'(1) by (simp add: bench_script_snoc run_messages_append)
  then show ?case using d'(2) d(3) Message(2)
    by (auto simp: bench_inv_def intro!: exI [of _ "clks @ [clk]"])
next
  case (TradeWorker e w b w' s)
  show ?case
    by (rule bench_inv_writers [of api cfg nmsgs b _ "(bench_user b)\<lparr>bench_trade_writer := s\<rparr>"])
      (use TradeWorker in \<open>auto simp: bench_set_trade_def bench_inv_def split: bench_pc.splits\<close>)
next
  case (BookWorker e w b w' s)
  show ?case
    by (rule bench_inv_writers [of api cfg nmsgs b _ "(bench_user b)\<lparr>bench_book_writer := s\<rparr>"])
      (use BookWorker in \<open>auto simp: bench_set_book_def bench_inv_def split: bench_pc.splits\<close>)
next
  case (EndWriting b i w w' s)
  show ?case
    by (rule bench_inv_writers [of api cfg nmsgs b _ "(bench_user b)\<lparr>bench_book_writer := s\<rparr>"])
      (use EndWriting in \<open>auto simp: bench_set_book_def bench_inv_def\<close>)
next
  case (EndDry b i w)
  show ?case
    by (rule bench_inv_writers [of api cfg nmsgs b _ "bench_user b"]) (use EndDry in \<open>auto simp: bench_inv_def\<close>)
next
  case (BookClosed b w w' s w'' s')
  show ?case
    by (rule bench_inv_writers [of api cfg nmsgs b _ "(bench_user b)\<lparr>bench_book_writer := s, bench_trade_writer := s'\<rparr>"])
      (use BookClosed in \<open>auto simp: bench_set_book_def bench_set_trade_def\<close>)
next
  case (TradeClosed b w w' s)
  show ?case
    by (rule bench_inv_writers [of api cfg nmsgs b _ "(bench_user b)\<lparr>bench_trade_writer := s\<rparr>"])
      (use TradeClosed in \<open>auto simp: bench_set_trade_def\<close>)
qed

lemma bench_run_inv:
  "bench_run api cfg nmsgs enable_write c es c' \<Longrightarrow> bench_inv api cfg nmsgs (snd c) \<Longrightarrow> bench_inv api cfg nmsgs (snd c')"
  by (induction rule: bench_run.induct) (auto intro: bench_step_inv)

lemma bench_start_inv:
  assumes "run_bench_start w cfg enable_write gap = Bench_Ready w0 b0"
  shows "bench_inv api cfg nmsgs b0"
proof -
  have "bench_pc b0 = Bench_Message_Number 0 \<and> (\<exists>e. bench_cm b0 = new_conn e \<and> trade_callbacks e = 0 \<and> book_callbacks e = 0)"
    using assms by (auto simp: run_bench_start_def Let_def split: if_splits sum.splits prod.splits)
  then obtain e where e: "bench_pc b0 = Bench_Message_Number 0" "bench_cm b0 = new_conn e" "trade_callbacks e = 0" "book_callbacks e = 0"
    by blast
  have "bench_sim (bench_cm b0) (new_conn empty_log)" using e by (simp add: bench_mode.sim_def bench_counts_def new_conn_def)
  then show ?thesis using e(1) by (auto simp: bench_inv_def intro!: exI [of _ "[]"])
qed

text \<open>With no configured symbol nothing is subscribed, so no message carries a trade.\<close>

lemma no_symbols_no_trade: "cfg_symbols cfg = [] \<Longrightarrow> carried_trade api cfg msg = None"
  by (auto simp: carried_trade_def route_def subscribed_def Let_def split: option.splits route.splits if_splits)

lemma no_trades_run:
  "run_messages api cfg (log_callbacks tt tb) ms c = Some c' \<Longrightarrow> \<forall>msg \<in> snd ` set ms. carried_trade api cfg msg = None
   \<Longrightarrow> trade_log (user c') = trade_log (user c)"
proof (induction ms arbitrary: c)
  case (Cons m ms)
  obtain clk msg where m: "m = (clk, msg)" by (cases m)
  with Cons.prems(1) obtain c1 where c1: "on_raw_message api cfg (log_callbacks tt tb) clk msg c = Some c1"
    "run_messages api cfg (log_callbacks tt tb) ms c1 = Some c'" by (auto split: bind_splits)
  from c1(1) have "trade_log (user c1) = trade_log (user c)"
    by (cases rule: message_step) (use Cons.prems(2) m in \<open>auto simp: log_book_def\<close>)
  then show ?case using Cons.IH [OF c1(2)] Cons.prems(2) by simp
qed simp

section \<open>Property\<close>


section \<open>A concrete benchmark\<close>

text \<open>Three messages without writing, and a library that reads the two texts.\<close>

definition bench_parse :: "string \<Rightarrow> jvalue option" where
  "bench_parse msg =
     (if msg = make_trade_message ''btcusdt'' then Some (wrap ''btcusdt@trade'' (trade_data ''BTCUSDT'' 123456789))
      else if msg = make_orderbook_message ''btcusdt'' then Some (wrap ''btcusdt@depth20@100ms'' (depth_data 1)) else None)"

abbreviation "bench_api \<equiv> jvalue_api bench_parse"

lemma bench_texts_differ: "make_trade_message n \<noteq> make_orderbook_message n"
  by (simp add: make_trade_message_def make_orderbook_message_def quoted_def)

lemma bench_symbol_default: "bench_symbol default_config = ''btcusdt''"
  by (simp add: bench_symbol_def default_config_def)

lemma bench_carried:
  "\<exists>t. carried_trade bench_api default_config (make_trade_message ''btcusdt'') = Some (''btcusdt'', t) \<and> tid t = 123456789"
  "carried_trade bench_api default_config (make_orderbook_message ''btcusdt'') = None"
proof -
  have "route bench_api default_config (make_trade_message ''btcusdt'') = Routed ''btcusdt'' ''trade'' (trade_data ''BTCUSDT'' 123456789)"
    "route bench_api default_config (make_orderbook_message ''btcusdt'') = Routed ''btcusdt'' ''depth20@100ms'' (depth_data 1)"
    using bench_texts_differ [of "''btcusdt''"] by (simp_all add: route_def bench_parse_def wrap_def demo_symbol)
  then show "\<exists>t. carried_trade bench_api default_config (make_trade_message ''btcusdt'') = Some (''btcusdt'', t) \<and> tid t = 123456789"
    "carried_trade bench_api default_config (make_orderbook_message ''btcusdt'') = None"
    by (simp_all add: carried_trade_def parse_trade_data has_prefix_def set_symbol_def)
qed

lemma bench_three:
  obtains w0 b0 es b1 where "run_bench_start w default_config False 0 = Bench_Ready w0 b0"
    and "bench_run bench_api default_config 3 False (w0, b0) es (w0, b1)" and "bench_pc b1 = Bench_Done"
proof -
  have n: "ring_buffer_size default_config = 100000" by (simp add: default_config_def)
  have v: "is_valid_symbol ''btcusdt''" by code_simp
  obtain b0 e where b0: "run_bench_start w default_config False 0 = Bench_Ready w b0" "bench_pc b0 = Bench_Message_Number 0" "bench_cm b0 = new_conn e"
    using v by (simp add: run_bench_start_def bench_symbol_default ring_new_def validate_capacity_def n Let_def)
  let ?cb = "bench_callbacks False (lower_symbol (bench_symbol default_config))"
  let ?ms = "bench_script default_config 0 [demo_clock, demo_clock, demo_clock]"
  have "safe_id (123456789 :: int)" by (simp add: safe_id_def)
  then obtain c where c: "run_messages bench_api default_config ?cb ?ms (bench_cm b0) = Some c"
    using run_messages_total [of ?ms bench_api default_config "new_conn e" ?cb] bench_carried sane_demo_clock new_conn_safe
    by (fastforce simp: b0(3) bench_message_def bench_symbol_default)
  obtain c1 c2 where m: "on_raw_message bench_api default_config ?cb demo_clock (bench_message default_config 0) (bench_cm b0) = Some c1"
    "on_raw_message bench_api default_config ?cb demo_clock (bench_message default_config 1) c1 = Some c2"
    "on_raw_message bench_api default_config ?cb demo_clock (bench_message default_config 2) c2 = Some c"
    using c by (auto simp: numeral_2_eq_2 split: bind_splits)
  define b where "b = (\<lambda>c i. b0\<lparr>bench_cm := c, bench_pc := Bench_Message_Number i\<rparr>)"
  have "bench_step bench_api default_config 3 False (w, b0) (Bench_Message demo_clock) (w, b c1 1)"
    using bench_step.Message [OF b0(2), of 3 bench_api default_config False demo_clock c1 w] m(1) by (simp add: b_def)
  moreover have "bench_step bench_api default_config 3 False (w, b c1 1) (Bench_Message demo_clock) (w, b c2 2)"
    using bench_step.Message [of "b c1 1" 1 3 bench_api default_config False demo_clock c2 w] m(2) by (simp add: b_def numeral_2_eq_2)
  moreover have "bench_step bench_api default_config 3 False (w, b c2 2) (Bench_Message demo_clock) (w, b c 3)"
    using bench_step.Message [of "b c2 2" 2 3 bench_api default_config False demo_clock c w] m(3) by (simp add: b_def numeral_3_eq_3)
  moreover have "bench_step bench_api default_config 3 False (w, b c 3) Bench_End_Loop (w, (b c 3)\<lparr>bench_pc := Bench_Done\<rparr>)"
    by (rule bench_step.EndDry [of _ 3]) (simp_all add: b_def)
  ultimately have "bench_run bench_api default_config 3 False (w, b0) ([] @ [Bench_Message demo_clock] @ [Bench_Message demo_clock]
      @ [Bench_Message demo_clock] @ [Bench_End_Loop]) (w, (b c 3)\<lparr>bench_pc := Bench_Done\<rparr>)"
    using bench_run.Begin bench_run.Continue by (metis append_assoc append_Nil)
  then show thesis using that [OF b0(1)] by simp
qed


end
