(* ===== verification/Feed_Users.thy ===== *)
theory Feed_Users
  imports Feed_Persistence
begin

text \<open>
  Two users of the facade that differ only in what their callbacks remember. When the callbacks
  of one user simulate those of another and throw alike, every run of the facade with the first
  is a run with the second, with the same files and metrics.
\<close>

locale user_simulation =
  fixes ft :: "trade \<Rightarrow> 'u \<Rightarrow> 'u \<times> bool" and fb :: "orderbook_snapshot \<Rightarrow> 'u \<Rightarrow> 'u \<times> bool"
    and gt :: "trade \<Rightarrow> 'v \<Rightarrow> 'v \<times> bool" and gb :: "orderbook_snapshot \<Rightarrow> 'v \<Rightarrow> 'v \<times> bool"
    and V :: "'u \<Rightarrow> 'v \<Rightarrow> bool"
  assumes trade_step: "V u v \<Longrightarrow> rel_prod V (=) (ft t u) (gt t v)"
    and book_step: "V u v \<Longrightarrow> rel_prod V (=) (fb b u) (gb b v)"
begin

abbreviation first_user :: "'u user_callbacks" where
  "first_user \<equiv> \<lparr>user_on_trade = Some ft, user_on_orderbook = Some fb\<rparr>"

abbreviation second_user :: "'v user_callbacks" where
  "second_user \<equiv> \<lparr>user_on_trade = Some gt, user_on_orderbook = Some gb\<rparr>"

definition env_rel :: "'u feed_env \<Rightarrow> 'v feed_env \<Rightarrow> bool" where
  "env_rel e e' \<longleftrightarrow> env_trade_writer e' = env_trade_writer e \<and> env_book_writer e' = env_book_writer e \<and> V (env_user e) (env_user e')"

sublocale wrapped: callback_simulation "feed_callbacks pst first_user" "feed_callbacks pst second_user" env_rel "(=)" for pst
proof (unfold_locales, goal_cases)
  case (2 m m' u v t)
  then show ?case using trade_step [of "env_user u" "env_user v" t]
    by (auto simp: invoke_Some feed_callbacks_def feed_on_trade_def guarded_def env_rel_def rel_prod_sel split: prod.splits)
next
  case (3 m m' u v b)
  then show ?case using book_step [of "env_user u" "env_user v" b]
    by (auto simp: invoke_Some feed_callbacks_def feed_on_orderbook_def guarded_def env_rel_def rel_prod_sel split: prod.splits)
qed simp

definition feed_rel :: "'u market_feed \<Rightarrow> 'v market_feed \<Rightarrow> bool" where
  "feed_rel f g \<longleftrightarrow> feed_cfg g = feed_cfg f \<and> feed_started g = feed_started f \<and> feed_pc g = feed_pc f \<and> wrapped.sim (feed_cm f) (feed_cm g)"

lemma feed_rel_new: "V u v \<Longrightarrow> feed_rel (new_feed fc u) (new_feed fc v)"
  by (simp add: feed_rel_def new_feed_def wrapped.sim_new env_rel_def)

lemma feed_rel_writers:
  "feed_rel f g \<Longrightarrow> feed_trade_writer g = feed_trade_writer f" "feed_rel f g \<Longrightarrow> feed_book_writer g = feed_book_writer f"
  "feed_rel f g \<Longrightarrow> feed_rel (set_trade_writer s f) (set_trade_writer s g)"
  "feed_rel f g \<Longrightarrow> feed_rel (set_book_writer s f) (set_book_writer s g)"
  by (simp_all add: feed_rel_def wrapped.sim_def env_rel_def set_trade_writer_def set_book_writer_def map_env_def)

lemma feed_rel_pc: "feed_rel f g \<Longrightarrow> feed_rel (f\<lparr>feed_pc := p\<rparr>) (g\<lparr>feed_pc := p\<rparr>)"
  "feed_rel f g \<Longrightarrow> feed_rel (f\<lparr>feed_started := b, feed_pc := p\<rparr>) (g\<lparr>feed_started := b, feed_pc := p\<rparr>)"
  by (simp_all add: feed_rel_def)

lemma feed_rel_sel:
  "feed_rel f g \<Longrightarrow> feed_cfg g = feed_cfg f" "feed_rel f g \<Longrightarrow> feed_started g = feed_started f" "feed_rel f g \<Longrightarrow> feed_pc g = feed_pc f"
  "feed_rel f g \<Longrightarrow> feed_metrics_snapshot g = feed_metrics_snapshot f" "feed_rel f g \<Longrightarrow> V (env_user (feed_env f)) (env_user (feed_env g))"
  "feed_rel f g \<Longrightarrow> conn_metrics (feed_cm g) = conn_metrics (feed_cm f)"
  by (simp_all add: feed_rel_def wrapped.sim_def env_rel_def feed_metrics_snapshot_def Let_def)

lemma feed_start_rel:
  assumes "feed_rel f g" and "feed_start th w f = Some (w', f')"
  shows "\<exists>g'. feed_start th w g = Some (w', g') \<and> feed_rel f' g'"
  using assms by (auto simp: feed_start_def feed_rel_sel feed_rel_writers feed_rel_pc split: if_splits bind_splits)

lemma fstep_rel:
  assumes "fstep api first_user c e c'" and "feed_rel (snd c) g"
  shows "\<exists>g'. fstep api second_user (fst c, g) e (fst c', g') \<and> feed_rel (snd c') g'"
  using assms
proof (induction rule: fstep.induct)
  case (Start f threads w w' f')
  then obtain g' where "feed_start threads w g = Some (w', g')" "feed_rel f' g'" using feed_start_rel by fastforce
  with Start show ?case using fstep.Start [of g threads w w' g' api second_user] by (auto simp: feed_rel_sel)
next
  case (Message f clk msg c w)
  then have r: "feed_rel f g" by simp
  from Message(2) wrapped.sim_message [of "feed_cm f" "feed_cm g" api "internal_config (feed_cfg f)" "persist (feed_cfg f)" clk msg] r
  obtain d where d: "on_raw_message api (internal_config (feed_cfg g)) (feed_callbacks (persist (feed_cfg g)) second_user) clk msg (feed_cm g) = Some d"
    "wrapped.sim c d" by (auto simp: feed_rel_def rel_option_iff split: option.splits)
  have "fstep api second_user (w, g) (FeedMessage clk msg) (w, g\<lparr>feed_cm := d\<rparr>)"
    by (rule fstep.Message [OF _ d(1)]) (use Message(1) r in \<open>simp add: feed_rel_sel\<close>)
  moreover have "feed_rel (f\<lparr>feed_cm := c\<rparr>) (g\<lparr>feed_cm := d\<rparr>)" using r d(2) by (simp add: feed_rel_def)
  ultimately show ?case by auto
next
  case (TradeWorker e w f w' s)
  then show ?case using fstep.TradeWorker [of e w g w' s api second_user] feed_rel_writers by fastforce
next
  case (BookWorker e w f w' s)
  then show ?case using fstep.BookWorker [of e w g w' s api second_user] feed_rel_writers by fastforce
next
  case (Stop w f)
  then show ?case using fstep.Stop [of api second_user w g] feed_rel_pc feed_rel_sel by fastforce
next
  case (CmStopped f w w' s)
  then show ?case using fstep.CmStopped [of g w w' s api second_user] by (fastforce simp: feed_rel_sel feed_rel_writers feed_rel_pc)
next
  case (TradeClosed f w w' s w'' s')
  then show ?case using fstep.TradeClosed [of g w w' s w'' s' api second_user] by (fastforce simp: feed_rel_sel feed_rel_writers feed_rel_pc)
next
  case (BookClosed f w w' s)
  then show ?case using fstep.BookClosed [of g w w' s api second_user] by (fastforce simp: feed_rel_sel feed_rel_writers feed_rel_pc)
qed

lemma frun_rel:
  assumes "frun api first_user c es c'" and "feed_rel (snd c) g"
  shows "\<exists>g'. frun api second_user (fst c, g) es (fst c', g') \<and> feed_rel (snd c') g'"
  using assms
proof (induction rule: frun.induct)
  case (Continue es c' e c'')
  then obtain g1 where "frun api second_user (fst c, g) es (fst c', g1)" "feed_rel (snd c') g1" by blast
  with fstep_rel [OF Continue(2)] frun.Continue show ?case by blast
qed (auto intro: frun.Begin)

end

end
