(* ===== verification/Example_Programs.thy ===== *)
theory Example_Programs
  imports Feed_Users Session_Replay
begin

text \<open>
  The two programs of \<^verbatim>\<open>examples\<close>, as clients of the facades: \<^verbatim>\<open>recv_only.cpp\<close> receives and
  persists for fifteen seconds and prints the metrics, \<^verbatim>\<open>replay_only.cpp\<close> replays a directory.
  A printed line is the values it shows.
\<close>

section \<open>recv_only\<close>

datatype recv_line = Recv_Trade u64 trade | Recv_Book u64 orderbook_snapshot

record recv_user =
  trade_seen :: u64
  book_seen :: u64
  recv_out :: "recv_line list"

definition new_recv :: recv_user where
  "new_recv = \<lparr>trade_seen = 0, book_seen = 0, recv_out = []\<rparr>"

definition recv_config :: feed_config where
  "recv_config = default_feed_config\<lparr>fc_symbols := [''btcusdt'', ''ethusdt''],
     fc_ws_url := ''wss://stream.binance.com:9443/stream'', fc_data_dir := ''./data'', fc_reconnect_interval_ms := 100,
     fc_ping_interval_ms := 1000, fc_no_data_timeout_ms := 3000\<rparr>"

definition recv_on_trade :: "trade \<Rightarrow> recv_user \<Rightarrow> recv_user \<times> bool" where
  "recv_on_trade t u = (let n = trade_seen u + 1 in
     (u\<lparr>trade_seen := n, recv_out := recv_out u @ (if n \<le> 3 then [Recv_Trade n t] else [])\<rparr>, False))"

definition recv_on_orderbook :: "orderbook_snapshot \<Rightarrow> recv_user \<Rightarrow> recv_user \<times> bool" where
  "recv_on_orderbook b u = (let n = book_seen u + 1 in
     (u\<lparr>book_seen := n, recv_out := recv_out u @ (if n \<le> 3 then [Recv_Book n b] else [])\<rparr>, False))"

definition recv_callbacks :: "recv_user user_callbacks" where
  "recv_callbacks = \<lparr>user_on_trade = Some recv_on_trade, user_on_orderbook = Some recv_on_orderbook\<rparr>"

text \<open>
  A run of \<^verbatim>\<open>main\<close>: the feed is started, runs in any interleaving with its threads while the
  program sleeps and then stops it, and ends when \<open>stop\<close> has returned; then the snapshot is printed.
\<close>

definition recv_only ::
  "'j json_api \<Rightarrow> world \<Rightarrow> feed_event list \<Rightarrow> world \<Rightarrow> recv_line list \<Rightarrow> metrics_snapshot \<Rightarrow> bool" where
  "recv_only api w es w1 out m \<longleftrightarrow> (\<exists>w0 f0 f1. feed_start True w (new_feed recv_config new_recv) = Some (w0, f0)
     \<and> frun api recv_callbacks (w0, f0) es (w1, f1) \<and> (\<forall>b. FeedStart b \<notin> set es) \<and> feed_pc f1 = FeedIdle
     \<and> out = recv_out (env_user (feed_env f1)) \<and> m = feed_metrics_snapshot f1)"

section \<open>replay_only\<close>

datatype example_line = Example_Dir string | Example_Trade trade | Example_Book orderbook_snapshot | Example_Summary rec_kind replay_result

definition first_three :: "('r \<Rightarrow> example_line) \<Rightarrow> u64 \<times> example_line list \<Rightarrow> 'r \<Rightarrow> (u64 \<times> example_line list) \<times> bool" where
  "first_three line st r = (case st of (seen, out) \<Rightarrow>
     (let n = seen + 1 in ((n, out @ (if n \<le> 3 then [line r] else [])), False)))"

definition replay_only :: "world \<Rightarrow> string list \<Rightarrow> world \<times> example_line list \<times> int" where
  "replay_only w args =
     (let data_dir = (case args of [] \<Rightarrow> ''./data'' | a # _ \<Rightarrow> a) in
      case replay_trades w data_dir (Some (first_three Example_Trade)) None None (0, []) of
        (w1, (trade_count, out1), tr) \<Rightarrow>
      (case replay_orderbooks w1 data_dir (Some (first_three Example_Book)) None None (0, []) of
        (w2, (book_count, out2), br) \<Rightarrow>
          (w2, [Example_Dir data_dir] @ out1 @ [Example_Summary TradeRecord tr] @ out2 @ [Example_Summary OrderBookRecord br],
           if completed tr \<and> completed br then 0 else 1)))"

section \<open>Counting and the first three\<close>

text \<open>The first three elements with their numbers.\<close>

abbreviation numbered :: "'r list \<Rightarrow> (u64 \<times> 'r) list" where
  "numbered rs \<equiv> zip [1, 2, 3] rs"

lemma of_nat_le_3: "n < 2 ^ 64 \<Longrightarrow> (of_nat n :: u64) \<le> 3 \<longleftrightarrow> n \<le> 3"
  by (simp add: word_le_nat_alt unat_of_nat take_bit_nat_eq_self)

lemma numbered_snoc:
  assumes "length rs + 1 < 2 ^ 64"
  shows "numbered (rs @ [r]) = numbered rs @ (if (of_nat (length rs) + 1 :: u64) \<le> 3 then [(of_nat (length rs) + 1, r)] else [])"
proof -
  have le: "(of_nat (length rs) + 1 :: u64) \<le> 3 \<longleftrightarrow> length rs + 1 \<le> 3" using of_nat_le_3 [OF assms] by (simp add: add.commute)
  consider "rs = []" | a where "rs = [a]" | a b where "rs = [a, b]" | a b c ds where "rs = a # b # c # ds"
    by (metis list.exhaust)
  then show ?thesis unfolding le by cases simp_all
qed

definition trade_lines :: "recv_line list \<Rightarrow> (u64 \<times> trade) list" where
  "trade_lines out = concat (map (\<lambda>l. case l of Recv_Trade n t \<Rightarrow> [(n, t)] | Recv_Book n b \<Rightarrow> []) out)"

definition book_lines :: "recv_line list \<Rightarrow> (u64 \<times> orderbook_snapshot) list" where
  "book_lines out = concat (map (\<lambda>l. case l of Recv_Trade n t \<Rightarrow> [] | Recv_Book n b \<Rightarrow> [(n, b)]) out)"

text \<open>The user of \<^verbatim>\<open>recv_only\<close> against a user that logs.\<close>

definition recv_rel :: "recv_user \<Rightarrow> feed_log \<Rightarrow> bool" where
  "recv_rel u v \<longleftrightarrow> trade_seen u = of_nat (length (trade_log v)) \<and> book_seen u = of_nat (length (book_log v))
     \<and> (length (trade_log v) < 2 ^ 64 \<longrightarrow> trade_lines (recv_out u) = numbered (trade_log v))
     \<and> (length (book_log v) < 2 ^ 64 \<longrightarrow> book_lines (recv_out u) = numbered (book_log v))"

interpretation recv: user_simulation recv_on_trade recv_on_orderbook "\<lambda>t v. (v\<lparr>trade_log := trade_log v @ [t]\<rparr>, False)"
  "\<lambda>b v. (v\<lparr>book_log := book_log v @ [b]\<rparr>, False)" recv_rel
proof
  show "rel_prod recv_rel (=) (recv_on_trade t u) (v\<lparr>trade_log := trade_log v @ [t]\<rparr>, False)" if "recv_rel u v" for u v t
    using that numbered_snoc [of "trade_log v" t]
    by (auto simp: recv_on_trade_def Let_def recv_rel_def trade_lines_def book_lines_def add.commute)
  show "rel_prod recv_rel (=) (recv_on_orderbook b u) (v\<lparr>book_log := book_log v @ [b]\<rparr>, False)" if "recv_rel u v" for u v b
    using that numbered_snoc [of "book_log v" b]
    by (auto simp: recv_on_orderbook_def Let_def recv_rel_def trade_lines_def book_lines_def add.commute)
qed

lemma recv_log: "recv.second_user = log_user (\<lambda>_. False) (\<lambda>_. False)"
  by (simp add: log_user_def)

lemma recv_first: "recv.first_user = recv_callbacks"
  by (simp add: recv_callbacks_def)

lemma recv_rel_new: "recv_rel new_recv empty_log"
  by (simp add: recv_rel_def new_recv_def trade_lines_def book_lines_def)

lemma first_three_not_throw: "\<not> snd (first_three line st r)"
  by (cases st) (simp add: first_three_def Let_def)

lemma foldl_first_three:
  "length rs + i < 2 ^ 64 \<Longrightarrow> foldl (\<lambda>st r. fst (first_three line st r)) (of_nat i, out) rs = (of_nat (i + length rs), out @ map line (take (3 - i) rs))"
proof (induction rs arbitrary: i out)
  case (Cons r rs)
  have "(of_nat i + 1 :: u64) \<le> 3 \<longleftrightarrow> i < 3" using of_nat_le_3 [of "Suc i"] Cons.prems by (simp add: add.commute less_eq_Suc_le)
  then have "fst (first_three line (of_nat i, out) r) = (of_nat (Suc i), out @ (if i < 3 then [line r] else []))"
    by (simp add: first_three_def Let_def add.commute)
  then show ?case using Cons.IH [of "Suc i"] Cons.prems by (cases "i < 3") (simp_all add: Suc_diff_Suc numeral_3_eq_3 take_Cons' del: of_nat_Suc)
qed simp

lemma replay_only_of_session:
  assumes "session_files TradeRecord (map trade_bytes tr) w ''./data''" and "session_files OrderBookRecord (map orderbook_bytes bo) w ''./data''"
    and "sorted (map (rec_recv_ts_us \<circ> trade_bytes) tr)" and "sorted (map (rec_recv_ts_us \<circ> orderbook_bytes) bo)"
    and "\<And>t. t \<in> set tr \<Longrightarrow> trade_wf t" and "\<And>b. b \<in> set bo \<Longrightarrow> orderbook_wf b"
    and "length tr < 2 ^ 64" and "length bo < 2 ^ 64"
  shows "\<exists>w' rt rb. replay_only w [] = (w', [Example_Dir ''./data''] @ map Example_Trade (take 3 (map stamped_trade tr)) @ [Example_Summary TradeRecord rt]
      @ map Example_Book (take 3 (map stamped_book bo)) @ [Example_Summary OrderBookRecord rb], if tr = [] \<or> bo = [] then 1 else 0)
    \<and> replayed_ok (length tr) rt \<and> replayed_ok (length bo) rb"
proof -
  obtain w1 rt where t: "replay_trades w ''./data'' (Some (first_three Example_Trade)) None None (0, [])
      = (w1, (of_nat (length tr), map Example_Trade (take 3 (map stamped_trade tr))), rt)" "same_disk w w1" "replayed_ok (length tr) rt"
    using replay_trades_of_session [where cb = "first_three Example_Trade" and s = "(0, [])", OF assms(1,3,5) first_three_not_throw]
      foldl_first_three [of "map stamped_trade tr" 0 Example_Trade "[]"] assms(7) by auto
  have f: "session_files OrderBookRecord (map orderbook_bytes bo) w1 ''./data''" by (rule session_files_disk [OF assms(2) t(2)])
  obtain w2 rb where "replay_orderbooks w1 ''./data'' (Some (first_three Example_Book)) None None (0, [])
      = (w2, (of_nat (length bo), map Example_Book (take 3 (map stamped_book bo))), rb)" "replayed_ok (length bo) rb"
    using replay_orderbooks_of_session [where cb = "first_three Example_Book" and s = "(0, [])", OF f assms(4,6) first_three_not_throw]
      foldl_first_three [of "map stamped_book bo" 0 Example_Book "[]"] assms(8) by auto
  with t show ?thesis by (simp add: replay_only_def replayed_ok_def)
qed

text \<open>A run of \<^verbatim>\<open>recv_only\<close> as a run of a logging user.\<close>

lemma recv_only_logged:
  assumes "recv_only api w es w1 out m"
  obtains w0 f0 f1 where "feed_start True w (new_feed recv_config empty_log) = Some (w0, f0)"
    and "frun api (log_user (\<lambda>_. False) (\<lambda>_. False)) (w0, f0) es (w1, f1)" and "\<forall>b. FeedStart b \<notin> set es" and "feed_pc f1 = FeedIdle"
    and "m = feed_metrics_snapshot f1" and "length (user_trades f1) < 2 ^ 64 \<longrightarrow> trade_lines out = numbered (user_trades f1)"
    and "length (user_books f1) < 2 ^ 64 \<longrightarrow> book_lines out = numbered (user_books f1)"
proof -
  obtain w0 f0 f1 where r: "feed_start True w (new_feed recv_config new_recv) = Some (w0, f0)" "frun api recv_callbacks (w0, f0) es (w1, f1)"
    "\<forall>b. FeedStart b \<notin> set es" "feed_pc f1 = FeedIdle" "out = recv_out (env_user (feed_env f1))" "m = feed_metrics_snapshot f1"
    using assms by (auto simp: recv_only_def)
  obtain g0 where g0: "feed_start True w (new_feed recv_config empty_log) = Some (w0, g0)" "recv.feed_rel f0 g0"
    using recv.feed_start_rel [OF recv.feed_rel_new [OF recv_rel_new] r(1)] by blast
  obtain g1 where g1: "frun api recv.second_user (w0, g0) es (w1, g1)" "recv.feed_rel f1 g1"
    using recv.frun_rel [of api "(w0, f0)" es "(w1, f1)" g0] r(2) g0(2) by (auto simp: recv_first)
  have "recv_rel (env_user (feed_env f1)) (env_user (feed_env g1))" "feed_pc g1 = feed_pc f1" "feed_metrics_snapshot g1 = feed_metrics_snapshot f1"
    using recv.feed_rel_sel [OF g1(2)] by simp_all
  then show thesis using that [OF g0(1) g1(1) [unfolded recv_log] r(3)] r(4-6) by (simp add: recv_rel_def)
qed

section \<open>Properties\<close>

text \<open>(C5) What \<^verbatim>\<open>recv_only\<close> received is what \<^verbatim>\<open>replay_only\<close> shows. Let \<^verbatim>\<open>recv_only\<close> run, under any messages and any interleaving of its
  threads, in a working directory whose data directory holds no hour files; no file call fails and
  the wall clock does not run backwards. If its last line says that every trade and every book
  received was written, then \<^verbatim>\<open>replay_only\<close>, started afterwards without an argument, prints the
  same first three trades and the same first three books, now with their checksums, reports the
  numbers of records that \<^verbatim>\<open>recv_only\<close> reported, and exits with 0, or with 1 when one kind of
  record was never received.
\<close>
theorem examples_agree:
  assumes "recv_only api w es w1 out m" and "no_faults w" and "distinct_names w ''./data''"
    and "\<forall>k n. own_name k n \<longrightarrow> get_node w ''./data'' n = None"
    and "\<forall>ts \<in> set (clocks es). 0 < sint ts \<and> sint ts < end_of_9999_us" and "sorted (map sint (clocks es))" and "length es < 2 ^ 64"
    and "trades_written m = trades_received m" and "orderbooks_written m = orderbooks_received m"
  shows "\<exists>w2 rt rb. replay_only w1 [] = (w2, [Example_Dir ''./data''] @ map (Example_Trade \<circ> stamped_trade \<circ> snd) (trade_lines out)
      @ [Example_Summary TradeRecord rt] @ map (Example_Book \<circ> stamped_book \<circ> snd) (book_lines out) @ [Example_Summary OrderBookRecord rb],
      if trades_received m = 0 \<or> orderbooks_received m = 0 then 1 else 0)
    \<and> records_replayed rt = trades_received m \<and> records_replayed rb = orderbooks_received m
    \<and> (completed rt \<longleftrightarrow> trades_received m \<noteq> 0) \<and> (completed rb \<longleftrightarrow> orderbooks_received m \<noteq> 0)"
proof -
  have d: "persist recv_config" "fc_data_dir recv_config = ''./data''" by (simp_all add: persist_def recv_config_def)
  obtain w0 f0 f1 where r: "feed_start True w (new_feed recv_config empty_log) = Some (w0, f0)"
    "frun api (log_user (\<lambda>_. False) (\<lambda>_. False)) (w0, f0) es (w1, f1)" "\<forall>b. FeedStart b \<notin> set es" "feed_pc f1 = FeedIdle"
    "m = feed_metrics_snapshot f1"
    and out: "length (user_trades f1) < 2 ^ 64 \<longrightarrow> trade_lines out = numbered (user_trades f1)"
      "length (user_books f1) < 2 ^ 64 \<longrightarrow> book_lines out = numbered (user_books f1)" by (rule recv_only_logged [OF assms(1)])
  note f = feed_session_files [OF r(1) d(1) assms(2) _ _ r(2-4) assms(5-7), unfolded d(2), OF assms(3,4) assms(8,9) [unfolded r(5)]]
  have n: "trades_received m = of_nat (length (user_trades f1))" "orderbooks_received m = of_nat (length (user_books f1))"
    using f(7) by (simp_all add: r(5) feed_metrics_snapshot_def counted_def Let_def)
  have z: "(of_nat k :: u64) = 0 \<longleftrightarrow> k = 0" if "k < 2 ^ 64" for k
    using that by (simp add: word_of_nat_eq_0_iff nat_dvd_not_less) (auto dest: nat_dvd_not_less)
  have s: "map snd (numbered xs) = take 3 xs" for xs :: "'r list"
    by (cases "length xs \<le> 3") (simp_all add: map_snd_zip_take min_def numeral_3_eq_3)
  have lines: "map (Example_Trade \<circ> stamped_trade \<circ> snd) (trade_lines out) = map Example_Trade (take 3 (map stamped_trade (user_trades f1)))"
    "map (Example_Book \<circ> stamped_book \<circ> snd) (book_lines out) = map Example_Book (take 3 (map stamped_book (user_books f1)))"
    using out(1) [rule_format, OF f(8)] out(2) [rule_format, OF f(9)] by (simp_all add: s take_map flip: map_map)
  show ?thesis
    unfolding lines n z [OF f(8)] z [OF f(9)]
    using replay_only_of_session [OF f(1-6,8,9)] by (auto simp: replayed_ok_def)
qed

section \<open>Witness\<close>

text \<open>The logging user simulates the counting one as well, so the session of one trade is a run of \<^verbatim>\<open>recv_only\<close>.\<close>

interpretation counting: user_simulation "\<lambda>t v. (v\<lparr>trade_log := trade_log v @ [t]\<rparr>, False)" "\<lambda>b v. (v\<lparr>book_log := book_log v @ [b]\<rparr>, False)"
  recv_on_trade recv_on_orderbook "\<lambda>v u. recv_rel u v"
proof
  show "rel_prod (\<lambda>v u. recv_rel u v) (=) (v\<lparr>trade_log := trade_log v @ [t]\<rparr>, False) (recv_on_trade t u)" if "recv_rel u v" for u v t
    using recv.trade_step [OF that, of t] by (auto simp: rel_prod_sel)
  show "rel_prod (\<lambda>v u. recv_rel u v) (=) (v\<lparr>book_log := book_log v @ [b]\<rparr>, False) (recv_on_orderbook b u)" if "recv_rel u v" for u v b
    using recv.book_step [OF that, of b] by (auto simp: rel_prod_sel)
qed

lemma recv_config_default: "recv_config = default_feed_config"
  by (simp add: recv_config_def default_feed_config_def)

lemma demo_recv_only:
  obtains es w1 out m t where "recv_only demo_api (empty_world (\<lambda>_ _. None)) es w1 out m" and "clocks es = [1700000000000000]"
    and "length es < 2 ^ 64" and "trades_written m = trades_received m" and "orderbooks_written m = orderbooks_received m"
    and "trade_lines out = [(1, t)]" and "tid t = 1" and "book_lines out = []" and "orderbooks_received m = 0"
proof -
  obtain w0 f0 es w1 f1 t where d: "feed_start True (empty_world (\<lambda>_ _. None)) (new_feed default_feed_config empty_log) = Some (w0, f0)"
    "frun demo_api (demo_user False) (w0, f0) es (w1, f1)" "\<forall>b. FeedStart b \<notin> set es" "feed_pc f1 = FeedIdle" "clocks es = [1700000000000000]"
    "length es < 2 ^ 64" "user_trades f1 = [t]" "tid t = 1" "user_books f1 = []"
    "trades_written (feed_metrics_snapshot f1) = trades_received (feed_metrics_snapshot f1)"
    "orderbooks_written (feed_metrics_snapshot f1) = orderbooks_received (feed_metrics_snapshot f1)" by (rule demo_feed_run)
  obtain g0 where g0: "feed_start True (empty_world (\<lambda>_ _. None)) (new_feed recv_config new_recv) = Some (w0, g0)" "counting.feed_rel f0 g0"
    using counting.feed_start_rel [OF counting.feed_rel_new d(1)] recv_rel_new unfolding recv_config_default by blast
  obtain g1 where g1: "frun demo_api recv_callbacks (w0, g0) es (w1, g1)" "counting.feed_rel f1 g1"
    using counting.frun_rel [of demo_api "(w0, f0)" es "(w1, f1)" g0] d(2) g0(2) by (auto simp: recv_log recv_first)
  note s = counting.feed_rel_sel [OF g1(2)]
  have run: "recv_only demo_api (empty_world (\<lambda>_ _. None)) es w1 (recv_out (env_user (feed_env g1))) (feed_metrics_snapshot g1)"
    unfolding recv_only_def using g0(1) g1(1) d(3,4) s(3) by (intro exI [of _ w0] exI [of _ g0] exI [of _ g1]) simp
  have "counted (conn_metrics (feed_cm f1)) (env_user (feed_env f1))"
    by (rule feed_session_files(7) [OF d(1) _ empty_world_facts(1,2) _ d(2,3,4) _ _ d(6,10,11)])
      (use d(5) empty_world_facts(3) in \<open>simp_all add: persist_def default_feed_config_def\<close>)
  then have "orderbooks_received (feed_metrics_snapshot f1) = 0" using d(9) by (simp add: counted_def feed_metrics_snapshot_def Let_def)
  then show thesis
    by (intro that [OF run]) (use d s(4,5) in \<open>simp_all add: recv_rel_def\<close>)
qed

theorem examples_agree_witness:
  "\<exists>es w1 out m t w2 rt rb. recv_only demo_api (empty_world (\<lambda>_ _. None)) es w1 out m \<and> trade_lines out = [(1, t)] \<and> tid t = 1
     \<and> replay_only w1 [] = (w2, [Example_Dir ''./data'', Example_Trade (stamped_trade t), Example_Summary TradeRecord rt,
         Example_Summary OrderBookRecord rb], 1)"
proof -
  obtain es w1 out m t where d: "recv_only demo_api (empty_world (\<lambda>_ _. None)) es w1 out m" "clocks es = [1700000000000000]"
    "length es < 2 ^ 64" "trades_written m = trades_received m" "orderbooks_written m = orderbooks_received m"
    "trade_lines out = [(1, t)]" "tid t = 1" "book_lines out = []" "orderbooks_received m = 0" by (rule demo_recv_only)
  have c: "\<forall>ts \<in> set (clocks es). 0 < sint ts \<and> sint ts < end_of_9999_us" "sorted (map sint (clocks es))" using d(2) by simp_all
  have e: "\<forall>k n. own_name k n \<longrightarrow> get_node (empty_world (\<lambda>_ _. None)) ''./data'' n = None" using empty_world_facts(3) by simp
  have "\<exists>w2 rt rb. replay_only w1 [] = (w2, [Example_Dir ''./data'', Example_Trade (stamped_trade t), Example_Summary TradeRecord rt,
         Example_Summary OrderBookRecord rb], 1)"
    using examples_agree [OF d(1) empty_world_facts(1,2) e c d(3-5)] d(6,8,9) by auto
  then show ?thesis using d by blast
qed

end
