(* ===== verification/Spec2Isabelle.thy ===== *)
theory Spec2Isabelle
  imports Storage_Roundtrip Ring_Buffer Feed_Delivery Clock_Sync Connection_Lifecycle Cli_Options
    Pipeline_Benchmark Example_Programs
begin

text \<open>
  \<^bold>\<open>The market data system.\<close>

  The program receives trades and order book snapshots of crypto currency pairs over a WebSocket,
  checks and stamps them, hands them to callbacks, keeps the most recent ones in memory, writes
  all of them to hourly binary files, and can replay these files. It is used as a library
  (\<^verbatim>\<open>include/mds\<close>) and as a program with three modes (\<^verbatim>\<open>src/main.cpp\<close>): live, replay and
  benchmark. A message takes this way:

  \<^item> \<^verbatim>\<open>WebSocketClient\<close> reads it on its read thread, while a heartbeat thread closes a silent
    connection and \<^verbatim>\<open>ConnectionManager::reconnect_loop\<close> makes a new one;
  \<^item> \<^verbatim>\<open>ConnectionManager::on_raw_message\<close> parses the outer JSON object, routes by stream name,
    parses the record, asks the symbol's \<^verbatim>\<open>TradeSeqGate\<close> or compares update ids, stamps the
    receive time, counts, and calls the registered callback;
  \<^item> the callback of the facade (\<^verbatim>\<open>src/api/feed.cpp\<close>) or of the live mode pushes the record into a
    \<^verbatim>\<open>RingBuffer\<close> and into the queue of a \<^verbatim>\<open>BinaryRecordWriter\<close>, whose worker thread stamps a
    checksum and appends it to the file of its hour, repairing a file it finds;
  \<^item> \<^verbatim>\<open>BinaryRecordReader\<close> and \<^verbatim>\<open>RecordReplayer\<close> list the hour files, check headers and checksums
    and feed the records, within a time window, to a callback;
  \<^item> a clock thread estimates the offset to the exchange's clock, which the latency of trades uses,
    and a reporter thread prints rates and latency percentiles.

  \<^bold>\<open>Theories and sources.\<close>

  Foundations.
  \<^item> \<open>MDS_Prelude\<close>: bytes and little-endian words, checked signed 64-bit arithmetic (\<^const>\<open>None\<close> is an
    overflow, undefined behaviour in the sources), decimal formatting, generic lemmas.
  \<^item> \<open>Event_Runs\<close>: runs of a step function over a list of events, and the locale \<open>draining\<close>: an
    invariant, a rank that every step lowers, and a step that is due until the work is done. Its
    interpretations show that disconnecting, stopping and noticing a broken connection complete.
  \<^item> \<open>MDS_Types\<close>: \<^verbatim>\<open>include/mds/types.h\<close>, \<^verbatim>\<open>storage/trade_file_format.h\<close>: records field by field
    with their object representation; a double is its 64 bits.

  Storage.
  \<^item> \<open>Record_Crc\<close>, \<open>Record_Repair\<close>: \<^verbatim>\<open>storage/record_integrity.h\<close>. Errors of up to 32 bits are
    detected; a repair keeps exactly the longest valid run, and a failing one loses nothing.
  \<^item> \<open>File_Roll\<close>: \<^verbatim>\<open>storage/file_roll.h\<close>. Names sort by time; pruning by window is sound.
  \<^item> \<open>File_System\<close>: directories, files and streams with a failure of any call at any moment.
  \<^item> \<open>Record_Writer\<close>, \<open>Writer_Session\<close>: \<^verbatim>\<open>storage/binary_record_writer.h\<close>. \<open>wstep\<close> gives the
    atomic sections of the callers and of the worker; \<open>srun\<close> is a writer in an environment that
    changes other files. Every accepted record is written, queued or counted as dropped; the queue
    is first-in first-out and bounded; closing completes; the files refine an abstract store.
  \<^item> \<open>Record_Reader\<close>, \<open>Storage_Roundtrip\<close>: \<^verbatim>\<open>storage/binary_record_reader.h\<close>,
    \<^verbatim>\<open>replay/record_replayer.h\<close>, \<^verbatim>\<open>api/replayer.cpp\<close>. A replay delivers what sessions wrote.

  Message path.
  \<^item> \<open>Json_Api\<close>: the JSON library as a record of functions, and the concrete value type of the
    witnesses. \<open>Double_Parse\<close>: \<^verbatim>\<open>std::from_chars\<close> for doubles as the standard documents it.
  \<^item> \<open>Message_Parser\<close>: \<^verbatim>\<open>parser/parser.cpp\<close>. \<open>Trade_Seq_Gate\<close>: \<^verbatim>\<open>network/trade_seq_gate.h\<close>.
    \<open>Metrics\<close>, \<open>Latency_Histogram\<close>: \<^verbatim>\<open>monitor/\<close>. \<open>Config_Load\<close>: \<^verbatim>\<open>config/config.h\<close>.
  \<^item> \<open>Message_Handler\<close>, \<open>Message_Flow\<close>, \<open>Feed_Delivery\<close>: \<^verbatim>\<open>on_raw_message\<close> as one step of the
    state \<open>conn\<close>, and what it guarantees over any list of messages: consecutive ids, update ids
    that do not go back, exact counters, no undefined behaviour for sane clocks.
  \<^item> \<open>Callback_Wrapping\<close>: the locale \<open>callback_simulation\<close>. Its interpretations show that the facade
    is transparent and that the callbacks of the live mode and of the benchmark see what a plain
    log sees.

  Connections and clocks.
  \<^item> \<open>Net_Urls\<close>: URLs and \<^verbatim>\<open>http_get\<close> (\<^verbatim>\<open>network/https_client.cpp\<close>). \<open>Ws_Connection\<close>:
    \<^verbatim>\<open>connect\<close> of \<^verbatim>\<open>network/websocket_client.cpp\<close>, the timing of the heartbeat, the subscription
    message, CPU affinity.
  \<^item> \<open>Ws_Client\<close>: the read thread, the heartbeat thread, \<^verbatim>\<open>disconnect\<close> and \<^verbatim>\<open>send\<close> of the client as
    interleaved atomic sections. The owner is told of a disconnect once and after the last message,
    and disconnecting completes.
  \<^item> \<open>Clock_Offset\<close>, \<open>Clock_Sync\<close>: \<^verbatim>\<open>network/clock_offset.h\<close> and \<^verbatim>\<open>clock_sync_loop\<close>.
  \<^item> \<open>Connection_Lifecycle\<close>: \<^verbatim>\<open>reconnect_loop\<close>, \<^verbatim>\<open>start\<close> and \<^verbatim>\<open>stop\<close>, composed with the threads of
    the client they own. A broken connection wakes a blocked loop, stopping completes, retries are
    bounded; and the races under which this fails.

  The program.
  \<^item> \<open>Ring_Buffer\<close>: \<^verbatim>\<open>cache/ring_buffer.h\<close>, an interpretation of the locale \<open>recent_buffer\<close>.
  \<^item> \<open>Market_Feed\<close>, \<open>Feed_Persistence\<close>: the facade with both writers; from socket to replay.
    \<open>Writer_Pair\<close>: what it shares with the live mode as an owner of two writers; the locale
    \<open>worker_host\<close> makes a run of a worker thread a run of its owner.
    \<open>Session_Replay\<close>: what the two replay functions give back of the files of a session.
  \<^item> \<open>Feed_Users\<close>, \<open>Example_Programs\<close>: two users of the facade whose callbacks simulate each other
    (locale \<open>user_simulation\<close>), and the programs of \<^verbatim>\<open>examples/\<close>: the second prints what the first
    received.
  \<^item> \<open>Reporter\<close>, \<open>Live_Session\<close>, \<open>Live_Replay\<close>, \<open>Pipeline_Benchmark\<close>, \<open>Cli_Options\<close>:
    \<^verbatim>\<open>src/main.cpp\<close> and \<^verbatim>\<open>benchmark/pipeline_benchmark.cpp\<close>: the three modes, what they
    print, their exit codes, and the command line in front of them.

  \<^bold>\<open>Conventions.\<close> Unsigned counters are words and wrap. A signed operation that can overflow
  returns an option. An exception or a failed call is a value. Concurrent parts are step relations
  whose steps are sections that the sources make atomic by a mutex or an atomic variable; the
  theorems hold for every sequence of steps. The only fuel is the list of events, wake-ups or
  ticks of a run, so no bound is chosen; every loop inside a step is a total function whose
  termination is proved. Clock readings, the answers of the network and of the operating system,
  and the JSON library are arguments; a theorem states what it needs of them. The witnesses run
  concrete sessions, among them a live session of two messages that is then replayed.

  \<^bold>\<open>Not modelled.\<close> The text of log lines and of the usage message; signal delivery beyond the
  event that clears \<open>g_running\<close>; the memory model below atomic sections (relaxed atomics are
  sequentially consistent here, and resetting a histogram is one step); sockets, TLS and the JSON
  text format, which belong to libraries; failures of thread creation and of memory allocation
  outside \<open>MarketDataFeed::start\<close>; the durations that the benchmark measures; the parser branch for
  tool chains without \<^verbatim>\<open>std::from_chars\<close> for doubles; the tests and the scripts. A client is connected
  and disconnected by one thread at a time, and a second \<open>stop\<close> of a stopped manager is left out.
  A call of \<open>start\<close> on the facade while another thread is inside \<open>stop\<close> is excluded, and messages end when \<open>ConnectionManager::stop\<close> returns, as its comment promises; theory
  \<open>Connection_Lifecycle\<close> shows where the sources do not keep this promise.
\<close>

section \<open>From the command line to a running mode\<close>

lemma new_rings: "0 < n \<Longrightarrow> \<exists>b. ring_new z n = Inr b"
  by (simp add: ring_new_def validate_capacity_def)

lemma live_start_refused:
  "data_sources cfg = [] \<or> ds_ws_url (hd (data_sources cfg)) = [] \<Longrightarrow> run_live_start w cfg = Live_Exit w []"
  by (cases "data_sources cfg") (simp_all add: run_live_start_def)

lemma live_start_outcome:
  assumes "0 < ring_buffer_size cfg"
  shows "run_live_start w cfg \<noteq> Live_Abort w'"
    and "no_faults w \<Longrightarrow> \<not> (data_sources cfg = [] \<or> ds_ws_url (hd (data_sources cfg)) = [])
      \<Longrightarrow> \<exists>w0 l0. run_live_start w cfg = Live_Ready w0 l0"
proof -
  obtain tc bc where r: "ring_new zero_trade (ring_buffer_size cfg) = Inr tc" "ring_new zero_orderbook (ring_buffer_size cfg) = Inr bc"
    using new_rings [OF assms] by metis
  show "run_live_start w cfg \<noteq> Live_Abort w'"
    by (simp add: run_live_start_def r split: list.splits prod.splits)
  assume n: "no_faults w" and s: "\<not> (data_sources cfg = [] \<or> ds_ws_url (hd (data_sources cfg)) = [])"
  obtain w1 ts w2 bs where "open_writer w new_writer (cfg_data_dir cfg) (ring_buffer_size cfg) = (w1, ts, Record_Writer.Opened)"
    "open_writer w1 new_writer (cfg_data_dir cfg) (ring_buffer_size cfg) = (w2, bs, Record_Writer.Opened)"
    using open_pair [OF n assms] by metis
  then show "\<exists>w0 l0. run_live_start w cfg = Live_Ready w0 l0"
    using s by (cases "data_sources cfg") (simp_all add: run_live_start_def r)
qed

lemma bench_start_outcome:
  assumes "0 < ring_buffer_size cfg" and "int gap \<le> i64_max"
  shows "run_bench_start w cfg wr gap \<notin> {Bench_Error Bad_Gap w [], Bench_Error Bad_Capacity w []}"
    and "no_faults w \<Longrightarrow> is_valid_symbol (bench_symbol cfg) \<Longrightarrow> \<exists>w0 b0. run_bench_start w cfg wr gap = Bench_Ready w0 b0"
proof -
  obtain tc bc where r: "ring_new zero_trade (ring_buffer_size cfg) = Inr tc" "ring_new zero_orderbook (ring_buffer_size cfg) = Inr bc"
    using new_rings [OF assms(1)] by metis
  show "run_bench_start w cfg wr gap \<notin> {Bench_Error Bad_Gap w [], Bench_Error Bad_Capacity w []}"
    using assms(2) by (simp add: run_bench_start_def r Let_def split: prod.splits)
  assume n: "no_faults w" and v: "is_valid_symbol (bench_symbol cfg)"
  obtain w1 ts w2 bs where "open_writer w new_writer (bench_dir cfg) (ring_buffer_size cfg) = (w1, ts, Record_Writer.Opened)"
    "open_writer w1 new_writer (bench_dir cfg) (ring_buffer_size cfg) = (w2, bs, Record_Writer.Opened)"
    using open_pair [OF n assms(1)] by metis
  then show "\<exists>w0 b0. run_bench_start w cfg wr gap = Bench_Ready w0 b0" using assms(2) v by (simp add: run_bench_start_def r Let_def)
qed



end
